(* ===== verification/Rust_Prelude.thy ===== *)
theory Rust_Prelude
  imports Main "HOL-Library.Word" "HOL-Library.Log_Nat"
begin

text \<open>
  The prelude of the development: the parts of Rust and of its standard library that the
  modelled code uses. A machine integer is a word of its width, so that \<open>+\<close>, \<open>-\<close> and \<open>*\<close>
  wrap as the release build of the code does; \<open>checked_*\<close> and \<open>saturating_*\<close> are written
  out. A \<open>usize\<close> that counts elements of a collection is a \<open>nat\<close>. A fallible function
  returns a \<open>result\<close>, whose third constructor is a panic (an \<open>assert!\<close>, an \<open>unwrap\<close> on
  \<open>None\<close>, an index out of range); \<open>and_then\<close> is the \<open>?\<close> operator. The prelude also holds the
  two generic interfaces of the development: machines whose steps keep an invariant and
  machines whose steps keep a total.
\<close>

section \<open>Types\<close>

type_synonym u8 = "8 word"
type_synonym u16 = "16 word"
type_synonym u32 = "32 word"
type_synonym u64 = "64 word"
type_synonym u128 = "128 word"

type_synonym slot = u64
type_synonym epoch = u64

text \<open>
  The 32 bytes of a public key or of a hash are one big-endian number: the order of the
  numbers is the lexicographic order of the byte arrays, and the zero key is
  \<open>Pubkey::default()\<close>.
\<close>

type_synonym pubkey = "256 word"
type_synonym hash = "256 word"

datatype ('a, 'e) result = Ok 'a | Err 'e | Panic

section \<open>Collections of rewrite rules\<close>

named_theorems result_simps \<open>inversion of successful results\<close>
named_theorems unat_simps \<open>values of word operations\<close>

section \<open>Results\<close>

fun and_then :: "('a, 'e) result \<Rightarrow> ('a \<Rightarrow> ('b, 'e) result) \<Rightarrow> ('b, 'e) result" where
  "and_then (Ok a) f = f a"
| "and_then (Err e) f = Err e"
| "and_then Panic f = Panic"

fun map_err :: "('e \<Rightarrow> 'd) \<Rightarrow> ('a, 'e) result \<Rightarrow> ('a, 'd) result" where
  "map_err f (Ok a) = Ok a"
| "map_err f (Err e) = Err (f e)"
| "map_err f Panic = Panic"

fun map_ok :: "('a \<Rightarrow> 'b) \<Rightarrow> ('a, 'e) result \<Rightarrow> ('b, 'e) result" where
  "map_ok f (Ok a) = Ok (f a)"
| "map_ok f (Err e) = Err e"
| "map_ok f Panic = Panic"

fun ok_or :: "'a option \<Rightarrow> 'e \<Rightarrow> ('a, 'e) result" where
  "ok_or None e = Err e"
| "ok_or (Some a) e = Ok a"

text \<open>\<open>unwrap\<close>, and an indexing \<open>xs[i]\<close> that panics out of range.\<close>

fun unwrap :: "'a option \<Rightarrow> ('a, 'e) result" where
  "unwrap None = Panic"
| "unwrap (Some a) = Ok a"

definition get_at :: "'a list \<Rightarrow> nat \<Rightarrow> 'a option" where
  "get_at xs i = (if i < length xs then Some (xs ! i) else None)"

definition index_at :: "'a list \<Rightarrow> nat \<Rightarrow> ('a, 'e) result" where
  "index_at xs i = (if i < length xs then Ok (xs ! i) else Panic)"

fun last_opt :: "'a list \<Rightarrow> 'a option" where
  "last_opt [] = None"
| "last_opt (x # xs) = Some (last (x # xs))"

text \<open>\<open>Iterator::position\<close>.\<close>

fun position :: "('a \<Rightarrow> bool) \<Rightarrow> 'a list \<Rightarrow> nat option" where
  "position P [] = None"
| "position P (x # xs) = (if P x then Some 0 else map_option Suc (position P xs))"

text \<open>A loop over a list that threads a state and stops at the first error.\<close>

fun fold_res :: "('s \<Rightarrow> 'a \<Rightarrow> ('s, 'e) result) \<Rightarrow> 's \<Rightarrow> 'a list \<Rightarrow> ('s, 'e) result" where
  "fold_res f s [] = Ok s"
| "fold_res f s (x # xs) = and_then (f s x) (\<lambda>s'. fold_res f s' xs)"

text \<open>\<open>map\<close> with a fallible function, collected into one result.\<close>

fun map_res :: "('a \<Rightarrow> ('b, 'e) result) \<Rightarrow> 'a list \<Rightarrow> ('b list, 'e) result" where
  "map_res f [] = Ok []"
| "map_res f (x # xs) = and_then (f x) (\<lambda>y. and_then (map_res f xs) (\<lambda>ys. Ok (y # ys)))"

text \<open>\<open>unique\<close> of itertools: the first occurrence of every element, in order.\<close>

fun unique :: "'a list \<Rightarrow> 'a list" where
  "unique [] = []"
| "unique (x # xs) = x # removeAll x (unique xs)"

section \<open>Integers\<close>

definition checked_add :: "'a::len word \<Rightarrow> 'a word \<Rightarrow> 'a word option" where
  "checked_add a b = (if unat a + unat b < 2 ^ LENGTH('a) then Some (a + b) else None)"

definition checked_sub :: "'a::len word \<Rightarrow> 'a word \<Rightarrow> 'a word option" where
  "checked_sub a b = (if b \<le> a then Some (a - b) else None)"

definition checked_mul :: "'a::len word \<Rightarrow> 'a word \<Rightarrow> 'a word option" where
  "checked_mul a b = (if unat a * unat b < 2 ^ LENGTH('a) then Some (a * b) else None)"

definition checked_div :: "'a::len word \<Rightarrow> 'a word \<Rightarrow> 'a word option" where
  "checked_div a b = (if b = 0 then None else Some (a div b))"

definition checked_rem :: "'a::len word \<Rightarrow> 'a word \<Rightarrow> 'a word option" where
  "checked_rem a b = (if b = 0 then None else Some (a mod b))"

definition saturating_add :: "'a::len word \<Rightarrow> 'a word \<Rightarrow> 'a word" where
  "saturating_add a b = (if unat a + unat b < 2 ^ LENGTH('a) then a + b else - 1)"

definition saturating_sub :: "'a::len word \<Rightarrow> 'a word \<Rightarrow> 'a word" where
  "saturating_sub a b = (if b \<le> a then a - b else 0)"

definition saturating_mul :: "'a::len word \<Rightarrow> 'a word \<Rightarrow> 'a word" where
  "saturating_mul a b = (if unat a * unat b < 2 ^ LENGTH('a) then a * b else - 1)"

definition saturating_pow :: "'a::len word \<Rightarrow> nat \<Rightarrow> 'a word" where
  "saturating_pow a n = (if unat a ^ n < 2 ^ LENGTH('a) then a ^ n else - 1)"

text \<open>
  \<open>trailing_zeros\<close> is the width of the type on zero; \<open>next_power_of_two\<close> wraps to zero when
  the power does not fit, as the release build does.
\<close>

fun ctz_nat :: "nat \<Rightarrow> nat" where
  "ctz_nat n = (if n = 0 \<or> odd n then 0 else Suc (ctz_nat (n div 2)))"

declare ctz_nat.simps [simp del]

definition trailing_zeros :: "'a::len word \<Rightarrow> u32" where
  "trailing_zeros w = word_of_nat (if w = 0 then LENGTH('a) else ctz_nat (unat w))"

definition next_power_of_two :: "'a::len word \<Rightarrow> 'a word" where
  "next_power_of_two w =
     word_of_nat (if unat w \<le> 1 then 1 else 2 ^ floorlog 2 (unat w - 1))"

section \<open>Interfaces\<close>

text \<open>
  A machine whose step may fail. Its contract: a step that succeeds keeps the invariant.
  Every run then keeps it; a run stops at the first error.
\<close>

locale invariant_machine =
  fixes step :: "'s \<Rightarrow> 'i \<Rightarrow> ('s, 'e) result"
    and inv :: "'s \<Rightarrow> bool"
  assumes step_inv: "inv s \<Longrightarrow> step s i = Ok s' \<Longrightarrow> inv s'"
begin

lemma run_inv: "inv s \<Longrightarrow> fold_res step s is = Ok s' \<Longrightarrow> inv s'"
proof (induction "is" arbitrary: s)
  case Nil
  then show ?case by simp
next
  case (Cons i "is")
  then show ?case by (cases "step s i") (auto dest: step_inv)
qed

end

text \<open>
  A machine whose steps keep a measured total (the lamports of an account store) on the
  states that satisfy its invariant.
\<close>

locale conserving_machine = invariant_machine +
  fixes total :: "'a \<Rightarrow> nat"
  assumes step_total: "inv s \<Longrightarrow> step s i = Ok s' \<Longrightarrow> total s' = total s"
begin

lemma run_total: "inv s \<Longrightarrow> fold_res step s is = Ok s' \<Longrightarrow> total s' = total s"
proof (induction "is" arbitrary: s)
  case Nil
  then show ?case by simp
next
  case (Cons i "is")
  then obtain t where "step s i = Ok t" and "fold_res step t is = Ok s'"
    by (cases "step s i") auto
  with Cons show ?case by (metis step_inv step_total)
qed

end

section \<open>Lemmas\<close>

lemma and_then_Ok_iff [result_simps]:
  "and_then r f = Ok b \<longleftrightarrow> (\<exists>a. r = Ok a \<and> f a = Ok b)"
  by (cases r) auto

lemma map_err_Ok_iff [result_simps]: "map_err f r = Ok a \<longleftrightarrow> r = Ok a"
  by (cases r) auto

lemma map_ok_Ok_iff [result_simps]: "map_ok f r = Ok b \<longleftrightarrow> (\<exists>a. r = Ok a \<and> b = f a)"
  by (cases r) auto

lemma ok_or_Ok_iff [result_simps]: "ok_or x e = Ok a \<longleftrightarrow> x = Some a"
  by (cases x) auto

lemma unwrap_Ok_iff [result_simps]: "unwrap x = Ok a \<longleftrightarrow> x = Some a"
  by (cases x) auto

lemma get_at_Some_iff [result_simps]: "get_at xs i = Some x \<longleftrightarrow> i < length xs \<and> xs ! i = x"
  by (auto simp: get_at_def)

lemma index_at_Ok_iff [result_simps]: "index_at xs i = Ok x \<longleftrightarrow> i < length xs \<and> xs ! i = x"
  by (auto simp: index_at_def)

lemma last_opt_snoc [simp]: "last_opt (xs @ [x]) = Some x"
  by (cases xs) auto

lemma last_opt_None_iff [simp]: "last_opt xs = None \<longleftrightarrow> xs = []"
  by (cases xs) auto

lemma last_opt_Some_iff: "last_opt xs = Some x \<longleftrightarrow> xs \<noteq> [] \<and> last xs = x"
  by (cases xs) auto

lemma position_Some:
  "position P xs = Some i \<Longrightarrow> i < length xs \<and> P (xs ! i) \<and> (\<forall>j < i. \<not> P (xs ! j))"
proof (induction xs arbitrary: i)
  case Nil
  then show ?case by simp
next
  case (Cons x xs)
  then show ?case by (auto split: if_splits simp: less_Suc_eq_0_disj)
qed

lemma position_None: "position P xs = None \<longleftrightarrow> (\<forall>x \<in> set xs. \<not> P x)"
  by (induction xs) auto

lemma position_ex: "x \<in> set xs \<Longrightarrow> P x \<Longrightarrow> \<exists>i. position P xs = Some i"
  using position_None [of P xs] by auto

lemma fold_res_append:
  "fold_res f s (xs @ ys) = and_then (fold_res f s xs) (\<lambda>s'. fold_res f s' ys)"
proof (induction xs arbitrary: s)
  case Nil
  then show ?case by simp
next
  case (Cons x xs)
  then show ?case by (cases "f s x") auto
qed

lemma map_res_Ok_iff [result_simps]:
  "map_res f xs = Ok ys \<longleftrightarrow> list_all2 (\<lambda>x y. f x = Ok y) xs ys"
proof (induction xs arbitrary: ys)
  case Nil
  then show ?case by auto
next
  case (Cons x xs)
  then show ?case by (cases ys) (auto simp: and_then_Ok_iff)
qed

lemma map_res_Ok: "(\<And>x. x \<in> set xs \<Longrightarrow> f x = Ok (g x)) \<Longrightarrow> map_res f xs = Ok (map g xs)"
  by (induction xs) auto

lemma set_unique [simp]: "set (unique xs) = set xs"
  by (induction xs) auto

lemma distinct_unique [simp]: "distinct (unique xs)"
  by (induction xs) (auto simp: distinct_removeAll)

lemma position_distinct:
  "distinct xs \<Longrightarrow> i < length xs \<Longrightarrow> position (\<lambda>y. y = xs ! i) xs = Some i"
proof (induction xs arbitrary: i)
  case (Cons x xs)
  then show ?case by (cases i) auto
qed simp

lemma unat_bound: "unat (x::'a::len word) < 2 ^ LENGTH('a)"
  by (rule unsigned_less)

lemma unat_u64_bound: "unat (x::u64) < 18446744073709551616"
  using unat_bound [of x] by simp

lemma unat_u32_bound: "unat (x::u32) < 4294967296"
  using unat_bound [of x] by simp

lemma unat_add_less [unat_simps]:
  "unat (a::'a::len word) + unat b < 2 ^ LENGTH('a) \<Longrightarrow> unat (a + b) = unat a + unat b"
  by (simp add: unat_word_ariths)

lemma unat_sub_le [unat_simps]: "(b::'a::len word) \<le> a \<Longrightarrow> unat (a - b) = unat a - unat b"
  by (rule unat_sub)

lemma unat_mul_less [unat_simps]:
  "unat (a::'a::len word) * unat b < 2 ^ LENGTH('a) \<Longrightarrow> unat (a * b) = unat a * unat b"
  by (simp add: unat_word_ariths)

lemma unat_power_less [unat_simps]:
  fixes a :: "'a::len word"
  assumes "unat a ^ n < 2 ^ LENGTH('a)"
  shows "unat (a ^ n) = unat a ^ n"
proof -
  have "a ^ n = word_of_nat (unat a ^ n)"
    by (simp add: of_nat_power)
  then have "unat (a ^ n) = unat a ^ n mod 2 ^ LENGTH('a)"
    by (simp only: unat_of_nat)
  with assms show ?thesis by simp
qed

lemma checked_add_Some_iff [result_simps]:
  "checked_add a b = Some c \<longleftrightarrow> c = a + b \<and> unat c = unat a + unat b"
  for a :: "'a::len word"
proof -
  have "unat (a + b) = unat a + unat b \<Longrightarrow> unat a + unat b < 2 ^ LENGTH('a)"
    by (metis unsigned_less)
  then show ?thesis
    by (auto simp: checked_add_def unat_simps split: if_splits)
qed

lemma checked_sub_Some_iff [result_simps]:
  "checked_sub a b = Some c \<longleftrightarrow> b \<le> a \<and> c = a - b"
  by (auto simp: checked_sub_def)

lemma checked_add_None_iff [result_simps]:
  "checked_add (a::'a::len word) b = None \<longleftrightarrow> 2 ^ LENGTH('a) \<le> unat a + unat b"
  by (auto simp: checked_add_def)

lemma unat_saturating_add [unat_simps]:
  "unat (saturating_add a b) = min (unat a + unat b) (2 ^ LENGTH('a) - 1)"
  for a :: "'a::len word"
  by (auto simp: saturating_add_def unat_simps unsigned_minus_1_eq_mask mask_eq_exp_minus_1)

lemma unat_saturating_sub [unat_simps]: "unat (saturating_sub a b) = unat a - unat b"
  by (auto simp: saturating_sub_def unat_simps word_le_nat_alt)

lemma unat_saturating_mul [unat_simps]:
  "unat (saturating_mul a b) = min (unat a * unat b) (2 ^ LENGTH('a) - 1)"
  for a :: "'a::len word"
  by (auto simp: saturating_mul_def unat_simps unsigned_minus_1_eq_mask mask_eq_exp_minus_1)

lemma unat_saturating_pow [unat_simps]:
  "unat (saturating_pow a n) = min (unat a ^ n) (2 ^ LENGTH('a) - 1)"
  for a :: "'a::len word"
  by (auto simp: saturating_pow_def unat_simps unsigned_minus_1_eq_mask mask_eq_exp_minus_1)

lemma unat_word_of_nat_less [unat_simps]:
  "n < 2 ^ LENGTH('a) \<Longrightarrow> unat (word_of_nat n :: 'a::len word) = n"
  by (simp add: unat_of_nat)

lemma ctz_nat_power: "ctz_nat (2 ^ k) = k"
  by (induction k) (simp_all add: ctz_nat.simps)

lemma trailing_zeros_power:
  assumes "unat (w::'a::len word) = 2 ^ k" and "k < 2 ^ 32"
  shows "unat (trailing_zeros w) = k"
proof -
  have "w \<noteq> 0" using assms(1) by auto
  then have "trailing_zeros w = word_of_nat k"
    by (simp add: trailing_zeros_def assms(1) ctz_nat_power)
  then show ?thesis using assms(2) by (simp add: unat_simps)
qed

lemma next_power_of_two_eq:
  assumes "1 < unat (w::'a::len word)" and "2 ^ (k - 1) < unat w" and "unat w \<le> 2 ^ k"
    and "0 < k" and "k < LENGTH('a)"
  shows "unat (next_power_of_two w) = 2 ^ k"
proof -
  have "floorlog 2 (unat w - 1) = k"
    using assms by (intro antisym floorlog_leI floorlog_geI) auto
  moreover have "(2::nat) ^ k < 2 ^ LENGTH('a)" using assms(5) by simp
  ultimately show ?thesis
    using assms(1) by (simp add: next_power_of_two_def unat_simps del: of_nat_power)
qed

text \<open>A store is a list; replacing entries changes a sum by the difference of the entries.\<close>

lemma sum_list_update_nat:
  fixes f :: "'a \<Rightarrow> nat"
  assumes "i < length xs"
  shows "sum_list (map f (xs[i := x])) + f (xs ! i) = sum_list (map f xs) + f x"
  using assms
proof (induction xs arbitrary: i)
  case Nil
  then show ?case by simp
next
  case (Cons y ys)
  then show ?case by (cases i) (auto simp: add.commute add.left_commute)
qed

lemma nth_le_sum_list_nat:
  fixes f :: "'a \<Rightarrow> nat"
  assumes "i < length xs"
  shows "f (xs ! i) \<le> sum_list (map f xs)"
  using assms by (metis elem_le_sum_list length_map nth_map)

text \<open>The arithmetic on integers instead of natural numbers, so that evaluation works on numerals.\<close>

lemma checked_add_code [code]:
  "checked_add (a::'a::len word) b = (if uint a + uint b < 2 ^ LENGTH('a) then Some (a + b) else None)"
proof -
  have "unat a + unat b < 2 ^ LENGTH('a) \<longleftrightarrow> int (unat a + unat b) < int (2 ^ LENGTH('a))"
    by (simp only: of_nat_less_iff)
  then show ?thesis by (simp add: checked_add_def)
qed

lemma checked_mul_code [code]:
  "checked_mul (a::'a::len word) b = (if uint a * uint b < 2 ^ LENGTH('a) then Some (a * b) else None)"
proof -
  have "unat a * unat b < 2 ^ LENGTH('a) \<longleftrightarrow> int (unat a * unat b) < int (2 ^ LENGTH('a))"
    by (simp only: of_nat_less_iff)
  then show ?thesis by (simp add: checked_mul_def)
qed

lemma saturating_add_code [code]:
  "saturating_add (a::'a::len word) b = (if uint a + uint b < 2 ^ LENGTH('a) then a + b else - 1)"
proof -
  have "unat a + unat b < 2 ^ LENGTH('a) \<longleftrightarrow> int (unat a + unat b) < int (2 ^ LENGTH('a))"
    by (simp only: of_nat_less_iff)
  then show ?thesis by (simp add: saturating_add_def)
qed

lemma saturating_mul_code [code]:
  "saturating_mul (a::'a::len word) b = (if uint a * uint b < 2 ^ LENGTH('a) then a * b else - 1)"
proof -
  have "unat a * unat b < 2 ^ LENGTH('a) \<longleftrightarrow> int (unat a * unat b) < int (2 ^ LENGTH('a))"
    by (simp only: of_nat_less_iff)
  then show ?thesis by (simp add: saturating_mul_def)
qed

end
