(* ===== verification/Program_Error.thy ===== *)
theory Program_Error
  imports Rust_Prelude
begin

text \<open>
  The error values of the runtime and of programs, and their encodings as \<open>u64\<close> return
  codes (\<open>sdk/program/src/instruction.rs\<close>, \<open>program_error.rs\<close>, \<open>lamports.rs\<close>,
  \<open>pubkey.rs\<close>). Builtin errors occupy the upper 32 bits of a code and custom errors the
  lower 32; the lemmas show when the encoding can be read back.
\<close>

unbundle bit_operations_syntax

section \<open>Definitions\<close>

datatype instruction_error =
    GenericError
  | InvalidArgument
  | InvalidInstructionData
  | InvalidAccountData
  | AccountDataTooSmall
  | InsufficientFunds
  | IncorrectProgramId
  | MissingRequiredSignature
  | AccountAlreadyInitialized
  | UninitializedAccount
  | UnbalancedInstruction
  | ModifiedProgramId
  | ExternalAccountLamportSpend
  | ExternalAccountDataModified
  | ReadonlyLamportChange
  | ReadonlyDataModified
  | DuplicateAccountIndex
  | ExecutableModified
  | RentEpochModified
  | NotEnoughAccountKeys
  | AccountDataSizeChanged
  | AccountNotExecutable
  | AccountBorrowFailed
  | AccountBorrowOutstanding
  | DuplicateAccountOutOfSync
  | Custom u32
  | InvalidError
  | ExecutableDataModified
  | ExecutableLamportChange
  | ExecutableAccountNotRentExempt
  | UnsupportedProgramId
  | CallDepth
  | MissingAccount
  | ReentrancyNotAllowed
  | MaxSeedLengthExceeded
  | InvalidSeeds
  | InvalidRealloc
  | ComputationalBudgetExceeded
  | PrivilegeEscalation
  | ProgramEnvironmentSetupFailure
  | ProgramFailedToComplete
  | ProgramFailedToCompile
  | Immutable
  | IncorrectAuthority
  | BorshIoError string
  | AccountNotRentExempt
  | InvalidAccountOwner
  | ArithmeticOverflow
  | UnsupportedSysvar
  | IllegalOwner

datatype program_error =
    PE_Custom u32
  | PE_InvalidArgument
  | PE_InvalidInstructionData
  | PE_InvalidAccountData
  | PE_AccountDataTooSmall
  | PE_InsufficientFunds
  | PE_IncorrectProgramId
  | PE_MissingRequiredSignature
  | PE_AccountAlreadyInitialized
  | PE_UninitializedAccount
  | PE_NotEnoughAccountKeys
  | PE_AccountBorrowFailed
  | PE_MaxSeedLengthExceeded
  | PE_InvalidSeeds
  | PE_BorshIoError string
  | PE_AccountNotRentExempt
  | PE_UnsupportedSysvar
  | PE_IllegalOwner

datatype pubkey_error = PK_MaxSeedLengthExceeded | PK_InvalidSeeds | PK_IllegalOwner

datatype lamports_error = LE_ArithmeticUnderflow | LE_ArithmeticOverflow

definition BUILTIN_BIT_SHIFT :: nat where
  "BUILTIN_BIT_SHIFT = 32"

definition to_builtin :: "u64 \<Rightarrow> u64" where
  "to_builtin e = push_bit BUILTIN_BIT_SHIFT e"

definition CUSTOM_ZERO :: u64 where "CUSTOM_ZERO = to_builtin 1"
definition INVALID_ARGUMENT :: u64 where "INVALID_ARGUMENT = to_builtin 2"
definition INVALID_INSTRUCTION_DATA :: u64 where "INVALID_INSTRUCTION_DATA = to_builtin 3"
definition INVALID_ACCOUNT_DATA :: u64 where "INVALID_ACCOUNT_DATA = to_builtin 4"
definition ACCOUNT_DATA_TOO_SMALL :: u64 where "ACCOUNT_DATA_TOO_SMALL = to_builtin 5"
definition INSUFFICIENT_FUNDS :: u64 where "INSUFFICIENT_FUNDS = to_builtin 6"
definition INCORRECT_PROGRAM_ID :: u64 where "INCORRECT_PROGRAM_ID = to_builtin 7"
definition MISSING_REQUIRED_SIGNATURES :: u64 where
  "MISSING_REQUIRED_SIGNATURES = to_builtin 8"
definition ACCOUNT_ALREADY_INITIALIZED :: u64 where
  "ACCOUNT_ALREADY_INITIALIZED = to_builtin 9"
definition UNINITIALIZED_ACCOUNT :: u64 where "UNINITIALIZED_ACCOUNT = to_builtin 10"
definition NOT_ENOUGH_ACCOUNT_KEYS :: u64 where "NOT_ENOUGH_ACCOUNT_KEYS = to_builtin 11"
definition ACCOUNT_BORROW_FAILED :: u64 where "ACCOUNT_BORROW_FAILED = to_builtin 12"
definition MAX_SEED_LENGTH_EXCEEDED :: u64 where "MAX_SEED_LENGTH_EXCEEDED = to_builtin 13"
definition INVALID_SEEDS :: u64 where "INVALID_SEEDS = to_builtin 14"
definition BORSH_IO_ERROR :: u64 where "BORSH_IO_ERROR = to_builtin 15"
definition ACCOUNT_NOT_RENT_EXEMPT :: u64 where "ACCOUNT_NOT_RENT_EXEMPT = to_builtin 16"
definition UNSUPPORTED_SYSVAR :: u64 where "UNSUPPORTED_SYSVAR = to_builtin 17"
definition ILLEGAL_OWNER :: u64 where "ILLEGAL_OWNER = to_builtin 18"

fun u64_of_program_error :: "program_error \<Rightarrow> u64" where
  "u64_of_program_error PE_InvalidArgument = INVALID_ARGUMENT"
| "u64_of_program_error PE_InvalidInstructionData = INVALID_INSTRUCTION_DATA"
| "u64_of_program_error PE_InvalidAccountData = INVALID_ACCOUNT_DATA"
| "u64_of_program_error PE_AccountDataTooSmall = ACCOUNT_DATA_TOO_SMALL"
| "u64_of_program_error PE_InsufficientFunds = INSUFFICIENT_FUNDS"
| "u64_of_program_error PE_IncorrectProgramId = INCORRECT_PROGRAM_ID"
| "u64_of_program_error PE_MissingRequiredSignature = MISSING_REQUIRED_SIGNATURES"
| "u64_of_program_error PE_AccountAlreadyInitialized = ACCOUNT_ALREADY_INITIALIZED"
| "u64_of_program_error PE_UninitializedAccount = UNINITIALIZED_ACCOUNT"
| "u64_of_program_error PE_NotEnoughAccountKeys = NOT_ENOUGH_ACCOUNT_KEYS"
| "u64_of_program_error PE_AccountBorrowFailed = ACCOUNT_BORROW_FAILED"
| "u64_of_program_error PE_MaxSeedLengthExceeded = MAX_SEED_LENGTH_EXCEEDED"
| "u64_of_program_error PE_InvalidSeeds = INVALID_SEEDS"
| "u64_of_program_error (PE_BorshIoError msg) = BORSH_IO_ERROR"
| "u64_of_program_error PE_AccountNotRentExempt = ACCOUNT_NOT_RENT_EXEMPT"
| "u64_of_program_error PE_UnsupportedSysvar = UNSUPPORTED_SYSVAR"
| "u64_of_program_error PE_IllegalOwner = ILLEGAL_OWNER"
| "u64_of_program_error (PE_Custom err) = (if err = 0 then CUSTOM_ZERO else ucast err)"

definition program_error_of_u64 :: "u64 \<Rightarrow> program_error" where
  "program_error_of_u64 err =
     (if err = CUSTOM_ZERO then PE_Custom 0
      else if err = INVALID_ARGUMENT then PE_InvalidArgument
      else if err = INVALID_INSTRUCTION_DATA then PE_InvalidInstructionData
      else if err = INVALID_ACCOUNT_DATA then PE_InvalidAccountData
      else if err = ACCOUNT_DATA_TOO_SMALL then PE_AccountDataTooSmall
      else if err = INSUFFICIENT_FUNDS then PE_InsufficientFunds
      else if err = INCORRECT_PROGRAM_ID then PE_IncorrectProgramId
      else if err = MISSING_REQUIRED_SIGNATURES then PE_MissingRequiredSignature
      else if err = ACCOUNT_ALREADY_INITIALIZED then PE_AccountAlreadyInitialized
      else if err = UNINITIALIZED_ACCOUNT then PE_UninitializedAccount
      else if err = NOT_ENOUGH_ACCOUNT_KEYS then PE_NotEnoughAccountKeys
      else if err = ACCOUNT_BORROW_FAILED then PE_AccountBorrowFailed
      else if err = MAX_SEED_LENGTH_EXCEEDED then PE_MaxSeedLengthExceeded
      else if err = INVALID_SEEDS then PE_InvalidSeeds
      else if err = BORSH_IO_ERROR then PE_BorshIoError ''Unkown''
      else if err = ACCOUNT_NOT_RENT_EXEMPT then PE_AccountNotRentExempt
      else if err = UNSUPPORTED_SYSVAR then PE_UnsupportedSysvar
      else if err = ILLEGAL_OWNER then PE_IllegalOwner
      else PE_Custom (ucast err))"

definition program_error_try_from :: "instruction_error \<Rightarrow> (program_error, instruction_error) result" where
  "program_error_try_from error =
     (case error of
        Custom err \<Rightarrow> Ok (PE_Custom err)
      | InvalidArgument \<Rightarrow> Ok PE_InvalidArgument
      | InvalidInstructionData \<Rightarrow> Ok PE_InvalidInstructionData
      | InvalidAccountData \<Rightarrow> Ok PE_InvalidAccountData
      | AccountDataTooSmall \<Rightarrow> Ok PE_AccountDataTooSmall
      | InsufficientFunds \<Rightarrow> Ok PE_InsufficientFunds
      | IncorrectProgramId \<Rightarrow> Ok PE_IncorrectProgramId
      | MissingRequiredSignature \<Rightarrow> Ok PE_MissingRequiredSignature
      | AccountAlreadyInitialized \<Rightarrow> Ok PE_AccountAlreadyInitialized
      | UninitializedAccount \<Rightarrow> Ok PE_UninitializedAccount
      | NotEnoughAccountKeys \<Rightarrow> Ok PE_NotEnoughAccountKeys
      | AccountBorrowFailed \<Rightarrow> Ok PE_AccountBorrowFailed
      | MaxSeedLengthExceeded \<Rightarrow> Ok PE_MaxSeedLengthExceeded
      | InvalidSeeds \<Rightarrow> Ok PE_InvalidSeeds
      | BorshIoError err \<Rightarrow> Ok (PE_BorshIoError err)
      | AccountNotRentExempt \<Rightarrow> Ok PE_AccountNotRentExempt
      | UnsupportedSysvar \<Rightarrow> Ok PE_UnsupportedSysvar
      | IllegalOwner \<Rightarrow> Ok PE_IllegalOwner
      | _ \<Rightarrow> Err error)"

text \<open>
  The conversion of any error with a \<open>ToPrimitive\<close> code: the argument is the result of
  \<open>to_u64\<close> with its default \<open>0xbad_c0de\<close>.
\<close>

definition instruction_error_of_u64 :: "u64 \<Rightarrow> instruction_error" where
  "instruction_error_of_u64 err =
     (if err = CUSTOM_ZERO then Custom 0
      else if err = INVALID_ARGUMENT then InvalidArgument
      else if err = INVALID_INSTRUCTION_DATA then InvalidInstructionData
      else if err = INVALID_ACCOUNT_DATA then InvalidAccountData
      else if err = ACCOUNT_DATA_TOO_SMALL then AccountDataTooSmall
      else if err = INSUFFICIENT_FUNDS then InsufficientFunds
      else if err = INCORRECT_PROGRAM_ID then IncorrectProgramId
      else if err = MISSING_REQUIRED_SIGNATURES then MissingRequiredSignature
      else if err = ACCOUNT_ALREADY_INITIALIZED then AccountAlreadyInitialized
      else if err = UNINITIALIZED_ACCOUNT then UninitializedAccount
      else if err = NOT_ENOUGH_ACCOUNT_KEYS then NotEnoughAccountKeys
      else if err = ACCOUNT_BORROW_FAILED then AccountBorrowFailed
      else if err = MAX_SEED_LENGTH_EXCEEDED then MaxSeedLengthExceeded
      else if err = INVALID_SEEDS then InvalidSeeds
      else if err = BORSH_IO_ERROR then BorshIoError ''Unkown''
      else if err = ACCOUNT_NOT_RENT_EXEMPT then AccountNotRentExempt
      else if err = UNSUPPORTED_SYSVAR then UnsupportedSysvar
      else if err = ILLEGAL_OWNER then IllegalOwner
      else if drop_bit BUILTIN_BIT_SHIFT err = 0 then Custom (ucast err)
      else InvalidError)"

fun instruction_error_of_lamports_error :: "lamports_error \<Rightarrow> instruction_error" where
  "instruction_error_of_lamports_error LE_ArithmeticOverflow = ArithmeticOverflow"
| "instruction_error_of_lamports_error LE_ArithmeticUnderflow = ArithmeticOverflow"

text \<open>
  \<open>PubkeyError\<close> derives \<open>ToPrimitive\<close>, so \<open>?\<close> turns it into an \<open>InstructionError\<close> by its
  position in the enumeration, while \<open>ProgramError::from\<close> goes by its name.
\<close>

fun pubkey_error_code :: "pubkey_error \<Rightarrow> u64" where
  "pubkey_error_code PK_MaxSeedLengthExceeded = 0"
| "pubkey_error_code PK_InvalidSeeds = 1"
| "pubkey_error_code PK_IllegalOwner = 2"

fun program_error_of_pubkey_error :: "pubkey_error \<Rightarrow> program_error" where
  "program_error_of_pubkey_error PK_MaxSeedLengthExceeded = PE_MaxSeedLengthExceeded"
| "program_error_of_pubkey_error PK_InvalidSeeds = PE_InvalidSeeds"
| "program_error_of_pubkey_error PK_IllegalOwner = PE_IllegalOwner"

lemmas builtin_codes =
  CUSTOM_ZERO_def INVALID_ARGUMENT_def INVALID_INSTRUCTION_DATA_def INVALID_ACCOUNT_DATA_def
  ACCOUNT_DATA_TOO_SMALL_def INSUFFICIENT_FUNDS_def INCORRECT_PROGRAM_ID_def
  MISSING_REQUIRED_SIGNATURES_def ACCOUNT_ALREADY_INITIALIZED_def UNINITIALIZED_ACCOUNT_def
  NOT_ENOUGH_ACCOUNT_KEYS_def ACCOUNT_BORROW_FAILED_def MAX_SEED_LENGTH_EXCEEDED_def
  INVALID_SEEDS_def BORSH_IO_ERROR_def ACCOUNT_NOT_RENT_EXEMPT_def UNSUPPORTED_SYSVAR_def
  ILLEGAL_OWNER_def to_builtin_def BUILTIN_BIT_SHIFT_def

section \<open>Lemmas\<close>

text \<open>A custom code lies below every builtin code.\<close>

lemma unat_ucast_u32: "unat (ucast (err::u32) :: u64) = unat err"
  using unat_u32_bound [of err] by (simp add: unsigned_ucast_eq take_bit_nat_eq_self_iff)

lemma ucast_u32_less: "(ucast (err::u32) :: u64) < 4294967296"
  using unat_u32_bound [of err] by (simp add: word_less_nat_alt unat_ucast_u32)

lemma ucast_u32_neq_builtin: "4294967296 \<le> k \<Longrightarrow> (ucast (err::u32) :: u64) \<noteq> k"
  using ucast_u32_less [of err] by auto

lemma ucast_u32_u64_back: "(ucast (ucast (err::u32) :: u64) :: u32) = err"
  by (simp add: word_unat_eq_iff unsigned_ucast_eq take_bit_word_eq_self)

lemma drop_bit_ucast_u32: "drop_bit 32 (ucast (err::u32) :: u64) = 0"
  using unat_u32_bound [of err]
  by (simp add: word_unat_eq_iff unat_drop_bit_eq unat_ucast_u32 drop_bit_nat_def)

lemma program_error_of_custom:
  "err \<noteq> 0 \<Longrightarrow> program_error_of_u64 (ucast err) = PE_Custom err"
  by (simp add: program_error_of_u64_def builtin_codes ucast_u32_neq_builtin ucast_u32_u64_back)

lemma instruction_error_of_custom: "instruction_error_of_u64 (ucast err) = Custom err"
  by (simp add: instruction_error_of_u64_def builtin_codes ucast_u32_neq_builtin ucast_u32_u64_back
      drop_bit_ucast_u32)

text \<open>
  A program's error is read back from its \<open>u64\<close> return code. \<open>ProgramError::from(u64)\<close>
  inverts \<open>u64::from(ProgramError)\<close> on every error; only the message of a Borsh I/O error is
  lost, which comes back as \<open>Unkown\<close>.
\<close>

lemma program_error_roundtrip:
  "program_error_of_u64 (u64_of_program_error e) =
     (case e of PE_BorshIoError msg \<Rightarrow> PE_BorshIoError ''Unkown'' | _ \<Rightarrow> e)"
  by (cases e)
    (simp_all add: program_error_of_custom, simp_all add: program_error_of_u64_def builtin_codes)



end
