(* ===== verification/Program_Ids.thy ===== *)
theory Program_Ids
  imports Rust_Prelude
begin

text \<open>
  The addresses that the code declares with \<open>declare_id!\<close> and \<open>declare_sysvar_id!\<close>. The
  macros decode the base58 literal at compile time; here it is decoded by
  \<open>pubkey_of_base58\<close>. The lemmas evaluate the ones the programs compare with each other.
\<close>

section \<open>Definitions\<close>

text \<open>The alphabet is \<open>1..9 A..H J..N P..Z a..k m..z\<close>, in the order of the ASCII codes.\<close>

definition base58_digit :: "char \<Rightarrow> int" where
  "base58_digit c =
     (let n = of_char c :: int in
      if n < 65 then n - 49
      else if n < 73 then n - 56
      else if n < 79 then n - 57
      else if n < 91 then n - 58
      else if n < 108 then n - 64
      else n - 65)"

definition pubkey_of_base58 :: "string \<Rightarrow> pubkey" where
  "pubkey_of_base58 s = word_of_int (fold (\<lambda>c n. n * 58 + base58_digit c) s 0)"

definition system_program_id :: pubkey where
  "system_program_id = pubkey_of_base58 ''11111111111111111111111111111111''"

definition vote_program_id :: pubkey where
  "vote_program_id = pubkey_of_base58 ''Vote111111111111111111111111111111111111111''"

definition config_program_id :: pubkey where
  "config_program_id = pubkey_of_base58 ''Config1111111111111111111111111111111111111''"

definition stake_program_id :: pubkey where
  "stake_program_id = pubkey_of_base58 ''Stake11111111111111111111111111111111111111''"

definition stake_config_id :: pubkey where
  "stake_config_id = pubkey_of_base58 ''StakeConfig11111111111111111111111111111111''"

definition feature_id :: pubkey where
  "feature_id = pubkey_of_base58 ''Feature111111111111111111111111111111111111''"

definition native_loader_id :: pubkey where
  "native_loader_id = pubkey_of_base58 ''NativeLoader1111111111111111111111111111111''"

definition bpf_loader_id :: pubkey where
  "bpf_loader_id = pubkey_of_base58 ''BPFLoader2111111111111111111111111111111111''"

definition bpf_loader_deprecated_id :: pubkey where
  "bpf_loader_deprecated_id = pubkey_of_base58 ''BPFLoader1111111111111111111111111111111111''"

definition bpf_loader_upgradeable_id :: pubkey where
  "bpf_loader_upgradeable_id = pubkey_of_base58 ''BPFLoaderUpgradeab1e11111111111111111111111''"

definition sysvar_owner_id :: pubkey where
  "sysvar_owner_id = pubkey_of_base58 ''Sysvar1111111111111111111111111111111111111''"

definition clock_id :: pubkey where
  "clock_id = pubkey_of_base58 ''SysvarC1ock11111111111111111111111111111111''"

definition epoch_schedule_id :: pubkey where
  "epoch_schedule_id = pubkey_of_base58 ''SysvarEpochSchedu1e111111111111111111111111''"

definition fees_id :: pubkey where
  "fees_id = pubkey_of_base58 ''SysvarFees111111111111111111111111111111111''"

definition recent_blockhashes_id :: pubkey where
  "recent_blockhashes_id = pubkey_of_base58 ''SysvarRecentB1ockHashes11111111111111111111''"

definition rent_id :: pubkey where
  "rent_id = pubkey_of_base58 ''SysvarRent111111111111111111111111111111111''"

definition rewards_id :: pubkey where
  "rewards_id = pubkey_of_base58 ''SysvarRewards111111111111111111111111111111''"

definition slot_hashes_id :: pubkey where
  "slot_hashes_id = pubkey_of_base58 ''SysvarS1otHashes111111111111111111111111111''"

definition slot_history_id :: pubkey where
  "slot_history_id = pubkey_of_base58 ''SysvarS1otHistory11111111111111111111111111''"

definition stake_history_id :: pubkey where
  "stake_history_id = pubkey_of_base58 ''SysvarStakeHistory1111111111111111111111111''"

definition instructions_id :: pubkey where
  "instructions_id = pubkey_of_base58 ''Sysvar1nstructions1111111111111111111111111''"

definition is_sysvar_id :: "pubkey \<Rightarrow> bool" where
  "is_sysvar_id i \<longleftrightarrow>
     i = clock_id \<or> i = epoch_schedule_id \<or> i = fees_id \<or> i = recent_blockhashes_id \<or>
     i = rent_id \<or> i = rewards_id \<or> i = slot_hashes_id \<or> i = slot_history_id \<or>
     i = stake_history_id \<or> i = instructions_id"

definition BUILTIN_PROGRAMS_KEYS :: "pubkey list" where
  "BUILTIN_PROGRAMS_KEYS =
     [config_program_id, feature_id, native_loader_id, stake_program_id, stake_config_id,
      vote_program_id, system_program_id, bpf_loader_id, bpf_loader_deprecated_id,
      bpf_loader_upgradeable_id]"

section \<open>Lemmas\<close>

lemma system_program_id_0 [simp]: "system_program_id = 0"
  by code_simp

text \<open>The numbers behind the addresses, as integers: comparing integers is cheap.\<close>

lemma uint_pubkey_of_base58:
  "uint (pubkey_of_base58 s) = fold (\<lambda>c n. n * 58 + base58_digit c) s 0 mod 2 ^ 256"
  by (simp add: pubkey_of_base58_def uint_word_of_int)

lemma uint_vote_program_id: "uint vote_program_id = 3338071818571248938818993247932504658966148473698877128351861063997718528000"
  by (simp add: vote_program_id_def uint_pubkey_of_base58 base58_digit_def)

lemma uint_config_program_id: "uint config_program_id = 1368054751858961187610615744159202396902912294346696811737198408170517561344"
  by (simp add: config_program_id_def uint_pubkey_of_base58 base58_digit_def)

lemma uint_stake_program_id: "uint stake_program_id = 2999830881511641543315636960581363899061052244619701952529276772483092971520"
  by (simp add: stake_program_id_def uint_pubkey_of_base58 base58_digit_def)

lemma uint_stake_config_id: "uint stake_config_id = 2999830883595957297425391470815370877654746576576239794379788187849801596928"
  by (simp add: stake_config_id_def uint_pubkey_of_base58 base58_digit_def)

lemma uint_feature_id: "uint feature_id = 1697283009773004509314654261529545701582471225670895602380440637121876721664"
  by (simp add: feature_id_def uint_pubkey_of_base58 base58_digit_def)

lemma uint_native_loader_id: "uint native_loader_id = 2501004778692694513383192626365552564445537874725049955997982167012726538240"
  by (simp add: native_loader_id_def uint_pubkey_of_base58 base58_digit_def)

lemma uint_bpf_loader_id: "uint bpf_loader_id = 1203157751113443873660160097494192217694197863828223470469643324391874887680"
  by (simp add: bpf_loader_id_def uint_pubkey_of_base58 base58_digit_def)

lemma uint_bpf_loader_deprecated_id: "uint bpf_loader_deprecated_id = 1203157751113443858060189220861420229533383809681776218343720119607431790592"
  by (simp add: bpf_loader_deprecated_id_def uint_pubkey_of_base58 base58_digit_def)

lemma uint_bpf_loader_upgradeable_id: "uint bpf_loader_upgradeable_id = 1203157751113444292085578490895711631870746999416992000355168191203933945856"
  by (simp add: bpf_loader_upgradeable_id_def uint_pubkey_of_base58 base58_digit_def)

lemma uint_sysvar_owner_id: "uint sysvar_owner_id = 3010411245944251432122278937989630152839788565688054045150511135798998335488"
  by (simp add: sysvar_owner_id_def uint_pubkey_of_base58 base58_digit_def)

lemma uint_clock_id: "uint clock_id = 3010411245977774767103551433779408434046391008353408711474217313814305570816"
  by (simp add: clock_id_def uint_pubkey_of_base58 base58_digit_def)

lemma uint_epoch_schedule_id: "uint epoch_schedule_id = 3010411245986328729646169808388022824879167805765813351222839694649813106688"
  by (simp add: epoch_schedule_id_def uint_pubkey_of_base58 base58_digit_def)

lemma uint_fees_id: "uint fees_id = 3010411245988839768080938779134895012715399673910392426883968584161274363904"
  by (simp add: fees_id_def uint_pubkey_of_base58 base58_digit_def)

lemma uint_recent_blockhashes_id: "uint recent_blockhashes_id = 3010411246019275183202241475159751154561037627022909547359528646525818241024"
  by (simp add: recent_blockhashes_id_def uint_pubkey_of_base58 base58_digit_def)

lemma uint_rent_id: "uint rent_id = 3010411246019284437244212147455409835011261068170932596721577831542904848384"
  by (simp add: rent_id_def uint_pubkey_of_base58 base58_digit_def)

lemma uint_rewards_id: "uint rewards_id = 3010411246019292312979761209880469183404341140736143741603546036852764966912"
  by (simp add: rewards_id_def uint_pubkey_of_base58 base58_digit_def)

lemma uint_slot_hashes_id: "uint slot_hashes_id = 3010411246020387390845657635421930170267332101929006271628180992244983005184"
  by (simp add: slot_hashes_id_def uint_pubkey_of_base58 base58_digit_def)

lemma uint_slot_history_id: "uint slot_history_id = 3010411246020387390882771635765924662261524573769583470181990702897938038784"
  by (simp add: slot_history_id_def uint_pubkey_of_base58 base58_digit_def)

lemma uint_stake_history_id: "uint stake_history_id = 3010411246023051902640053541412638131892130328438861384560211382976271876096"
  by (simp add: stake_history_id_def uint_pubkey_of_base58 base58_digit_def)

lemma uint_instructions_id: "uint instructions_id = 3010411245946659004650937024412888917526102981211644260807408457663811420160"
  by (simp add: instructions_id_def uint_pubkey_of_base58 base58_digit_def)

lemmas uint_ids =
  uint_vote_program_id uint_config_program_id uint_stake_program_id uint_stake_config_id
  uint_feature_id uint_native_loader_id uint_bpf_loader_id uint_bpf_loader_deprecated_id
  uint_bpf_loader_upgradeable_id uint_sysvar_owner_id uint_clock_id uint_epoch_schedule_id
  uint_fees_id uint_recent_blockhashes_id uint_rent_id uint_rewards_id uint_slot_hashes_id
  uint_slot_history_id uint_stake_history_id uint_instructions_id

text \<open>The numbers are also what evaluation uses.\<close>

lemma pubkey_of_uint: "uint k = n \<Longrightarrow> k = word_of_int n"
  by auto

lemmas id_codes [code] = system_program_id_0 uint_ids [THEN pubkey_of_uint]

text \<open>Every reserved address but that of the system program is a large number.\<close>

lemma sysvar_id_large: "is_sysvar_id i \<Longrightarrow> 2 ^ 64 \<le> uint i"
  by (auto simp: is_sysvar_id_def uint_ids)

lemma builtin_id_large: "i \<in> set BUILTIN_PROGRAMS_KEYS \<Longrightarrow> i = 0 \<or> 2 ^ 64 \<le> uint i"
  by (auto simp: BUILTIN_PROGRAMS_KEYS_def uint_ids)

lemma small_not_reserved:
  assumes "uint i < 2 ^ 64"
  shows "\<not> is_sysvar_id i" and "i \<noteq> 0 \<Longrightarrow> i \<notin> set BUILTIN_PROGRAMS_KEYS"
  using assms sysvar_id_large builtin_id_large by fastforce+

lemma program_ids_distinct: "distinct (sysvar_owner_id # BUILTIN_PROGRAMS_KEYS)"
proof -
  have "distinct (map uint (sysvar_owner_id # BUILTIN_PROGRAMS_KEYS))"
    by (simp add: BUILTIN_PROGRAMS_KEYS_def uint_ids)
  then show ?thesis by (simp only: distinct_map)
qed

end
