(* ===== verification/Account_Model.thy ===== *)
theory Account_Model
  imports Program_Error Program_Ids
begin

text \<open>
  Accounts and keyed accounts (\<open>sdk/src/account.rs\<close>, \<open>sdk/src/account_utils.rs\<close>,
  \<open>sdk/src/keyed_account.rs\<close>). The accounts that an instruction works on live in a store, a
  list of accounts; a keyed account refers to its account by the position in the store, as
  the code's \<open>KeyedAccount\<close> refers to it through a \<open>RefCell\<close>. Two keyed accounts of one
  instruction may refer to the same account. The borrows of the modelled code never
  overlap, so \<open>try_borrow\<close> and \<open>try_borrow_mut\<close> succeed and the accessors return plain
  values. An instruction that fails loses its changes: the accounts are committed back only
  if every instruction of the message succeeds.

  \<open>bincode\<close> is not part of the repository. A codec is a parameter: \<open>bincode_serialize\<close> gives
  the bytes of a value and \<open>bincode_deserialize\<close> reads a value from the front of a buffer
  and ignores what follows it.
\<close>

section \<open>Definitions\<close>

record account =
  acc_lamports :: u64
  acc_data :: "u8 list"
  acc_owner :: pubkey
  acc_executable :: bool
  acc_rent_epoch :: epoch

record keyed_account =
  ka_is_signer :: bool
  ka_is_writable :: bool
  ka_key :: pubkey
  ka_account :: nat

record 't codec =
  bincode_serialize :: "'t \<Rightarrow> u8 list"
  bincode_deserialize :: "u8 list \<Rightarrow> 't option"

datatype bincode_error = SizeLimit | OtherBincodeError

type_synonym store = "account list"

definition accounts_equal :: "account \<Rightarrow> account \<Rightarrow> bool" where
  "accounts_equal me other \<longleftrightarrow>
     acc_lamports me = acc_lamports other \<and>
     acc_data me = acc_data other \<and>
     acc_owner me = acc_owner other \<and>
     acc_executable me = acc_executable other \<and>
     acc_rent_epoch me = acc_rent_epoch other"

definition checked_add_lamports :: "account \<Rightarrow> u64 \<Rightarrow> (account, lamports_error) result" where
  "checked_add_lamports a lamports =
     and_then (ok_or (checked_add (acc_lamports a) lamports) LE_ArithmeticOverflow)
       (\<lambda>l. Ok (a\<lparr>acc_lamports := l\<rparr>))"

definition checked_sub_lamports :: "account \<Rightarrow> u64 \<Rightarrow> (account, lamports_error) result" where
  "checked_sub_lamports a lamports =
     and_then (ok_or (checked_sub (acc_lamports a) lamports) LE_ArithmeticUnderflow)
       (\<lambda>l. Ok (a\<lparr>acc_lamports := l\<rparr>))"

definition shared_new :: "u64 \<Rightarrow> nat \<Rightarrow> pubkey \<Rightarrow> account" where
  "shared_new lamports space owner =
     \<lparr>acc_lamports = lamports, acc_data = replicate space 0, acc_owner = owner,
      acc_executable = False, acc_rent_epoch = 0\<rparr>"

definition shared_new_data :: "'t codec \<Rightarrow> u64 \<Rightarrow> 't \<Rightarrow> pubkey \<Rightarrow> account" where
  "shared_new_data c lamports state owner =
     \<lparr>acc_lamports = lamports, acc_data = bincode_serialize c state, acc_owner = owner,
      acc_executable = False, acc_rent_epoch = 0\<rparr>"

definition shared_deserialize_data :: "'t codec \<Rightarrow> account \<Rightarrow> ('t, bincode_error) result" where
  "shared_deserialize_data c a = ok_or (bincode_deserialize c (acc_data a)) OtherBincodeError"

definition shared_serialize_data :: "'t codec \<Rightarrow> account \<Rightarrow> 't \<Rightarrow> (account, bincode_error) result" where
  "shared_serialize_data c a state =
     (let bytes = bincode_serialize c state in
      if length (acc_data a) < length bytes then Err SizeLimit
      else Ok (a\<lparr>acc_data := bytes @ drop (length bytes) (acc_data a)\<rparr>))"

definition shared_new_data_with_space ::
  "'t codec \<Rightarrow> u64 \<Rightarrow> 't \<Rightarrow> nat \<Rightarrow> pubkey \<Rightarrow> (account, bincode_error) result" where
  "shared_new_data_with_space c lamports state space owner =
     shared_serialize_data c (shared_new lamports space owner) state"

definition account_state :: "'t codec \<Rightarrow> account \<Rightarrow> ('t, instruction_error) result" where
  "account_state c a = map_err (\<lambda>_. InvalidAccountData) (shared_deserialize_data c a)"

definition account_set_state :: "'t codec \<Rightarrow> account \<Rightarrow> 't \<Rightarrow> (account, instruction_error) result" where
  "account_set_state c a state =
     map_err (\<lambda>e. case e of SizeLimit \<Rightarrow> AccountDataTooSmall | _ \<Rightarrow> GenericError)
       (shared_serialize_data c a state)"

text \<open>Keyed accounts.\<close>

definition signer_key :: "keyed_account \<Rightarrow> pubkey option" where
  "signer_key ka = (if ka_is_signer ka then Some (ka_key ka) else None)"

abbreviation unsigned_key :: "keyed_account \<Rightarrow> pubkey" where
  "unsigned_key ka \<equiv> ka_key ka"

definition account_ref :: "store \<Rightarrow> keyed_account \<Rightarrow> account" where
  "account_ref st ka = st ! ka_account ka"

definition set_account :: "store \<Rightarrow> keyed_account \<Rightarrow> account \<Rightarrow> store" where
  "set_account st ka a = st[ka_account ka := a]"

definition ka_lamports :: "store \<Rightarrow> keyed_account \<Rightarrow> u64" where
  "ka_lamports st ka = acc_lamports (account_ref st ka)"

definition ka_data_len :: "store \<Rightarrow> keyed_account \<Rightarrow> nat" where
  "ka_data_len st ka = length (acc_data (account_ref st ka))"

definition ka_data_is_empty :: "store \<Rightarrow> keyed_account \<Rightarrow> bool" where
  "ka_data_is_empty st ka \<longleftrightarrow> acc_data (account_ref st ka) = []"

definition ka_owner :: "store \<Rightarrow> keyed_account \<Rightarrow> pubkey" where
  "ka_owner st ka = acc_owner (account_ref st ka)"

definition ka_executable :: "store \<Rightarrow> keyed_account \<Rightarrow> bool" where
  "ka_executable st ka = acc_executable (account_ref st ka)"

definition ka_state :: "'t codec \<Rightarrow> store \<Rightarrow> keyed_account \<Rightarrow> ('t, instruction_error) result" where
  "ka_state c st ka = account_state c (account_ref st ka)"

definition ka_set_state ::
  "'t codec \<Rightarrow> store \<Rightarrow> keyed_account \<Rightarrow> 't \<Rightarrow> (store, instruction_error) result" where
  "ka_set_state c st ka state =
     and_then (account_set_state c (account_ref st ka) state)
       (\<lambda>a. Ok (set_account st ka a))"

text \<open>
  \<open>ka.try_account_ref_mut()?.checked_sub_lamports(lamports)?\<close> and its counterpart.
\<close>

definition debit :: "store \<Rightarrow> keyed_account \<Rightarrow> u64 \<Rightarrow> (store, instruction_error) result" where
  "debit st ka lamports =
     and_then
       (map_err instruction_error_of_lamports_error
          (checked_sub_lamports (account_ref st ka) lamports))
       (\<lambda>a. Ok (set_account st ka a))"

definition credit :: "store \<Rightarrow> keyed_account \<Rightarrow> u64 \<Rightarrow> (store, instruction_error) result" where
  "credit st ka lamports =
     and_then
       (map_err instruction_error_of_lamports_error
          (checked_add_lamports (account_ref st ka) lamports))
       (\<lambda>a. Ok (set_account st ka a))"

definition create_keyed_accounts_unified ::
  "(bool \<times> bool \<times> pubkey \<times> nat) list \<Rightarrow> keyed_account list" where
  "create_keyed_accounts_unified accounts =
     map (\<lambda>(is_signer, is_writable, key, account).
            \<lparr>ka_is_signer = is_signer, ka_is_writable = is_writable, ka_key = key,
             ka_account = account\<rparr>) accounts"

definition get_signers :: "keyed_account list \<Rightarrow> pubkey set" where
  "get_signers kas = set (List.map_filter signer_key kas)"

definition keyed_account_at_index ::
  "keyed_account list \<Rightarrow> nat \<Rightarrow> (keyed_account, instruction_error) result" where
  "keyed_account_at_index kas i = ok_or (get_at kas i) NotEnoughAccountKeys"

text \<open>
  \<open>from_keyed_account\<close> for a sysvar type: its address \<open>sysvar_id\<close> and its codec.
\<close>

definition from_keyed_account ::
  "pubkey \<Rightarrow> 't codec \<Rightarrow> store \<Rightarrow> keyed_account \<Rightarrow> ('t, instruction_error) result" where
  "from_keyed_account sysvar_id c st ka =
     (if unsigned_key ka \<noteq> sysvar_id then Err InvalidArgument
      else ok_or (bincode_deserialize c (acc_data (account_ref st ka))) InvalidArgument)"

text \<open>\<open>checked_add\<close> of \<open>instruction.rs\<close>.\<close>

definition instruction_checked_add :: "u64 \<Rightarrow> u64 \<Rightarrow> (u64, instruction_error) result" where
  "instruction_checked_add a b = ok_or (checked_add a b) InsufficientFunds"

text \<open>What the theorems speak of: a store's total, and keyed accounts that are in the store.\<close>

definition total_lamports :: "store \<Rightarrow> nat" where
  "total_lamports st = sum_list (map (unat \<circ> acc_lamports) st)"

definition in_store :: "store \<Rightarrow> keyed_account \<Rightarrow> bool" where
  "in_store st ka \<longleftrightarrow> ka_account ka < length st"

section \<open>Lemmas\<close>

lemma length_set_account [simp]: "length (set_account st ka a) = length st"
  by (simp add: set_account_def)

lemma in_store_set_account [simp]: "in_store (set_account st ka a) kb = in_store st kb"
  by (simp add: in_store_def)

lemma account_ref_set_account:
  "in_store st ka \<Longrightarrow>
   account_ref (set_account st ka a) kb = (if ka_account kb = ka_account ka then a else account_ref st kb)"
  by (simp add: account_ref_def set_account_def in_store_def nth_list_update)

lemma total_set_account:
  assumes "in_store st ka"
  shows "total_lamports (set_account st ka a) + unat (acc_lamports (account_ref st ka)) =
         total_lamports st + unat (acc_lamports a)"
  using sum_list_update_nat [of "ka_account ka" st "unat \<circ> acc_lamports" a] assms
  by (simp add: in_store_def total_lamports_def set_account_def account_ref_def)

lemma total_set_account_same:
  assumes "in_store st ka" and "acc_lamports a = acc_lamports (account_ref st ka)"
  shows "total_lamports (set_account st ka a) = total_lamports st"
  using total_set_account [OF assms(1), of a] assms(2) by simp

lemma account_le_total: "in_store st ka \<Longrightarrow> unat (ka_lamports st ka) \<le> total_lamports st"
  using nth_le_sum_list_nat [of "ka_account ka" st "unat \<circ> acc_lamports"]
  by (simp add: in_store_def ka_lamports_def account_ref_def total_lamports_def)

lemma debit_Ok_iff [result_simps]:
  "debit st ka l = Ok st' \<longleftrightarrow>
     l \<le> ka_lamports st ka \<and>
     st' = set_account st ka ((account_ref st ka)\<lparr>acc_lamports := ka_lamports st ka - l\<rparr>)"
  by (auto simp: debit_def checked_sub_lamports_def result_simps ka_lamports_def)

lemma credit_Ok_iff [result_simps]:
  "credit st ka l = Ok st' \<longleftrightarrow>
     unat (ka_lamports st ka) + unat l < 2 ^ 64 \<and>
     st' = set_account st ka ((account_ref st ka)\<lparr>acc_lamports := ka_lamports st ka + l\<rparr>)"
  by (auto simp: credit_def checked_add_lamports_def result_simps ka_lamports_def checked_add_def
      split: if_splits)

lemma debit_total:
  "in_store st ka \<Longrightarrow> debit st ka l = Ok st' \<Longrightarrow> total_lamports st' + unat l = total_lamports st"
  using total_set_account [of st ka "(account_ref st ka)\<lparr>acc_lamports := ka_lamports st ka - l\<rparr>"]
    word_le_nat_alt [of l "ka_lamports st ka"]
  by (auto simp: result_simps unat_simps ka_lamports_def)

lemma credit_total:
  "in_store st ka \<Longrightarrow> credit st ka l = Ok st' \<Longrightarrow> total_lamports st' = total_lamports st + unat l"
  using total_set_account [of st ka "(account_ref st ka)\<lparr>acc_lamports := ka_lamports st ka + l\<rparr>"]
  by (auto simp: result_simps unat_simps ka_lamports_def)

text \<open>
  Moving lamports between two keyed accounts keeps the total, also when they are the same
  account.
\<close>

lemma move_total:
  assumes "in_store st from" and "in_store st to"
    and "debit st from l = Ok st1" and "credit st1 to l = Ok st2"
  shows "total_lamports st2 = total_lamports st"
proof -
  have "in_store st1 to" using assms by (auto simp: result_simps)
  with assms show ?thesis using debit_total credit_total by fastforce
qed

lemma ka_set_state_total:
  assumes "in_store st ka" and "ka_set_state c st ka s = Ok st'"
  shows "total_lamports st' = total_lamports st"
proof -
  have "\<exists>d. st' = set_account st ka ((account_ref st ka)\<lparr>acc_data := d\<rparr>)"
    using assms(2)
    by (auto simp: ka_set_state_def account_set_state_def shared_serialize_data_def result_simps
        Let_def split: if_splits)
  with assms(1) show ?thesis by (auto simp: total_set_account_same)
qed

lemma ka_set_state_Ok_iff [result_simps]:
  "ka_set_state c st ka s = Ok st' \<longleftrightarrow>
     length (bincode_serialize c s) \<le> ka_data_len st ka \<and>
     st' = set_account st ka ((account_ref st ka)\<lparr>acc_data :=
       bincode_serialize c s @ drop (length (bincode_serialize c s)) (acc_data (account_ref st ka))\<rparr>)"
  by (auto simp: ka_set_state_def account_set_state_def shared_serialize_data_def result_simps
      Let_def ka_data_len_def split: if_splits)

lemma keyed_account_at_index_Ok [result_simps]:
  "keyed_account_at_index kas i = Ok ka \<longleftrightarrow> i < length kas \<and> kas ! i = ka"
  by (auto simp: keyed_account_at_index_def result_simps)

lemma get_signers_iff: "k \<in> get_signers kas \<longleftrightarrow> (\<exists>ka \<in> set kas. ka_is_signer ka \<and> ka_key ka = k)"
  by (force simp: get_signers_def signer_key_def List.map_filter_def)

text \<open>
  Storing a state in an account and loading it again gives the state back, whatever
  longer data the account held before, and fails with \<open>AccountDataTooSmall\<close> only when the
  encoding does not fit. The codec has to read back what it wrote and to ignore the bytes
  after it.
\<close>

lemma account_state_roundtrip:
  assumes codec: "\<And>rest. bincode_deserialize c (bincode_serialize c s @ rest) = Some s"
    and fits: "length (bincode_serialize c s) \<le> length (acc_data a)"
  shows "\<exists>a'. account_set_state c a s = Ok a' \<and> account_state c a' = Ok s \<and>
           length (acc_data a') = length (acc_data a) \<and>
           accounts_equal a' (a\<lparr>acc_data := acc_data a'\<rparr>)"
  using assms
  by (auto simp: account_set_state_def account_state_def shared_serialize_data_def
      shared_deserialize_data_def Let_def accounts_equal_def)

lemma account_state_roundtrip_example:
  "\<exists>c a. account_set_state c a (7::u8) \<noteq> Ok a \<and>
     (\<exists>a'. account_set_state c a 7 = Ok a' \<and> account_state c a' = Ok 7 \<and>
           length (acc_data a') = length (acc_data a) \<and>
           accounts_equal a' (a\<lparr>acc_data := acc_data a'\<rparr>))"
proof -
  let ?c = "\<lparr>bincode_serialize = (\<lambda>s::u8. [s]),
             bincode_deserialize = (\<lambda>d. case d of [] \<Rightarrow> None | x # _ \<Rightarrow> Some x)\<rparr>"
  let ?a = "shared_new 5 3 1"
  have "account_set_state ?c ?a 7 \<noteq> Ok ?a"
    by (simp add: account_set_state_def shared_serialize_data_def shared_new_def
        numeral_3_eq_3 Let_def)
  moreover have "\<exists>a'. account_set_state ?c ?a 7 = Ok a' \<and> account_state ?c a' = Ok 7 \<and>
          length (acc_data a') = length (acc_data ?a) \<and>
          accounts_equal a' (?a\<lparr>acc_data := acc_data a'\<rparr>)"
    by (rule account_state_roundtrip) (simp_all add: shared_new_def)
  ultimately show ?thesis by blast
qed

end
