(* ===== verification/Rust_F64.thy ===== *)
theory Rust_F64
  imports Rust_Prelude Complex_Main "HOL-Library.Log_Nat"
begin

text \<open>
  The \<open>f64\<close> operations that the modelled code uses: IEEE 754 binary64 with rounding to
  nearest, ties to even. A finite value is its rational value (the two zeros coincide:
  nothing the code does tells them apart). \<open>u64_of_f64\<close> is the cast \<open>as u64\<close>, which
  truncates and saturates. The lemmas show that rounding is exact on integers of at most 53
  bits and on their multiples by a power of two, and that it is monotone.
\<close>

section \<open>Definitions\<close>

datatype f64 = NaN | Inf bool | Fin rat

text \<open>\<open>ilog2 r\<close> is the exponent of the binade of a positive \<open>r\<close>.\<close>

definition ilog2 :: "rat \<Rightarrow> int" where
  "ilog2 r =
     (case quotient_of r of (a, b) \<Rightarrow>
        let e = int (floorlog 2 (nat a)) - int (floorlog 2 (nat b))
        in if 2 powi e \<le> r then e else e - 1)"

definition round_half_even :: "rat \<Rightarrow> int" where
  "round_half_even x =
     (let f = \<lfloor>x\<rfloor>; d = x - of_int f
      in if d < 1 / 2 then f else if 1 / 2 < d then f + 1 else if even f then f else f + 1)"

text \<open>The weight of the last bit of the significand, with the subnormal range below.\<close>

definition ulp_exp :: "rat \<Rightarrow> int" where
  "ulp_exp r = max (ilog2 \<bar>r\<bar> - 52) (- 1074)"

definition round_f64 :: "rat \<Rightarrow> f64" where
  "round_f64 r =
     (if r = 0 then Fin 0
      else let q = ulp_exp r; v = of_int (round_half_even (r / 2 powi q)) * 2 powi q
           in if 2 ^ 1024 \<le> \<bar>v\<bar> then Inf (r < 0) else Fin v)"

definition f64_of_u64 :: "u64 \<Rightarrow> f64" where
  "f64_of_u64 w = round_f64 (of_nat (unat w))"

fun f64_mul :: "f64 \<Rightarrow> f64 \<Rightarrow> f64" where
  "f64_mul (Fin x) (Fin y) = round_f64 (x * y)"
| "f64_mul (Inf s) (Inf t) = Inf (s \<noteq> t)"
| "f64_mul (Inf s) (Fin y) = (if y = 0 then NaN else Inf (s \<noteq> (y < 0)))"
| "f64_mul (Fin x) (Inf t) = (if x = 0 then NaN else Inf ((x < 0) \<noteq> t))"
| "f64_mul NaN y = NaN"
| "f64_mul x NaN = NaN"

text \<open>A zero that is divided by counts as \<open>+0\<close>; the code divides by nonzero values only.\<close>

fun f64_div :: "f64 \<Rightarrow> f64 \<Rightarrow> f64" where
  "f64_div (Fin x) (Fin y) =
     (if y \<noteq> 0 then round_f64 (x / y) else if x = 0 then NaN else Inf (x < 0))"
| "f64_div (Inf s) (Fin y) = Inf (s \<noteq> (y < 0))"
| "f64_div (Fin x) (Inf t) = Fin 0"
| "f64_div (Inf s) (Inf t) = NaN"
| "f64_div NaN y = NaN"
| "f64_div x NaN = NaN"

fun f64_sub :: "f64 \<Rightarrow> f64 \<Rightarrow> f64" where
  "f64_sub (Fin x) (Fin y) = round_f64 (x - y)"
| "f64_sub (Inf s) (Inf t) = (if s = t then NaN else Inf s)"
| "f64_sub (Inf s) (Fin y) = Inf s"
| "f64_sub (Fin x) (Inf t) = Inf (\<not> t)"
| "f64_sub NaN y = NaN"
| "f64_sub x NaN = NaN"

fun f64_abs :: "f64 \<Rightarrow> f64" where
  "f64_abs (Fin x) = Fin \<bar>x\<bar>"
| "f64_abs (Inf s) = Inf False"
| "f64_abs NaN = NaN"

fun f64_less :: "f64 \<Rightarrow> f64 \<Rightarrow> bool" where
  "f64_less (Fin x) (Fin y) \<longleftrightarrow> x < y"
| "f64_less (Inf s) (Inf t) \<longleftrightarrow> s \<and> \<not> t"
| "f64_less (Inf s) (Fin y) \<longleftrightarrow> s"
| "f64_less (Fin x) (Inf t) \<longleftrightarrow> \<not> t"
| "f64_less NaN y \<longleftrightarrow> False"
| "f64_less x NaN \<longleftrightarrow> False"

definition f64_EPSILON :: f64 where
  "f64_EPSILON = Fin (1 / 2 ^ 52)"

fun u64_of_f64 :: "f64 \<Rightarrow> u64" where
  "u64_of_f64 NaN = 0"
| "u64_of_f64 (Inf negative) = (if negative then 0 else - 1)"
| "u64_of_f64 (Fin x) =
     (if x \<le> 0 then 0 else if 2 ^ 64 \<le> x then - 1 else word_of_nat (nat \<lfloor>x\<rfloor>))"

declare f64_mul.simps [simp del] f64_div.simps [simp del] f64_sub.simps [simp del] u64_of_f64.simps [simp del]

section \<open>Lemmas\<close>

lemma powi_less_cancel: "(2::rat) powi a < 2 powi b \<longleftrightarrow> a < b"
  by (metis not_less_iff_gr_or_eq one_less_numeral_iff power_int_strict_increasing
      semiring_norm(76))

lemma floorlog_powi:
  assumes "0 < n"
  shows "(2::rat) powi (int (floorlog 2 n) - 1) \<le> of_nat n"
    and "of_nat n < (2::rat) powi int (floorlog 2 n)"
proof -
  have b: "2 ^ (floorlog 2 n - 1) \<le> n \<and> n < 2 ^ floorlog 2 n"
    using assms floorlog_bounds [of n 2] by simp
  have pos: "0 < floorlog 2 n"
    using assms by (simp add: floorlog_def)
  have "(of_nat (2 ^ (floorlog 2 n - 1)) :: rat) \<le> of_nat n"
    using b of_nat_le_iff by blast
  then show "(2::rat) powi (int (floorlog 2 n) - 1) \<le> of_nat n"
    using pos by (simp add: power_int_def nat_diff_distrib')
  have "(of_nat n :: rat) < of_nat (2 ^ floorlog 2 n)"
    using b of_nat_less_iff by blast
  then show "of_nat n < (2::rat) powi int (floorlog 2 n)"
    by (simp add: power_int_def)
qed

lemma ilog2_bounds:
  assumes "0 < r"
  shows "2 powi ilog2 r \<le> r" and "r < 2 powi (ilog2 r + 1)"
proof -
  obtain a b where q: "quotient_of r = (a, b)" by fastforce
  have b: "0 < b" using q by (rule quotient_of_denom_pos)
  have r: "r = of_int a / of_int b" using q by (rule quotient_of_div)
  have a: "0 < a" using assms r b by (simp add: zero_less_divide_iff)
  define \<alpha> \<beta> where "\<alpha> = int (floorlog 2 (nat a))" and "\<beta> = int (floorlog 2 (nat b))"
  have A: "(2::rat) powi (\<alpha> - 1) \<le> of_int a" "of_int a < (2::rat) powi \<alpha>"
    using floorlog_powi [of "nat a"] a by (simp_all add: \<alpha>_def)
  have B: "(2::rat) powi (\<beta> - 1) \<le> of_int b" "of_int b < (2::rat) powi \<beta>"
    using floorlog_powi [of "nat b"] b by (simp_all add: \<beta>_def)
  have "2 powi (\<alpha> - 1) / 2 powi \<beta> \<le> r"
    unfolding r using A B a b by (intro frac_le) auto
  then have low: "2 powi (\<alpha> - \<beta> - 1) \<le> r"
    by (simp add: power_int_diff power_int_add field_simps)
  have "r < 2 powi \<alpha> / 2 powi (\<beta> - 1)"
    unfolding r using A B b a by (intro frac_less) auto
  then have up: "r < 2 powi (\<alpha> - \<beta> + 1)"
    by (simp add: power_int_diff power_int_add field_simps)
  have e: "ilog2 r = (if 2 powi (\<alpha> - \<beta>) \<le> r then \<alpha> - \<beta> else \<alpha> - \<beta> - 1)"
    by (simp add: ilog2_def q \<alpha>_def \<beta>_def Let_def)
  show "2 powi ilog2 r \<le> r" using low e by auto
  show "r < 2 powi (ilog2 r + 1)" using up e by auto
qed

lemma ilog2_less: "0 < r \<Longrightarrow> r < 2 powi k \<Longrightarrow> ilog2 r < k"
  using ilog2_bounds(1) [of r] powi_less_cancel [of "ilog2 r" k] by linarith

lemma ilog2_mono: "0 < r \<Longrightarrow> r \<le> s \<Longrightarrow> ilog2 r \<le> ilog2 s"
  using ilog2_bounds(2) [of s] ilog2_less [of r "ilog2 s + 1"] by linarith

lemma round_half_even_of_int [simp]: "round_half_even (of_int m) = m"
  by (simp add: round_half_even_def)

lemma round_half_even_near: "round_half_even x = \<lfloor>x\<rfloor> \<or> round_half_even x = \<lfloor>x\<rfloor> + 1"
  by (auto simp: round_half_even_def Let_def)

lemma round_half_even_mono:
  assumes "x \<le> y"
  shows "round_half_even x \<le> round_half_even y"
proof (cases "\<lfloor>x\<rfloor> = \<lfloor>y\<rfloor>")
  case True
  then show ?thesis
    using assms by (auto simp: round_half_even_def Let_def)
next
  case False
  moreover have "\<lfloor>x\<rfloor> \<le> \<lfloor>y\<rfloor>" using assms by (rule floor_mono)
  ultimately show ?thesis
    using round_half_even_near [of x] round_half_even_near [of y] by linarith
qed

text \<open>Values with a significand of at most 53 bits are not changed by rounding.\<close>

lemma round_f64_exact:
  assumes m: "\<bar>m\<bar> < 2 ^ 53" and k: "- 1074 \<le> k" and r: "r = of_int m * 2 powi k"
    and big: "\<bar>r\<bar> < 2 ^ 1024"
  shows "round_f64 r = Fin r"
proof (cases "m = 0")
  case True
  then show ?thesis using r by (simp add: round_f64_def)
next
  case False
  have pos: "0 < \<bar>r\<bar>" using False r by simp
  have "(of_int \<bar>m\<bar> :: rat) < of_int (2 ^ 53)"
    using m of_int_less_iff by blast
  then have "\<bar>r\<bar> < 2 powi 53 * 2 powi k"
    by (simp add: r abs_mult power_int_def)
  then have "\<bar>r\<bar> < 2 powi (53 + k)"
    by (simp add: power_int_add)
  with pos have "ilog2 \<bar>r\<bar> < 53 + k" by (rule ilog2_less)
  then have q: "ulp_exp r \<le> k" using k by (simp add: ulp_exp_def)
  have "r / 2 powi ulp_exp r = of_int m * 2 powi (k - ulp_exp r)"
    by (simp add: r power_int_diff)
  also have "\<dots> = of_int (m * 2 ^ nat (k - ulp_exp r))"
    using q by (simp add: power_int_def)
  finally have "round_half_even (r / 2 powi ulp_exp r) = m * 2 ^ nat (k - ulp_exp r)"
    by (metis round_half_even_of_int)
  then have "of_int (round_half_even (r / 2 powi ulp_exp r)) * 2 powi ulp_exp r =
      of_int m * 2 powi (k - ulp_exp r) * 2 powi ulp_exp r"
    using q by (simp add: power_int_def)
  also have "\<dots> = r" by (simp add: r power_int_diff)
  finally show ?thesis
    using False big r by (simp add: round_f64_def Let_def)
qed

lemma round_f64_of_nat: "n < 2 ^ 53 \<Longrightarrow> round_f64 (of_nat n) = Fin (of_nat n)"
proof -
  assume n: "n < 2 ^ 53"
  then have "(of_nat n :: rat) < of_nat (2 ^ 53)" using of_nat_less_iff by blast
  also have "\<dots> \<le> (2::rat) ^ 1024" by (simp add: power_increasing)
  finally show ?thesis
    using n by (intro round_f64_exact [where m = "int n" and k = 0]) auto
qed

text \<open>Rounding is monotone on the non-negative values.\<close>

definition rounded :: "rat \<Rightarrow> rat" where
  "rounded r = of_int (round_half_even (r / 2 powi ulp_exp r)) * 2 powi ulp_exp r"

lemma round_f64_rounded:
  "0 < r \<Longrightarrow> round_f64 r = (if 2 ^ 1024 \<le> \<bar>rounded r\<bar> then Inf False else Fin (rounded r))"
  by (simp add: round_f64_def rounded_def Let_def)

lemma rounded_nonneg: "0 < r \<Longrightarrow> 0 \<le> rounded r"
  using round_half_even_mono [of "of_int 0" "r / 2 powi ulp_exp r"]
  unfolding round_half_even_of_int by (simp add: rounded_def)

lemma rounded_le_powi:
  assumes "r \<le> 2 powi k" and "ulp_exp r \<le> k"
  shows "rounded r \<le> 2 powi k"
proof -
  let ?q = "ulp_exp r"
  have "r / 2 powi ?q \<le> 2 powi k / 2 powi ?q"
    using assms(1) by (simp add: divide_right_mono)
  also have "\<dots> = of_int (2 ^ nat (k - ?q))"
    using assms(2) by (simp add: power_int_diff [symmetric]) (simp add: power_int_def)
  finally have "round_half_even (r / 2 powi ?q) \<le> 2 ^ nat (k - ?q)"
    using round_half_even_mono by (metis round_half_even_of_int)
  then have "(of_int (round_half_even (r / 2 powi ?q)) :: rat) \<le> of_int (2 ^ nat (k - ?q))"
    using of_int_le_iff by blast
  also have "\<dots> = 2 powi (k - ?q)" using assms(2) by (simp add: power_int_def)
  finally have "rounded r \<le> 2 powi (k - ?q) * 2 powi ?q"
    by (simp add: rounded_def)
  then show ?thesis by (simp add: power_int_diff)
qed

lemma powi_le_rounded:
  assumes "2 powi k \<le> r" and "ulp_exp r \<le> k"
  shows "2 powi k \<le> rounded r"
proof -
  let ?q = "ulp_exp r"
  have "of_int (2 ^ nat (k - ?q)) = (2::rat) powi k / 2 powi ?q"
    using assms(2) by (simp add: power_int_diff [symmetric]) (simp add: power_int_def)
  also have "\<dots> \<le> r / 2 powi ?q"
    using assms(1) by (simp add: divide_right_mono)
  finally have "2 ^ nat (k - ?q) \<le> round_half_even (r / 2 powi ?q)"
    using round_half_even_mono by (metis round_half_even_of_int)
  then have "(of_int (2 ^ nat (k - ?q)) :: rat) \<le> of_int (round_half_even (r / 2 powi ?q))"
    using of_int_le_iff by blast
  moreover have "(of_int (2 ^ nat (k - ?q)) :: rat) = 2 powi (k - ?q)"
    using assms(2) by (simp add: power_int_def)
  ultimately have "2 powi (k - ?q) \<le> (of_int (round_half_even (r / 2 powi ?q)) :: rat)"
    by metis
  then have "2 powi (k - ?q) * 2 powi ?q \<le> rounded r"
    by (simp add: rounded_def)
  then show ?thesis by (simp add: power_int_diff)
qed

lemma rounded_mono:
  assumes "0 < r" and "r \<le> s"
  shows "rounded r \<le> rounded s"
proof (cases "ulp_exp r = ulp_exp s")
  case True
  have "r / 2 powi ulp_exp s \<le> s / 2 powi ulp_exp s"
    using assms(2) by (simp add: divide_right_mono)
  then have "round_half_even (r / 2 powi ulp_exp s) \<le> round_half_even (s / 2 powi ulp_exp s)"
    by (rule round_half_even_mono)
  then show ?thesis by (simp add: rounded_def True)
next
  case False
  have "ilog2 r \<le> ilog2 s" using assms by (rule ilog2_mono)
  with False assms have q: "ulp_exp s = ilog2 s - 52" "ulp_exp r \<le> ilog2 s"
      and lt: "ilog2 r + 1 \<le> ilog2 s"
    by (auto simp: ulp_exp_def)
  have "r \<le> 2 powi ilog2 s"
    using ilog2_bounds(2) [OF assms(1)] lt powi_less_cancel [of "ilog2 s" "ilog2 r + 1"]
    by linarith
  then have "rounded r \<le> 2 powi ilog2 s" using q(2) by (rule rounded_le_powi)
  also have "\<dots> \<le> rounded s"
    using ilog2_bounds(1) [of s] assms q(1) by (intro powi_le_rounded) auto
  finally show ?thesis .
qed

lemma unat_u64_of_f64:
  assumes "0 \<le> x"
  shows "unat (u64_of_f64 (Fin x)) = min (nat \<lfloor>x\<rfloor>) (2 ^ 64 - 1)"
proof (cases "x < 2 ^ 64")
  case True
  then have n: "nat \<lfloor>x\<rfloor> < 2 ^ 64"
    using assms by (simp add: nat_less_iff floor_less_iff)
  then have "unat (word_of_nat (nat \<lfloor>x\<rfloor>) :: u64) = nat \<lfloor>x\<rfloor>"
    by (simp only: unat_of_nat) simp
  with True n assms show ?thesis by (auto simp: u64_of_f64.simps simp del: of_nat_nat)
next
  case False
  then have "2 ^ 64 \<le> nat \<lfloor>x\<rfloor>" by (simp add: le_nat_iff le_floor_iff)
  with False show ?thesis
    by (simp add: u64_of_f64.simps unsigned_minus_1_eq_mask mask_eq_exp_minus_1)
qed

lemma u64_of_f64_mono:
  assumes "0 \<le> x" and "x \<le> y"
  shows "u64_of_f64 (Fin x) \<le> u64_of_f64 (Fin y)"
proof -
  have "nat \<lfloor>x\<rfloor> \<le> nat \<lfloor>y\<rfloor>" using assms(2) by (simp add: floor_mono nat_mono)
  with assms show ?thesis
    by (simp add: word_le_nat_alt unat_u64_of_f64)
qed

lemma round_f64_u64_mono:
  assumes "0 \<le> r" and "r \<le> s"
  shows "u64_of_f64 (round_f64 r) \<le> u64_of_f64 (round_f64 s)"
proof (cases "r = 0")
  case True
  then show ?thesis by (simp add: round_f64_def u64_of_f64.simps)
next
  case False
  with assms have pos: "0 < r" "0 < s" by auto
  have le: "0 \<le> rounded r" "rounded r \<le> rounded s"
    using rounded_nonneg [OF pos(1)] rounded_mono [OF pos(1) assms(2)] .
  then show ?thesis
    using u64_of_f64_mono [OF le] by (auto simp: round_f64_rounded pos u64_of_f64.simps)
qed

lemma f64_of_u64_exact: "unat w < 2 ^ 53 \<Longrightarrow> f64_of_u64 w = Fin (of_nat (unat w))"
  unfolding f64_of_u64_def by (rule round_f64_of_nat)

lemma u64_of_f64_of_nat: "n < 2 ^ 64 \<Longrightarrow> unat (u64_of_f64 (Fin (of_nat n))) = n"
  by (simp add: unat_u64_of_f64)

text \<open>Every \<open>u64\<close> is in the range of \<open>f64\<close>.\<close>

lemma rounded_nat_le:
  assumes "0 < n" and "n < 2 ^ 64"
  shows "rounded (of_nat n) \<le> 2 powi 64"
proof (rule rounded_le_powi)
  have "(of_nat n :: rat) < of_nat (2 ^ 64)" using assms(2) of_nat_less_iff by blast
  then have lt: "of_nat n < (2::rat) powi 64" by (simp add: power_int_def)
  then show "of_nat n \<le> (2::rat) powi 64" by (rule less_imp_le)
  have "ilog2 (of_nat n) < 64" using lt assms(1) by (intro ilog2_less) auto
  then show "ulp_exp (of_nat n) \<le> 64" by (simp add: ulp_exp_def)
qed

lemma round_f64_nat_Fin:
  assumes "n < 2 ^ 64"
  shows "round_f64 (of_nat n) = Fin (if n = 0 then 0 else rounded (of_nat n))"
proof (cases "n = 0")
  case True
  then show ?thesis by (simp add: round_f64_def)
next
  case False
  then have pos: "0 < n" by simp
  have "rounded (of_nat n) \<le> 2 powi 64" using pos assms by (rule rounded_nat_le)
  also have "(2::rat) powi 64 = 2 ^ 64" by (simp add: power_int_def)
  also have "(2::rat) ^ 64 < 2 ^ 1024" by (rule power_strict_increasing) auto
  finally have "\<not> 2 ^ 1024 \<le> \<bar>rounded (of_nat n)\<bar>"
    using rounded_nonneg [of "of_nat n"] pos by linarith
  then show ?thesis
    using pos round_f64_rounded [of "of_nat n"] by (simp only: of_nat_0_less_iff if_False) simp
qed

lemma rounded_nat_mono:
  assumes "m \<le> n"
  shows "(if m = 0 then 0 else rounded (of_nat m)) \<le> (if n = 0 then 0 else rounded (of_nat n))"
proof (cases "m = 0")
  case True
  then show ?thesis using rounded_nonneg [of "of_nat n"] by simp
next
  case False
  then show ?thesis using assms rounded_mono [of "of_nat m" "of_nat n"] by simp
qed

text \<open>Scaling a \<open>u64\<close> by a non-negative \<open>f64\<close> is monotone through all three roundings.\<close>

lemma u64_mul_f64_mono:
  assumes "v \<le> w" and "0 \<le> t"
  shows "u64_of_f64 (f64_mul (f64_of_u64 v) (Fin t)) \<le> u64_of_f64 (f64_mul (f64_of_u64 w) (Fin t))"
proof -
  define g where "g = (\<lambda>n::nat. if n = 0 then 0 else rounded (of_nat n))"
  have fin: "f64_of_u64 x = Fin (g (unat x))" for x :: u64
    using round_f64_nat_Fin [of "unat x"] unat_u64_bound [of x] unfolding f64_of_u64_def g_def
    by simp
  have "unat v \<le> unat w" using assms(1) by (simp add: word_le_nat_alt)
  then have le: "g (unat v) \<le> g (unat w)" unfolding g_def by (rule rounded_nat_mono)
  have "0 \<le> g (unat v)"
    using rounded_nat_mono [of 0 "unat v"] unfolding g_def by simp
  then have "0 \<le> g (unat v) * t" "g (unat v) * t \<le> g (unat w) * t"
    using le assms(2) by (auto intro: mult_right_mono)
  then show ?thesis
    unfolding fin f64_mul.simps by (rule round_f64_u64_mono)
qed

end
