(* ===== verification/Rent_Model.thy ===== *)
theory Rent_Model
  imports Rust_F64
begin

text \<open>
  Rent (\<open>sdk/program/src/rent.rs\<close>): the minimum balance of an account by the length of its
  data, the exemption test, the rent due, and the split of collected rent into a burned and a
  distributed part.
\<close>

section \<open>Definitions\<close>

record rent =
  lamports_per_byte_year :: u64
  exemption_threshold :: f64
  burn_percent :: u8

definition DEFAULT_LAMPORTS_PER_BYTE_YEAR :: u64 where
  "DEFAULT_LAMPORTS_PER_BYTE_YEAR = 1000000000 div 100 * 365 div (1024 * 1024)"

definition DEFAULT_EXEMPTION_THRESHOLD :: f64 where
  "DEFAULT_EXEMPTION_THRESHOLD = Fin 2"

definition DEFAULT_BURN_PERCENT :: u8 where
  "DEFAULT_BURN_PERCENT = 50"

definition ACCOUNT_STORAGE_OVERHEAD :: u64 where
  "ACCOUNT_STORAGE_OVERHEAD = 128"

definition rent_default :: rent where
  "rent_default =
     \<lparr>lamports_per_byte_year = DEFAULT_LAMPORTS_PER_BYTE_YEAR,
      exemption_threshold = DEFAULT_EXEMPTION_THRESHOLD,
      burn_percent = DEFAULT_BURN_PERCENT\<rparr>"

definition calculate_burn :: "rent \<Rightarrow> u64 \<Rightarrow> u64 \<times> u64" where
  "calculate_burn r rent_collected =
     (let burned_portion = (rent_collected * ucast (burn_percent r)) div 100
      in (burned_portion, rent_collected - burned_portion))"

definition minimum_balance :: "rent \<Rightarrow> nat \<Rightarrow> u64" where
  "minimum_balance r data_len =
     (let bytes = word_of_nat data_len in
      u64_of_f64
        (f64_mul (f64_of_u64 ((ACCOUNT_STORAGE_OVERHEAD + bytes) * lamports_per_byte_year r))
           (exemption_threshold r)))"

definition is_exempt :: "rent \<Rightarrow> u64 \<Rightarrow> nat \<Rightarrow> bool" where
  "is_exempt r balance data_len \<longleftrightarrow> minimum_balance r data_len \<le> balance"

definition rent_due :: "rent \<Rightarrow> u64 \<Rightarrow> nat \<Rightarrow> f64 \<Rightarrow> u64 \<times> bool" where
  "rent_due r balance data_len years_elapsed =
     (if is_exempt r balance data_len then (0, True)
      else (u64_of_f64
              (f64_mul
                 (f64_of_u64
                    (lamports_per_byte_year r * (word_of_nat data_len + ACCOUNT_STORAGE_OVERHEAD)))
                 years_elapsed),
            False))"

definition rent_free :: rent where
  "rent_free = rent_default\<lparr>lamports_per_byte_year := 0\<rparr>"

section \<open>Lemmas\<close>

lemma unat_rent_base:
  assumes "(128 + n) * unat (lamports_per_byte_year r) < 2 ^ 64" and "n < 2 ^ 63"
  shows "unat ((ACCOUNT_STORAGE_OVERHEAD + word_of_nat n) * lamports_per_byte_year r) =
         (128 + n) * unat (lamports_per_byte_year r)"
proof -
  have "unat (128 + word_of_nat n :: u64) = 128 + n"
    using assms(2) by (simp add: unat_simps)
  with assms(1) show ?thesis
    by (simp add: ACCOUNT_STORAGE_OVERHEAD_def unat_simps)
qed

lemma f64_double:
  assumes "n < 2 ^ 53"
  shows "f64_mul (Fin (of_nat n)) (Fin 2) = Fin (of_nat (2 * n))"
proof -
  have "(of_nat n :: rat) < of_nat (2 ^ 53)" using assms of_nat_less_iff by blast
  then have "\<bar>of_nat n * 2 :: rat\<bar> < 2 ^ 54" by simp
  also have "(2::rat) ^ 54 < 2 ^ 1024" by (rule power_strict_increasing) auto
  finally have "round_f64 (of_nat n * 2) = Fin (of_nat n * 2)"
    using assms by (intro round_f64_exact [where m = "int n" and k = 1]) auto
  then show ?thesis by (simp add: f64_mul.simps mult.commute)
qed

lemma rent_base_f64:
  assumes "(128 + n) * unat (lamports_per_byte_year r) < 2 ^ 53" and "n < 2 ^ 63"
  shows "f64_of_u64 ((ACCOUNT_STORAGE_OVERHEAD + word_of_nat n) * lamports_per_byte_year r) =
         Fin (of_nat ((128 + n) * unat (lamports_per_byte_year r)))"
proof -
  have "unat ((ACCOUNT_STORAGE_OVERHEAD + word_of_nat n) * lamports_per_byte_year r) =
      (128 + n) * unat (lamports_per_byte_year r)"
    using assms by (intro unat_rent_base) auto
  then show ?thesis using assms(1) f64_of_u64_exact by metis
qed

text \<open>
  C37: With the default threshold of two years the minimum balance is exactly two years of
  rent for the data and its storage overhead: the detour through \<open>f64\<close> loses nothing as long
  as the yearly rent fits in 53 bits. A balance is exempt exactly from that amount on, and an
  exempt account owes nothing.
\<close>

theorem minimum_balance_exact:
  assumes "exemption_threshold r = DEFAULT_EXEMPTION_THRESHOLD"
    and "(128 + data_len) * unat (lamports_per_byte_year r) < 2 ^ 53" and "data_len < 2 ^ 63"
  shows "unat (minimum_balance r data_len) = 2 * ((128 + data_len) * unat (lamports_per_byte_year r)) \<and>
     (is_exempt r balance data_len \<longleftrightarrow>
        2 * ((128 + data_len) * unat (lamports_per_byte_year r)) \<le> unat balance) \<and>
     (is_exempt r balance data_len \<longrightarrow> rent_due r balance data_len years = (0, True))"
proof -
  let ?n = "(128 + data_len) * unat (lamports_per_byte_year r)"
  have "minimum_balance r data_len = u64_of_f64 (Fin (of_nat (2 * ?n)))"
    unfolding minimum_balance_def Let_def rent_base_f64 [OF assms(2,3)] assms(1)
      DEFAULT_EXEMPTION_THRESHOLD_def f64_double [OF assms(2)] ..
  moreover have "2 * ?n < 2 ^ 64" using mult_strict_left_mono [OF assms(2), of 2] by simp
  ultimately have "unat (minimum_balance r data_len) = 2 * ?n"
    using u64_of_f64_of_nat by metis
  then show ?thesis
    by (simp add: is_exempt_def word_le_nat_alt rent_due_def)
qed

theorem minimum_balance_exact_witness:
  "unat (minimum_balance rent_default 0) = 890880 \<and> is_exempt rent_default 890880 0 \<and>
   \<not> is_exempt rent_default 890879 0 \<and> rent_due rent_default 890880 0 (Fin 1) = (0, True)"
proof -
  have rate: "unat (lamports_per_byte_year rent_default) = 3480"
    by (simp add: rent_default_def DEFAULT_LAMPORTS_PER_BYTE_YEAR_def)
  have thr: "exemption_threshold rent_default = DEFAULT_EXEMPTION_THRESHOLD"
    by (simp add: rent_default_def)
  show ?thesis
    using minimum_balance_exact [OF thr, of 0 890880 "Fin 1"]
      minimum_balance_exact [OF thr, of 0 890879 "Fin 1"]
    by (simp add: rate)
qed

text \<open>
  A larger account never needs a smaller balance: the minimum balance is monotone in the
  length of the data for every finite threshold, through every rounding, as long as the
  yearly rent does not overflow \<open>u64\<close>.
\<close>

lemma minimum_balance_mono:
  assumes "exemption_threshold r = Fin t" and "0 \<le> t" and "m \<le> n" and "n < 2 ^ 63"
    and "(128 + n) * unat (lamports_per_byte_year r) < 2 ^ 64"
  shows "minimum_balance r m \<le> minimum_balance r n"
proof -
  let ?b = "\<lambda>k. (ACCOUNT_STORAGE_OVERHEAD + word_of_nat k) * lamports_per_byte_year r"
  have le: "(128 + m) * unat (lamports_per_byte_year r) \<le> (128 + n) * unat (lamports_per_byte_year r)"
    using assms(3) by (intro mult_le_mono1) simp
  have "unat (?b m) = (128 + m) * unat (lamports_per_byte_year r)"
    using assms(3-5) le by (intro unat_rent_base) linarith+
  moreover have "unat (?b n) = (128 + n) * unat (lamports_per_byte_year r)"
    using assms by (intro unat_rent_base) auto
  ultimately have "?b m \<le> ?b n"
    using le by (simp add: word_le_nat_alt)
  then show ?thesis
    unfolding minimum_balance_def Let_def assms(1) using assms(2) by (rule u64_mul_f64_mono)
qed

lemma minimum_balance_mono_example:
  "minimum_balance rent_default 10 \<le> minimum_balance rent_default 165"
  by (rule minimum_balance_mono [where t = 2])
    (simp_all add: rent_default_def DEFAULT_EXEMPTION_THRESHOLD_def DEFAULT_LAMPORTS_PER_BYTE_YEAR_def)

text \<open>
  Collected rent is split without loss: the burned and the distributed part add up to
  what was collected, and the burned part is the configured percentage rounded down.
\<close>

lemma calculate_burn_split:
  assumes "unat (burn_percent r) \<le> 100" and "unat rent_collected * 100 < 2 ^ 64"
    and "calculate_burn r rent_collected = (burned, distributed)"
  shows "unat burned = unat rent_collected * unat (burn_percent r) div 100 \<and>
         unat burned + unat distributed = unat rent_collected"
proof -
  have p: "unat (ucast (burn_percent r) :: u64) = unat (burn_percent r)"
    using unat_bound [of "burn_percent r"] by (simp add: unsigned_ucast_eq take_bit_nat_eq_self_iff)
  have le: "unat rent_collected * unat (burn_percent r) \<le> unat rent_collected * 100"
    using assms(1) by (rule mult_le_mono2)
  then have "unat rent_collected * unat (burn_percent r) < 2 ^ 64"
    using assms(2) by (rule le_less_trans)
  then have "unat rent_collected * unat (ucast (burn_percent r) :: u64) < 2 ^ LENGTH(64)"
    unfolding p by simp
  then have "unat (rent_collected * ucast (burn_percent r)) = unat rent_collected * unat (burn_percent r)"
    using unat_mul_less p by metis
  then have b: "unat burned = unat rent_collected * unat (burn_percent r) div 100"
    using assms(3) by (auto simp: calculate_burn_def Let_def unat_div)
  also have "\<dots> \<le> unat rent_collected"
    using le div_le_mono [OF le, of 100] by simp
  finally have "burned \<le> rent_collected" by (simp add: word_le_nat_alt)
  with b assms(3) show ?thesis
    by (auto simp: calculate_burn_def Let_def unat_simps word_le_nat_alt)
qed

lemma calculate_burn_split_witness:
  "calculate_burn rent_default 101 = (50, 51) \<and> unat (50::u64) + unat (51::u64) = 101"
proof -
  have "calculate_burn rent_default 101 = (50, 51)"
    by (simp add: calculate_burn_def rent_default_def DEFAULT_BURN_PERCENT_def Let_def)
  then show ?thesis
    using calculate_burn_split [of rent_default 101 50 51]
    by (simp add: rent_default_def DEFAULT_BURN_PERCENT_def)
qed

end
