(* ===== verification/Epoch_Schedule.thy ===== *)
theory Epoch_Schedule
  imports Rust_Prelude
begin

text \<open>
  The division of slots into epochs (\<open>sdk/program/src/epoch_schedule.rs\<close>): epochs double from
  32 slots during the warmup and have \<open>slots_per_epoch\<close> slots from \<open>first_normal_epoch\<close> on. The
  lemmas relate the saturating \<open>u64\<close> arithmetic of the code to the epochs as intervals of
  natural numbers: \<open>custom\<close> establishes \<open>consistent\<close>, and on a consistent schedule every slot
  has exactly one epoch.
\<close>

section \<open>Definitions\<close>

record epoch_schedule =
  slots_per_epoch :: u64
  leader_schedule_slot_offset :: u64
  warmup :: bool
  first_normal_epoch :: epoch
  first_normal_slot :: slot

definition MINIMUM_SLOTS_PER_EPOCH :: u64 where
  "MINIMUM_SLOTS_PER_EPOCH = 32"

definition DEFAULT_SLOTS_PER_EPOCH :: u64 where
  "DEFAULT_SLOTS_PER_EPOCH = 432000"

definition DEFAULT_LEADER_SCHEDULE_SLOT_OFFSET :: u64 where
  "DEFAULT_LEADER_SCHEDULE_SLOT_OFFSET = DEFAULT_SLOTS_PER_EPOCH"

definition epoch_schedule_custom :: "u64 \<Rightarrow> u64 \<Rightarrow> bool \<Rightarrow> (epoch_schedule, 'e) result" where
  "epoch_schedule_custom spe offset wup =
     (if \<not> MINIMUM_SLOTS_PER_EPOCH \<le> spe then Panic
      else
        let (fne, fns) =
              (if wup then
                 let npot = next_power_of_two spe;
                     log2_slots_per_epoch =
                       saturating_sub (trailing_zeros npot) (trailing_zeros MINIMUM_SLOTS_PER_EPOCH)
                 in (ucast log2_slots_per_epoch, saturating_sub npot MINIMUM_SLOTS_PER_EPOCH)
               else (0, 0))
        in Ok \<lparr>slots_per_epoch = spe, leader_schedule_slot_offset = offset, warmup = wup,
               first_normal_epoch = fne, first_normal_slot = fns\<rparr>)"

definition epoch_schedule_new :: "u64 \<Rightarrow> (epoch_schedule, 'e) result" where
  "epoch_schedule_new spe = epoch_schedule_custom spe spe True"

definition epoch_schedule_without_warmup :: "(epoch_schedule, 'e) result" where
  "epoch_schedule_without_warmup =
     epoch_schedule_custom DEFAULT_SLOTS_PER_EPOCH DEFAULT_LEADER_SCHEDULE_SLOT_OFFSET False"

definition epoch_schedule_default :: "(epoch_schedule, 'e) result" where
  "epoch_schedule_default =
     epoch_schedule_custom DEFAULT_SLOTS_PER_EPOCH DEFAULT_LEADER_SCHEDULE_SLOT_OFFSET True"

definition get_slots_in_epoch :: "epoch_schedule \<Rightarrow> epoch \<Rightarrow> u64" where
  "get_slots_in_epoch es ep =
     (if ep < first_normal_epoch es then
        saturating_pow 2
          (unat (saturating_add (ucast ep :: u32) (trailing_zeros MINIMUM_SLOTS_PER_EPOCH)))
      else slots_per_epoch es)"

definition get_epoch_and_slot_index :: "epoch_schedule \<Rightarrow> slot \<Rightarrow> epoch \<times> u64" where
  "get_epoch_and_slot_index es sl =
     (if sl < first_normal_slot es then
        let ep = saturating_sub
                   (saturating_sub
                      (trailing_zeros
                         (next_power_of_two
                            (saturating_add (saturating_add sl MINIMUM_SLOTS_PER_EPOCH) 1)))
                      (trailing_zeros MINIMUM_SLOTS_PER_EPOCH))
                   1;
            epoch_len =
              saturating_pow 2
                (unat (saturating_add ep (trailing_zeros MINIMUM_SLOTS_PER_EPOCH)))
        in (ucast ep, saturating_sub sl (saturating_sub epoch_len MINIMUM_SLOTS_PER_EPOCH))
      else
        let normal_slot_index = saturating_sub sl (first_normal_slot es);
            normal_epoch_index =
              (case checked_div normal_slot_index (slots_per_epoch es) of None \<Rightarrow> 0 | Some q \<Rightarrow> q);
            ep = saturating_add (first_normal_epoch es) normal_epoch_index;
            slot_index =
              (case checked_rem normal_slot_index (slots_per_epoch es) of None \<Rightarrow> 0 | Some q \<Rightarrow> q)
        in (ep, slot_index))"

definition get_epoch :: "epoch_schedule \<Rightarrow> slot \<Rightarrow> epoch" where
  "get_epoch es sl = fst (get_epoch_and_slot_index es sl)"

definition get_leader_schedule_epoch :: "epoch_schedule \<Rightarrow> slot \<Rightarrow> epoch" where
  "get_leader_schedule_epoch es sl =
     (if sl < first_normal_slot es then
        saturating_add (fst (get_epoch_and_slot_index es sl)) 1
      else
        let new_slots_since_first_normal_slot = saturating_sub sl (first_normal_slot es);
            new_first_normal_leader_schedule_slot =
              saturating_add new_slots_since_first_normal_slot (leader_schedule_slot_offset es);
            new_epochs_since_first_normal_leader_schedule =
              (case checked_div new_first_normal_leader_schedule_slot (slots_per_epoch es) of
                 None \<Rightarrow> 0 | Some q \<Rightarrow> q)
        in saturating_add (first_normal_epoch es) new_epochs_since_first_normal_leader_schedule)"

definition get_first_slot_in_epoch :: "epoch_schedule \<Rightarrow> epoch \<Rightarrow> slot" where
  "get_first_slot_in_epoch es ep =
     (if ep \<le> first_normal_epoch es then
        saturating_mul
          (saturating_sub (saturating_pow 2 (unat (ucast ep :: u32))) 1) MINIMUM_SLOTS_PER_EPOCH
      else
        saturating_add
          (saturating_mul (saturating_sub ep (first_normal_epoch es)) (slots_per_epoch es))
          (first_normal_slot es))"

definition get_last_slot_in_epoch :: "epoch_schedule \<Rightarrow> epoch \<Rightarrow> slot" where
  "get_last_slot_in_epoch es ep =
     saturating_sub (saturating_add (get_first_slot_in_epoch es ep) (get_slots_in_epoch es ep)) 1"

text \<open>
  The relation between the fields that \<open>custom\<close> establishes: with \<open>f\<close> warmup epochs, the
  normal slots start after 32 + 64 + ... slots.
\<close>

definition consistent :: "epoch_schedule \<Rightarrow> bool" where
  "consistent es \<longleftrightarrow>
     unat (first_normal_epoch es) \<le> 58 \<and> 32 \<le> unat (slots_per_epoch es) \<and>
     unat (first_normal_slot es) = 32 * (2 ^ unat (first_normal_epoch es) - 1)"

section \<open>Lemmas\<close>

lemma trailing_zeros_32: "trailing_zeros MINIMUM_SLOTS_PER_EPOCH = 5"
proof -
  have "unat (trailing_zeros MINIMUM_SLOTS_PER_EPOCH) = 5"
    by (rule trailing_zeros_power) (simp_all add: MINIMUM_SLOTS_PER_EPOCH_def)
  then show ?thesis by (simp add: word_unat_eq_iff)
qed

lemma unat_ucast_u64_u32: "unat (w::u64) < 2 ^ 32 \<Longrightarrow> unat (ucast w :: u32) = unat w"
  by (simp add: unsigned_ucast_eq take_bit_nat_eq_self_iff)

lemma unat_ucast_u32_u64: "unat (ucast (w::u32) :: u64) = unat w"
  using unat_u32_bound [of w] by (simp add: unsigned_ucast_eq take_bit_nat_eq_self_iff)

lemma two_power_less_64: "k < 64 \<Longrightarrow> (2::nat) ^ k < 18446744073709551616"
  using power_strict_increasing [of k 64 "2::nat"] by simp

text \<open>The least power of two that is at least \<open>n\<close>, and the slots before the normal ones.\<close>

lemma power_bracket:
  assumes "1 < (n::nat)" and "n \<le> 2 ^ m"
  obtains k where "0 < k" and "k \<le> m" and "2 ^ (k - 1) < n" and "n \<le> 2 ^ k"
proof -
  define k where "k = (LEAST k. n \<le> 2 ^ k)"
  have le: "n \<le> 2 ^ k" unfolding k_def using assms(2) by (rule LeastI)
  have km: "k \<le> m" unfolding k_def using assms(2) by (rule Least_le)
  have k0: "0 < k" using le assms(1) by (cases k) auto
  have "\<not> n \<le> 2 ^ (k - 1)"
    using k0 not_less_Least [of "k - 1" "\<lambda>k. n \<le> 2 ^ k"] unfolding k_def by simp
  then show thesis using that [of k] k0 km le by simp
qed

lemma custom_consistent:
  assumes "epoch_schedule_custom spe offset wup = Ok es" and "unat spe \<le> 2 ^ 63"
  shows "consistent es"
proof -
  have min: "32 \<le> unat spe"
    using assms(1) by (auto simp: epoch_schedule_custom_def MINIMUM_SLOTS_PER_EPOCH_def
        word_le_nat_alt split: if_splits)
  show ?thesis
  proof (cases wup)
    case False
    then show ?thesis
      using assms(1) min
      by (auto simp: epoch_schedule_custom_def consistent_def Let_def split: if_splits)
  next
    case True
    obtain k where k: "0 < k" "k \<le> 63" "2 ^ (k - 1) < unat spe" "unat spe \<le> 2 ^ k"
      using power_bracket [of "unat spe" 63] min assms(2) by auto
    have k5: "5 \<le> k"
    proof (rule ccontr)
      assume "\<not> 5 \<le> k"
      then have "(2::nat) ^ k \<le> 2 ^ 4" by (intro power_increasing) auto
      with k(4) min show False by simp
    qed
    have npot: "unat (next_power_of_two spe) = 2 ^ k"
      using k min by (intro next_power_of_two_eq) auto
    then have tz: "unat (trailing_zeros (next_power_of_two spe)) = k"
      using k(2) by (intro trailing_zeros_power) auto
    have "(2::nat) ^ 5 \<le> 2 ^ k" using k5 by (rule power_increasing) simp
    moreover have "(2::nat) ^ k = 32 * 2 ^ (k - 5)"
      using k5 power_add [of "2::nat" 5 "k - 5"] by simp
    moreover have "unat (MINIMUM_SLOTS_PER_EPOCH) = 32"
      by (simp add: MINIMUM_SLOTS_PER_EPOCH_def)
    ultimately show ?thesis
      using assms(1) True k k5 min npot tz
      by (auto simp: epoch_schedule_custom_def consistent_def Let_def unat_simps
          unat_ucast_u32_u64 trailing_zeros_32 right_diff_distrib' split: if_splits)
  qed
qed

text \<open>On a consistent schedule the saturating arithmetic computes the interval of each epoch.\<close>

lemma slots_in_warmup_epoch:
  assumes "consistent es" and "ep < first_normal_epoch es"
  shows "unat (get_slots_in_epoch es ep) = 32 * 2 ^ unat ep"
proof -
  have e: "unat ep < 58" using assms by (auto simp: consistent_def word_less_nat_alt)
  then have "unat (saturating_add (ucast ep :: u32) 5) = unat ep + 5"
    by (simp add: unat_simps unat_ucast_u64_u32)
  moreover have "(2::nat) ^ (unat ep + 5) < 2 ^ 64" using e by (intro power_strict_increasing) auto
  ultimately show ?thesis
    using assms(2) by (simp add: get_slots_in_epoch_def trailing_zeros_32 unat_simps power_add)
qed

lemma slots_in_normal_epoch:
  "first_normal_epoch es \<le> ep \<Longrightarrow> get_slots_in_epoch es ep = slots_per_epoch es"
  by (simp add: get_slots_in_epoch_def leD)

lemma first_slot_warmup:
  assumes "consistent es" and "ep \<le> first_normal_epoch es"
  shows "unat (get_first_slot_in_epoch es ep) = 32 * (2 ^ unat ep - 1)"
proof -
  have e: "unat ep \<le> 58" using assms by (auto simp: consistent_def word_le_nat_alt)
  then have "unat (ucast ep :: u32) = unat ep" by (simp add: unat_ucast_u64_u32)
  moreover have p: "(2::nat) ^ unat ep \<le> 2 ^ 58" using e by (rule power_increasing) simp
  ultimately show ?thesis
    using assms(2)
    by (simp add: get_first_slot_in_epoch_def unat_simps MINIMUM_SLOTS_PER_EPOCH_def)
qed

lemma first_slot_normal:
  assumes "consistent es" and "first_normal_epoch es \<le> ep"
  shows "unat (get_first_slot_in_epoch es ep) =
    min (unat (first_normal_slot es) +
         (unat ep - unat (first_normal_epoch es)) * unat (slots_per_epoch es)) (2 ^ 64 - 1)"
proof (cases "ep = first_normal_epoch es")
  case True
  then show ?thesis
    using first_slot_warmup [OF assms(1), of ep] assms(1) unat_u64_bound [of "first_normal_slot es"]
    by (simp add: consistent_def)
next
  case False
  then have "\<not> ep \<le> first_normal_epoch es" using assms(2) by auto
  then show ?thesis by (simp add: get_first_slot_in_epoch_def unat_simps)
qed

lemma warmup_epoch_of_slot:
  assumes "consistent es" and "sl < first_normal_slot es"
    and "get_epoch_and_slot_index es sl = (ep, i)"
  shows "ep < first_normal_epoch es \<and> 32 * (2 ^ unat ep - 1) + unat i = unat sl \<and>
         unat i < 32 * 2 ^ unat ep"
proof -
  let ?f = "unat (first_normal_epoch es)"
  have f: "?f \<le> 58" and sl: "unat sl < 32 * (2 ^ ?f - 1)"
    using assms by (auto simp: consistent_def word_less_nat_alt)
  have "(2::nat) ^ ?f \<le> 2 ^ 58" using f by (rule power_increasing) simp
  then have big: "32 * (2::nat) ^ ?f \<le> 2 ^ 63" by simp
  define x where "x = saturating_add (saturating_add sl MINIMUM_SLOTS_PER_EPOCH) 1"
  have x: "unat x = unat sl + 33"
    using sl big by (simp add: x_def unat_simps MINIMUM_SLOTS_PER_EPOCH_def)
  have "unat sl + 33 \<le> 2 ^ (?f + 5)" using sl by (simp add: power_add)
  then obtain k where k: "0 < k" "k \<le> ?f + 5" "2 ^ (k - 1) < unat sl + 33" "unat sl + 33 \<le> 2 ^ k"
    using power_bracket [of "unat sl + 33" "?f + 5"] by auto
  have k6: "6 \<le> k"
  proof (rule ccontr)
    assume "\<not> 6 \<le> k"
    then have "(2::nat) ^ k \<le> 2 ^ 5" by (intro power_increasing) auto
    with k(4) show False by simp
  qed
  have npot: "unat (next_power_of_two x) = 2 ^ k"
    using k f x by (intro next_power_of_two_eq) auto
  define tz where "tz = trailing_zeros (next_power_of_two x)"
  have tz: "unat tz = k"
    unfolding tz_def using npot k f by (intro trailing_zeros_power) auto
  define e where "e = saturating_sub (saturating_sub tz 5) 1"
  have e: "unat e = k - 6" and e5: "unat (saturating_add e 5) = k - 1"
    using tz k f k6 by (auto simp: e_def unat_simps)
  have pk: "(2::nat) ^ (k - 1) = 32 * 2 ^ (k - 6)" and p1: "(2::nat) ^ k = 2 * 2 ^ (k - 1)"
    using k6 k(1) power_add [of "2::nat" 5 "k - 6"] power_Suc [of "2::nat" "k - 1"] by auto
  have "(2::nat) ^ (k - 1) < 2 ^ 64" using k f by (intro power_strict_increasing) auto
  then have len: "unat (saturating_pow (2::u64) (k - 1)) = 2 ^ (k - 1)" by (simp add: unat_simps)
  have "ep = ucast e" and "i = saturating_sub sl (saturating_sub (saturating_pow 2 (k - 1)) 32)"
    using assms(2,3) e5
    by (auto simp: get_epoch_and_slot_index_def Let_def trailing_zeros_32 e_def tz_def x_def
        MINIMUM_SLOTS_PER_EPOCH_def [symmetric])
  then have "unat ep = k - 6" and "unat i = unat sl - (2 ^ (k - 1) - 32)"
    using e len by (simp_all add: unat_ucast_u32_u64 unat_saturating_sub)
  moreover define X where "X = (2::nat) ^ (k - 6)"
  have "X \<noteq> 0" by (simp add: X_def)
  then obtain Y where "X = Suc Y" by (auto simp: gr0_conv_Suc)
  moreover have "32 * X < unat sl + 33" and "unat sl + 33 \<le> 64 * X" and "2 ^ (k - 1) = 32 * X"
    using k pk p1 by (simp_all add: X_def)
  ultimately show ?thesis
    using k(2) k6 by (auto simp: word_less_nat_alt X_def [symmetric])
qed

lemma normal_epoch_of_slot:
  assumes "consistent es" and "first_normal_slot es \<le> sl"
    and "get_epoch_and_slot_index es sl = (ep, i)"
  shows "first_normal_epoch es \<le> ep \<and>
    unat ep = unat (first_normal_epoch es) +
      (unat sl - unat (first_normal_slot es)) div unat (slots_per_epoch es) \<and>
    unat i = (unat sl - unat (first_normal_slot es)) mod unat (slots_per_epoch es)"
proof -
  let ?d = "unat sl - unat (first_normal_slot es)" and ?n = "unat (slots_per_epoch es)"
  have n: "32 \<le> ?n" and f: "unat (first_normal_epoch es) \<le> 58"
    using assms(1) by (auto simp: consistent_def)
  have nz: "slots_per_epoch es \<noteq> 0" using n by auto
  have "?d div ?n \<le> ?d div 32" using n by (intro div_le_mono2) auto
  also have "\<dots> < 2 ^ 60" using unat_u64_bound [of sl] by simp
  finally have q: "?d div ?n < 2 ^ 60" .
  have "unat ep = unat (first_normal_epoch es) + ?d div ?n \<and> unat i = ?d mod ?n"
    using assms(2,3) nz q f
    by (auto simp: get_epoch_and_slot_index_def Let_def unat_simps checked_div_def checked_rem_def
        unat_div unat_mod leD)
  then show ?thesis by (simp add: word_le_nat_alt)
qed

text \<open>
  C35: Every slot lies in its epoch. On a schedule made by \<open>custom\<close>, the first slot of the
  epoch that \<open>get_epoch_and_slot_index\<close> gives for a slot, plus the index it gives, is the slot,
  and the index is below the length of the epoch, in the warmup and after it, for every \<open>u64\<close>
  slot and epochs of at most \<open>2 ^ 63\<close> slots.
\<close>

theorem epoch_and_slot_index_correct:
  assumes "epoch_schedule_custom spe offset wup = Ok es" and "unat spe \<le> 2 ^ 63"
    and "get_epoch_and_slot_index es sl = (ep, i)"
  shows "unat (get_first_slot_in_epoch es ep) + unat i = unat sl \<and> i < get_slots_in_epoch es ep"
proof -
  have c: "consistent es" using assms(1,2) by (rule custom_consistent)
  show ?thesis
  proof (cases "sl < first_normal_slot es")
    case True
    with c assms(3) have w: "ep < first_normal_epoch es" "32 * (2 ^ unat ep - 1) + unat i = unat sl"
        "unat i < 32 * 2 ^ unat ep"
      using warmup_epoch_of_slot by blast+
    then show ?thesis
      using first_slot_warmup [OF c, of ep] slots_in_warmup_epoch [OF c w(1)]
      by (simp add: word_less_nat_alt less_imp_le)
  next
    case False
    let ?d = "unat sl - unat (first_normal_slot es)" and ?n = "unat (slots_per_epoch es)"
    have le: "unat (first_normal_slot es) \<le> unat sl" using False by (simp add: word_less_nat_alt)
    from False c assms(3) have w: "first_normal_epoch es \<le> ep"
        "unat ep = unat (first_normal_epoch es) + ?d div ?n" "unat i = ?d mod ?n"
      using normal_epoch_of_slot [of es sl ep i] by auto
    have "?d div ?n * ?n + ?d mod ?n = ?d" by (rule div_mult_mod_eq)
    then have "unat (first_normal_slot es) + ?d div ?n * ?n + ?d mod ?n = unat sl" using le by simp
    moreover have "unat (get_first_slot_in_epoch es ep) =
        unat (first_normal_slot es) + ?d div ?n * ?n"
      using first_slot_normal [OF c w(1)] w(2) calculation unat_u64_bound [of sl] by simp
    moreover have "0 < ?n" using c by (simp add: consistent_def)
    ultimately show ?thesis
      using w slots_in_normal_epoch [OF w(1)] by (simp add: word_less_nat_alt)
  qed
qed

lemma custom_100: "epoch_schedule_custom 100 100 True = Ok
    \<lparr>slots_per_epoch = 100, leader_schedule_slot_offset = 100, warmup = True,
     first_normal_epoch = 2, first_normal_slot = 96\<rparr>"
proof -
  have n: "unat (next_power_of_two (100::u64)) = 2 ^ 7" by (rule next_power_of_two_eq) simp_all
  then have "unat (trailing_zeros (next_power_of_two (100::u64))) = 7" by (rule trailing_zeros_power) simp
  with n show ?thesis
    by (simp add: epoch_schedule_custom_def trailing_zeros_32 Let_def word_unat_eq_iff unat_simps
        unat_ucast_u32_u64 MINIMUM_SLOTS_PER_EPOCH_def [symmetric])
       (simp add: MINIMUM_SLOTS_PER_EPOCH_def)
qed

theorem epoch_and_slot_index_correct_witness:
  "\<exists>es. epoch_schedule_custom 100 100 True = (Ok es :: (epoch_schedule, unit) result) \<and>
     get_epoch_and_slot_index es 205 = (3, 9) \<and>
     unat (get_first_slot_in_epoch es 3) + unat (9::u64) = unat (205::u64) \<and>
     9 < get_slots_in_epoch es 3"
proof -
  let ?es = "\<lparr>slots_per_epoch = 100, leader_schedule_slot_offset = 100, warmup = True,
     first_normal_epoch = 2, first_normal_slot = 96\<rparr>"
  have 1: "get_epoch_and_slot_index ?es 205 = (3, 9)"
    by (simp add: get_epoch_and_slot_index_def Let_def checked_div_def checked_rem_def
        word_unat_eq_iff unat_simps unat_div unat_mod)
  show ?thesis
    using epoch_and_slot_index_correct [OF custom_100 _ 1] custom_100 1
    by (intro exI [of _ ?es]) simp
qed

lemma first_slot_less_max:
  "consistent es \<Longrightarrow> first_normal_epoch es \<le> ep \<Longrightarrow> get_first_slot_in_epoch es ep \<noteq> - 1 \<Longrightarrow>
    unat (get_first_slot_in_epoch es ep) = unat (first_normal_slot es) +
      (unat ep - unat (first_normal_epoch es)) * unat (slots_per_epoch es)"
  using first_slot_normal [of es ep]
  by (simp add: min_def word_unat_eq_iff unsigned_minus_1_eq_mask mask_eq_exp_minus_1 split: if_splits)

lemma last_slot_bound:
  assumes "0 < get_slots_in_epoch es ep" and "sl \<le> get_last_slot_in_epoch es ep"
  shows "unat sl < unat (get_first_slot_in_epoch es ep) + unat (get_slots_in_epoch es ep)"
proof -
  have "unat sl \<le> unat (get_last_slot_in_epoch es ep)" using assms(2) by (simp add: word_le_nat_alt)
  moreover have "0 < unat (get_slots_in_epoch es ep)" using assms(1) by (simp add: word_less_nat_alt)
  ultimately show ?thesis by (simp add: get_last_slot_in_epoch_def unat_simps)
qed

text \<open>The epochs as intervals of natural numbers are disjoint.\<close>

lemma warmup_interval_unique:
  assumes "32 * (2 ^ a - 1) \<le> (n::nat)" "n < 32 * (2 ^ a - 1) + 32 * 2 ^ a"
    and "32 * (2 ^ b - 1) \<le> n" "n < 32 * (2 ^ b - 1) + 32 * 2 ^ b"
  shows "a = b"
proof -
  have *: "\<not> x < y" if "32 * (2 ^ y - 1) \<le> n" "n < 32 * (2 ^ x - 1) + 32 * 2 ^ x" for x y :: nat
  proof
    assume "x < y"
    then have "(2::nat) ^ Suc x \<le> 2 ^ y" by (intro power_increasing) auto
    moreover have "(1::nat) \<le> 2 ^ x" by simp
    ultimately show False using that by simp
  qed
  show ?thesis using * [OF assms(1,4)] * [OF assms(3,2)] by simp
qed

lemma normal_interval_div:
  assumes "F + q * N \<le> (n::nat)" and "n < F + q * N + N"
  shows "(n - F) div N = q"
  using assms by (intro div_nat_eqI) (auto simp: algebra_simps)

text \<open>
  The epochs do not overlap: a slot between the first and the last slot of an epoch
  belongs to that epoch, whenever the epoch starts within the \<open>u64\<close> slots (its saturated first
  slot is not \<open>u64::MAX\<close>).
\<close>

lemma get_epoch_unique:
  assumes "epoch_schedule_custom spe offset wup = Ok es" and "unat spe \<le> 2 ^ 63"
    and "get_first_slot_in_epoch es ep \<noteq> - 1"
    and "get_first_slot_in_epoch es ep \<le> sl" and "sl \<le> get_last_slot_in_epoch es ep"
  shows "get_epoch es sl = ep"
proof -
  have c: "consistent es" using assms(1,2) by (rule custom_consistent)
  obtain e i where ei: "get_epoch_and_slot_index es sl = (e, i)" by fastforce
  have lo: "unat (get_first_slot_in_epoch es ep) \<le> unat sl"
    using assms(4) by (simp add: word_le_nat_alt)
  have fns: "unat (first_normal_slot es) = 32 * (2 ^ unat (first_normal_epoch es) - 1)"
    using c by (simp add: consistent_def)
  have "unat e = unat ep"
  proof (cases "ep < first_normal_epoch es")
    case True
    note len = slots_in_warmup_epoch [OF c True] and first = first_slot_warmup [OF c less_imp_le [OF True]]
    have "0 < get_slots_in_epoch es ep" using len by (simp add: word_less_nat_alt)
    from last_slot_bound [OF this assms(5)]
    have hi: "unat sl < 32 * (2 ^ unat ep - 1) + 32 * 2 ^ unat ep" using len first by simp
    have "Suc (unat ep) \<le> unat (first_normal_epoch es)" using True by (simp add: word_less_nat_alt)
    then have "(2::nat) ^ Suc (unat ep) \<le> 2 ^ unat (first_normal_epoch es)"
      by (rule power_increasing) simp
    moreover have "(1::nat) \<le> 2 ^ unat ep" by simp
    ultimately have "sl < first_normal_slot es" using hi fns by (simp add: word_less_nat_alt)
    from warmup_epoch_of_slot [OF c this ei] show ?thesis
      using warmup_interval_unique [of "unat e" "unat sl" "unat ep"] lo hi first by simp
  next
    case False
    then have n: "first_normal_epoch es \<le> ep" by simp
    note first = first_slot_less_max [OF c n assms(3)]
    have "0 < get_slots_in_epoch es ep"
      using c slots_in_normal_epoch [OF n] by (auto simp: consistent_def word_less_nat_alt)
    from last_slot_bound [OF this assms(5)] slots_in_normal_epoch [OF n] lo first
    have "(unat sl - unat (first_normal_slot es)) div unat (slots_per_epoch es) =
        unat ep - unat (first_normal_epoch es)"
      by (intro normal_interval_div) auto
    moreover have "first_normal_slot es \<le> sl" using lo first by (simp add: word_le_nat_alt)
    ultimately show ?thesis
      using normal_epoch_of_slot [OF c _ ei] n by (simp add: word_le_nat_alt)
  qed
  then show ?thesis using ei by (simp add: get_epoch_def word_unat_eq_iff)
qed

lemma get_epoch_unique_example:
  "\<exists>es. epoch_schedule_custom 100 100 True = (Ok es :: (epoch_schedule, unit) result) \<and>
     get_first_slot_in_epoch es 3 = 196 \<and> get_last_slot_in_epoch es 3 = 295 \<and>
     get_epoch es 295 = 3"
proof -
  let ?es = "\<lparr>slots_per_epoch = 100, leader_schedule_slot_offset = 100, warmup = True,
     first_normal_epoch = 2, first_normal_slot = 96\<rparr>"
  have f: "get_first_slot_in_epoch ?es 3 = 196"
    by (simp add: get_first_slot_in_epoch_def word_unat_eq_iff unat_simps)
  have l: "get_last_slot_in_epoch ?es 3 = 295"
    by (simp add: get_last_slot_in_epoch_def get_slots_in_epoch_def f word_unat_eq_iff unat_simps)
  have "get_epoch ?es 295 = 3"
    by (rule get_epoch_unique [OF custom_100]) (simp_all add: f l)
  then show ?thesis using custom_100 f l by (intro exI [of _ ?es]) simp
qed

text \<open>
  With a leader schedule offset of one epoch, which \<open>new\<close> and \<open>default\<close> choose, the leader
  schedule that a slot computes is the one of the next epoch, throughout the warmup and after it,
  unless the sum passes the last \<open>u64\<close> slot.
\<close>

lemma leader_schedule_is_next_epoch:
  assumes "epoch_schedule_new spe = (Ok es :: (epoch_schedule, 'e) result)" and "unat spe \<le> 2 ^ 63"
    and "unat sl + unat spe < 2 ^ 64"
  shows "unat (get_leader_schedule_epoch es sl) = unat (get_epoch es sl) + 1"
proof -
  have new: "epoch_schedule_custom spe spe True = (Ok es :: (epoch_schedule, 'e) result)"
    using assms(1) by (simp add: epoch_schedule_new_def)
  have c: "consistent es" using new assms(2) by (rule custom_consistent)
  obtain e i where ei: "get_epoch_and_slot_index es sl = (e, i)" by fastforce
  have fields: "slots_per_epoch es = spe" "leader_schedule_slot_offset es = spe"
    using new by (auto simp: epoch_schedule_custom_def Let_def split: if_splits)
  have n: "32 \<le> unat spe" and f: "unat (first_normal_epoch es) \<le> 58"
    using c fields by (auto simp: consistent_def)
  show ?thesis
  proof (cases "sl < first_normal_slot es")
    case True
    have "unat e < 58" using warmup_epoch_of_slot [OF c True ei] f by (simp add: word_less_nat_alt)
    then show ?thesis using True ei by (simp add: get_leader_schedule_epoch_def get_epoch_def unat_simps)
  next
    case False
    let ?d = "unat sl - unat (first_normal_slot es)"
    have e: "unat e = unat (first_normal_epoch es) + ?d div unat spe"
      using normal_epoch_of_slot [OF c _ ei] False fields by simp
    have "?d div unat spe \<le> ?d div 32" using n by (intro div_le_mono2) auto
    also have "\<dots> < 2 ^ 60" using unat_u64_bound [of sl] by simp
    finally have q: "?d div unat spe < 2 ^ 60" .
    have "(?d + unat spe) div unat spe = ?d div unat spe + 1" using n by simp
    moreover have "unat (saturating_add (saturating_sub sl (first_normal_slot es)) spe) = ?d + unat spe"
      using assms(3) by (simp add: unat_simps)
    moreover have "spe \<noteq> 0" using n by auto
    ultimately show ?thesis
      using False ei e f q fields
      by (simp add: get_leader_schedule_epoch_def get_epoch_def Let_def checked_div_def
          unat_saturating_add unat_div)
  qed
qed

lemma leader_schedule_is_next_epoch_example:
  "\<exists>es. epoch_schedule_new 100 = (Ok es :: (epoch_schedule, unit) result) \<and>
     unat (get_leader_schedule_epoch es 205) = unat (get_epoch es 205) + 1"
proof -
  let ?es = "\<lparr>slots_per_epoch = 100, leader_schedule_slot_offset = 100, warmup = True,
     first_normal_epoch = 2, first_normal_slot = 96\<rparr>"
  have 1: "epoch_schedule_new 100 = (Ok ?es :: (epoch_schedule, unit) result)"
    by (simp add: epoch_schedule_new_def custom_100)
  have "unat (get_leader_schedule_epoch ?es 205) = unat (get_epoch ?es 205) + 1"
    by (rule leader_schedule_is_next_epoch [OF 1]) simp_all
  with 1 show ?thesis by blast
qed

end
