(* ===== verification/Slot_History.thy ===== *)
theory Slot_History
  imports Rust_Prelude
begin

text \<open>
  The history of the slots of a fork (\<open>sdk/program/src/slot_history.rs\<close>): a ring of
  \<open>MAX_ENTRIES\<close> bits, one for each of the last slots. The bit vector is a type of the crate
  \<open>bv\<close>, so its operations are a parameter, with the documented meaning of \<open>get\<close> after the
  operations that write as the hypothesis \<open>bit_vec_laws\<close>.
\<close>

section \<open>Definitions\<close>

record 'b bit_vec =
  bv_new_fill :: "bool \<Rightarrow> u64 \<Rightarrow> 'b"
  bv_get :: "'b \<Rightarrow> u64 \<Rightarrow> bool"
  bv_set :: "'b \<Rightarrow> u64 \<Rightarrow> bool \<Rightarrow> 'b"
  bv_set_block :: "'b \<Rightarrow> nat \<Rightarrow> u64 \<Rightarrow> 'b"

record 'b slot_history =
  bits :: 'b
  next_slot :: slot

datatype check = Future | TooOld | Found | NotFound

definition HISTORY_MAX_ENTRIES :: u64 where
  "HISTORY_MAX_ENTRIES = 1024 * 1024"

definition slot_history_default :: "'b bit_vec \<Rightarrow> 'b slot_history" where
  "slot_history_default bv =
     \<lparr>bits = bv_set bv (bv_new_fill bv False HISTORY_MAX_ENTRIES) 0 True, next_slot = 1\<rparr>"

definition slot_history_add :: "'b bit_vec \<Rightarrow> 'b slot_history \<Rightarrow> slot \<Rightarrow> 'b slot_history" where
  "slot_history_add bv h sl =
     (let bits1 =
            (if next_slot h < sl \<and> HISTORY_MAX_ENTRIES \<le> sl - next_slot h then
               let full_blocks = unat HISTORY_MAX_ENTRIES div 64
               in fold (\<lambda>i b. bv_set_block bv b i 0) [0..<full_blocks] (bits h)
             else
               fold (\<lambda>skipped b. bv_set bv b (word_of_nat skipped mod HISTORY_MAX_ENTRIES) False)
                 [unat (next_slot h)..<unat sl] (bits h))
      in \<lparr>bits = bv_set bv bits1 (sl mod HISTORY_MAX_ENTRIES) True, next_slot = sl + 1\<rparr>)"

definition oldest :: "'b slot_history \<Rightarrow> slot" where
  "oldest h = saturating_sub (next_slot h) HISTORY_MAX_ENTRIES"

definition newest :: "'b slot_history \<Rightarrow> slot" where
  "newest h = next_slot h - 1"

definition slot_history_check :: "'b bit_vec \<Rightarrow> 'b slot_history \<Rightarrow> slot \<Rightarrow> check" where
  "slot_history_check bv h sl =
     (if newest h < sl then Future
      else if sl < oldest h then TooOld
      else if bv_get bv (bits h) (sl mod HISTORY_MAX_ENTRIES) then Found
      else NotFound)"

text \<open>
  What the crate documents for a vector of \<open>MAX_ENTRIES\<close> bits with 64-bit blocks: reading after
  writing a bit, after filling a block with zeros, and after \<open>new_fill\<close>.
\<close>

definition bit_vec_laws :: "'b bit_vec \<Rightarrow> bool" where
  "bit_vec_laws bv \<longleftrightarrow>
     (\<forall>v i. i < HISTORY_MAX_ENTRIES \<longrightarrow> bv_get bv (bv_new_fill bv v HISTORY_MAX_ENTRIES) i = v) \<and>
     (\<forall>b i v j. i < HISTORY_MAX_ENTRIES \<longrightarrow> j < HISTORY_MAX_ENTRIES \<longrightarrow>
        bv_get bv (bv_set bv b i v) j = (if j = i then v else bv_get bv b j)) \<and>
     (\<forall>b k j. k < unat HISTORY_MAX_ENTRIES div 64 \<longrightarrow> j < HISTORY_MAX_ENTRIES \<longrightarrow>
        bv_get bv (bv_set_block bv b k 0) j = (unat j div 64 \<noteq> k \<and> bv_get bv b j))"

text \<open>
  The abstract history is the set of the slots added. \<open>tracks\<close> relates the ring to it: the bits
  of the window \<open>[oldest, newest]\<close> say which slots are members.
\<close>

definition tracks :: "'b bit_vec \<Rightarrow> 'b slot_history \<Rightarrow> slot set \<Rightarrow> bool" where
  "tracks bv h S \<longleftrightarrow>
     next_slot h \<noteq> 0 \<and>
     (\<forall>s. unat s < unat (next_slot h) \<and> unat (next_slot h) \<le> unat s + unat HISTORY_MAX_ENTRIES \<longrightarrow>
        (bv_get bv (bits h) (s mod HISTORY_MAX_ENTRIES) \<longleftrightarrow> s \<in> S))"

section \<open>Lemmas\<close>

lemma unat_HISTORY_MAX_ENTRIES: "unat HISTORY_MAX_ENTRIES = 1048576"
  by (simp add: HISTORY_MAX_ENTRIES_def)

lemma index_bound [simp]: "s mod HISTORY_MAX_ENTRIES < HISTORY_MAX_ENTRIES"
  by (simp add: word_less_nat_alt unat_mod unat_HISTORY_MAX_ENTRIES)

lemma index_eq_iff:
  "s mod HISTORY_MAX_ENTRIES = t mod HISTORY_MAX_ENTRIES \<longleftrightarrow>
     unat s mod 1048576 = unat t mod 1048576"
  by (simp add: word_unat_eq_iff unat_mod unat_HISTORY_MAX_ENTRIES)

lemma unat_plus_one: "(w::'a::len word) \<noteq> - 1 \<Longrightarrow> unat (w + 1) = unat w + 1"
  using unatSuc [of w] by (simp add: add.commute eq_neg_iff_add_eq_0)

lemma mod_window:
  assumes "(a::nat) < b" and "b < a + n"
  shows "a mod n \<noteq> b mod n"
proof
  assume "a mod n = b mod n"
  then have "n dvd b - a" using assms(1) by (metis less_imp_le mod_eq_dvd_iff_nat)
  then have "n \<le> b - a" using assms by (intro dvd_imp_le) auto
  then show False using assms by simp
qed

lemma bv_get_set:
  "bit_vec_laws bv \<Longrightarrow> i < HISTORY_MAX_ENTRIES \<Longrightarrow> j < HISTORY_MAX_ENTRIES \<Longrightarrow>
     bv_get bv (bv_set bv b i v) j = (if j = i then v else bv_get bv b j)"
  by (simp add: bit_vec_laws_def)

text \<open>What the two loops of \<open>add\<close> leave.\<close>

lemma get_clear_blocks:
  assumes "bit_vec_laws bv" and "j < HISTORY_MAX_ENTRIES" and "n \<le> unat HISTORY_MAX_ENTRIES div 64"
  shows "bv_get bv (fold (\<lambda>i b. bv_set_block bv b i 0) [0..<n] b) j =
     (n \<le> unat j div 64 \<and> bv_get bv b j)"
  using assms(3)
proof (induction n)
  case (Suc n)
  then have "bv_get bv (bv_set_block bv (fold (\<lambda>i b. bv_set_block bv b i 0) [0..<n] b) n 0) j =
      (unat j div 64 \<noteq> n \<and> bv_get bv (fold (\<lambda>i b. bv_set_block bv b i 0) [0..<n] b) j)"
    using assms(1,2) by (simp add: bit_vec_laws_def)
  then show ?case using Suc by auto
qed simp

lemma get_clear_skipped:
  assumes "bit_vec_laws bv" and "j < HISTORY_MAX_ENTRIES"
  shows "bv_get bv (fold (\<lambda>skipped b. bv_set bv b (word_of_nat skipped mod HISTORY_MAX_ENTRIES) False) ks b) j =
     ((\<forall>k\<in>set ks. word_of_nat k mod HISTORY_MAX_ENTRIES \<noteq> j) \<and> bv_get bv b j)"
  using assms by (induction ks arbitrary: b) (auto simp: bv_get_set)

lemma word_of_nat_below:
  "k < unat (sl::slot) \<Longrightarrow> unat (word_of_nat k :: slot) = k"
  using unat_u64_bound [of sl] by (intro unat_word_of_nat_less) simp

lemma tracks_default:
  assumes "bit_vec_laws bv"
  shows "tracks bv (slot_history_default bv) {0}"
proof -
  have "0 < HISTORY_MAX_ENTRIES" by (simp add: HISTORY_MAX_ENTRIES_def)
  then have "bv_get bv (bits (slot_history_default bv)) 0"
    using bv_get_set [OF assms] by (simp add: slot_history_default_def)
  moreover have "unat s < 1 \<longleftrightarrow> s = 0" for s :: slot by (simp add: word_unat_eq_iff)
  moreover have "next_slot (slot_history_default bv) = 1" by (simp add: slot_history_default_def)
  ultimately show ?thesis by (simp add: tracks_def)
qed

lemma tracks_add:
  assumes laws: "bit_vec_laws bv" and tr: "tracks bv h S"
    and le: "next_slot h \<le> sl" and top: "sl \<noteq> - 1" and S: "\<forall>s\<in>S. s < next_slot h"
  shows "tracks bv (slot_history_add bv h sl) (insert sl S)"
proof -
  have nle: "unat (next_slot h) \<le> unat sl" using le by (simp add: word_le_nat_alt)
  have nx: "unat (sl + 1) = unat sl + 1"  using top by (rule unat_plus_one)
  define b1 where "b1 = (if next_slot h < sl \<and> HISTORY_MAX_ENTRIES \<le> sl - next_slot h then
       fold (\<lambda>i b. bv_set_block bv b i 0) [0..<unat HISTORY_MAX_ENTRIES div 64] (bits h)
     else fold (\<lambda>skipped b. bv_set bv b (word_of_nat skipped mod HISTORY_MAX_ENTRIES) False)
       [unat (next_slot h)..<unat sl] (bits h))"
  have add: "slot_history_add bv h sl =
      \<lparr>bits = bv_set bv b1 (sl mod HISTORY_MAX_ENTRIES) True, next_slot = sl + 1\<rparr>"
    by (simp add: slot_history_add_def Let_def b1_def)
  have wrapped: "next_slot h < sl \<and> HISTORY_MAX_ENTRIES \<le> sl - next_slot h \<longleftrightarrow>
      unat (next_slot h) + 1048576 \<le> unat sl"
    using nle by (auto simp: word_less_nat_alt word_le_nat_alt unat_sub_le unat_HISTORY_MAX_ENTRIES)
  have clear: "b1 = fold (\<lambda>i b. bv_set_block bv b i 0) [0..<unat HISTORY_MAX_ENTRIES div 64] (bits h)"
    if "unat (next_slot h) + 1048576 \<le> unat sl"
    unfolding b1_def using that wrapped by (simp only: if_True)
  have loop: "b1 = fold (\<lambda>skipped b. bv_set bv b (word_of_nat skipped mod HISTORY_MAX_ENTRIES) False)
       [unat (next_slot h)..<unat sl] (bits h)"
    if "\<not> unat (next_slot h) + 1048576 \<le> unat sl"
    unfolding b1_def using that wrapped by (simp only: if_False)
  have b1: "bv_get bv b1 (s mod HISTORY_MAX_ENTRIES) \<longleftrightarrow> s \<in> S"
    if s: "unat s < unat sl" "unat sl < unat s + 1048576" for s
  proof (cases "unat (next_slot h) + 1048576 \<le> unat sl")
    case True
    define n where "n = unat HISTORY_MAX_ENTRIES div 64"
    have "unat (s mod HISTORY_MAX_ENTRIES) div 64 < n"
      by (simp add: n_def unat_mod unat_HISTORY_MAX_ENTRIES less_mult_imp_div_less)
    moreover have "s \<notin> S" using S s True by (auto simp: word_less_nat_alt)
    moreover have "b1 = fold (\<lambda>i b. bv_set_block bv b i 0) [0..<n] (bits h)"
      using clear [OF True] by (simp add: n_def)
    ultimately show ?thesis
      using get_clear_blocks [OF laws index_bound, where n = n] by (simp add: n_def)
  next
    case False
    then have eq: "bv_get bv b1 (s mod HISTORY_MAX_ENTRIES) \<longleftrightarrow>
        (\<forall>k\<in>{unat (next_slot h)..<unat sl}.
          (word_of_nat k :: slot) mod HISTORY_MAX_ENTRIES \<noteq> s mod HISTORY_MAX_ENTRIES) \<and>
        bv_get bv (bits h) (s mod HISTORY_MAX_ENTRIES)"
      using loop get_clear_skipped [OF laws index_bound, where ks = "[unat (next_slot h)..<unat sl]"]
      by simp
    show ?thesis
    proof (cases "unat s < unat (next_slot h)")
      case True
      have "(word_of_nat k :: slot) mod HISTORY_MAX_ENTRIES \<noteq> s mod HISTORY_MAX_ENTRIES"
        if "unat (next_slot h) \<le> k" "k < unat sl" for k
        using mod_window [of "unat s" k 1048576] that True s
        by (simp add: index_eq_iff word_of_nat_below)
      then have "bv_get bv b1 (s mod HISTORY_MAX_ENTRIES) \<longleftrightarrow>
          bv_get bv (bits h) (s mod HISTORY_MAX_ENTRIES)"
        using eq by auto
      then show ?thesis
        using tr True s nle by (simp add: tracks_def unat_HISTORY_MAX_ENTRIES)
    next
      case False
      then have "\<not> bv_get bv b1 (s mod HISTORY_MAX_ENTRIES)"
        using eq s by (auto intro!: bexI [of _ "unat s"])
      moreover have "s \<notin> S" using S False by (auto simp: word_less_nat_alt)
      ultimately show ?thesis by simp
    qed
  qed
  have "bv_get bv (bv_set bv b1 (sl mod HISTORY_MAX_ENTRIES) True) (s mod HISTORY_MAX_ENTRIES) \<longleftrightarrow>
      s \<in> insert sl S" if s: "unat s < unat sl + 1" "unat sl + 1 \<le> unat s + 1048576" for s
  proof (cases "s = sl")
    case False
    then have lt: "unat s < unat sl" using s by (metis Suc_eq_plus1 less_Suc_eq word_unat_eq_iff)
    then have "s mod HISTORY_MAX_ENTRIES \<noteq> sl mod HISTORY_MAX_ENTRIES"
      using mod_window [of "unat s" "unat sl" 1048576] s by (simp add: index_eq_iff)
    then show ?thesis using b1 [OF lt] s False laws by (simp add: bv_get_set)
  qed (use laws in \<open>simp add: bv_get_set\<close>)
  then show ?thesis
    using nx by (simp add: tracks_def add unat_HISTORY_MAX_ENTRIES word_unat_eq_iff)
qed

lemma tracks_adds:
  assumes "bit_vec_laws bv" and "tracks bv h S" and "\<forall>s\<in>S. s < next_slot h"
    and "sorted_wrt (<) sls" and "\<forall>s\<in>set sls. next_slot h \<le> s \<and> s \<noteq> - 1"
  shows "tracks bv (fold (\<lambda>s h. slot_history_add bv h s) sls h) (S \<union> set sls)"
  using assms(2-)
proof (induction sls arbitrary: h S)
  case (Cons sl sls)
  let ?h = "slot_history_add bv h sl"
  have nx: "next_slot ?h = sl + 1" by (simp add: slot_history_add_def Let_def)
  have u: "unat (sl + 1) = unat sl + 1" using Cons.prems by (intro unat_plus_one) simp
  have tr: "tracks bv ?h (insert sl S)"
    using Cons.prems by (intro tracks_add [OF assms(1)]) auto
  have S: "\<forall>s\<in>insert sl S. s < next_slot ?h"
    using Cons.prems u by (fastforce simp: nx word_less_nat_alt word_le_nat_alt)
  have rest: "\<forall>s\<in>set sls. next_slot ?h \<le> s \<and> s \<noteq> - 1"
    using Cons.prems u by (auto simp: nx word_less_nat_alt word_le_nat_alt)
  show ?case using Cons.IH [OF tr S _ rest] Cons.prems by simp
qed simp

text \<open>
  C33: The ring answers as the set of slots does. Adding slots in increasing order to the default
  history, \<open>check\<close> says Found or NotFound for the last \<open>MAX_ENTRIES\<close> slots according to whether the
  slot was added, TooOld for the slots before them and Future for the slots after the last one
  added, whatever the gaps between the slots.
\<close>

theorem slot_history_refines_set:
  assumes "bit_vec_laws bv" and "sorted_wrt (<) sls" and "\<forall>s\<in>set sls. 0 < s \<and> s \<noteq> - 1"
    and "h = fold (\<lambda>s h. slot_history_add bv h s) sls (slot_history_default bv)"
  shows "slot_history_check bv h sl =
     (if last (0 # sls) < sl then Future
      else if unat sl + 1048576 \<le> unat (last (0 # sls)) then TooOld
      else if sl \<in> insert 0 (set sls) then Found
      else NotFound)"
proof -
  let ?l = "last (0 # sls)"
  have nx: "next_slot h = ?l + 1"
    using assms(4) by (cases sls rule: rev_cases)
      (auto simp: slot_history_default_def slot_history_add_def Let_def)
  have lm: "?l \<noteq> - 1" using assms(3) by (cases sls rule: rev_cases) auto
  then have u: "unat (next_slot h) = unat ?l + 1" unfolding nx by (rule unat_plus_one)
  have one: "next_slot (slot_history_default bv) = 1" by (simp add: slot_history_default_def)
  have "tracks bv h ({0} \<union> set sls)"
    unfolding assms(4) using assms(1-3)
    by (intro tracks_adds tracks_default) (auto simp: one word_le_nat_alt word_less_nat_alt Suc_le_eq)
  moreover have "newest h = ?l" by (simp add: newest_def nx)
  moreover have "unat (oldest h) = unat ?l + 1 - 1048576"
    by (simp add: oldest_def unat_saturating_sub u unat_HISTORY_MAX_ENTRIES)
  ultimately show ?thesis
    by (auto simp: slot_history_check_def tracks_def u unat_HISTORY_MAX_ENTRIES word_less_nat_alt)
qed

text \<open>A concrete bit vector, for the witness: a function from indices to bits.\<close>

definition fun_bit_vec :: "(u64 \<Rightarrow> bool) bit_vec" where
  "fun_bit_vec = \<lparr>bv_new_fill = (\<lambda>v _ _. v), bv_get = (\<lambda>b i. b i), bv_set = (\<lambda>b i v. b(i := v)),
     bv_set_block = (\<lambda>b k w j. if unat j div 64 = k then bit w (unat j mod 64) else b j)\<rparr>"

theorem slot_history_refines_set_witness:
  "\<exists>h. h = fold (\<lambda>s h. slot_history_add fun_bit_vec h s) [2, 5, 2000000]
             (slot_history_default fun_bit_vec) \<and>
      slot_history_check fun_bit_vec h 2000001 = Future \<and>
      slot_history_check fun_bit_vec h 5 = TooOld \<and>
      slot_history_check fun_bit_vec h 2000000 = Found \<and>
      slot_history_check fun_bit_vec h 1999999 = NotFound"
proof -
  have laws: "bit_vec_laws fun_bit_vec" by (simp add: bit_vec_laws_def fun_bit_vec_def)
  obtain h where h: "h = fold (\<lambda>s h. slot_history_add fun_bit_vec h s) [2, 5, 2000000]
      (slot_history_default fun_bit_vec)" by blast
  have "sorted_wrt (<) [2, 5, 2000000::slot]" and "\<forall>s\<in>set [2, 5, 2000000::slot]. 0 < s \<and> s \<noteq> - 1"
    by simp_all
  note r = slot_history_refines_set [OF laws this h]
  have "slot_history_check fun_bit_vec h 2000001 = Future"
    and "slot_history_check fun_bit_vec h 5 = TooOld"
    and "slot_history_check fun_bit_vec h 2000000 = Found"
    and "slot_history_check fun_bit_vec h 1999999 = NotFound"
    by (simp_all add: r)
  with h show ?thesis by blast
qed

end
