(* ===== verification/Rust_Collections.thy ===== *)
theory Rust_Collections
  imports Rust_Prelude
begin

text \<open>
  The collections of the Rust standard library that the components share: \<open>binary_search_by\<close>
  on slices, \<open>BTreeMap\<close> as an association list in ascending order of the keys, and the contract
  of a map that the clients of \<open>BTreeMap\<close> and of the sorted slices rely on.
\<close>

section \<open>Binary search\<close>

datatype ordering = Less | Equal | Greater

definition cmp :: "'a::linorder \<Rightarrow> 'a \<Rightarrow> ordering" where
  "cmp a b = (if a < b then Less else if a = b then Equal else Greater)"

lemma cmp_iff [simp]:
  "cmp a b = Less \<longleftrightarrow> a < b"
  "cmp a b = Equal \<longleftrightarrow> a = b"
  "cmp a b = Greater \<longleftrightarrow> b < a"
  by (auto simp: cmp_def)

text \<open>
  \<open>slice::binary_search_by\<close> of the Rust release that the repository is built with
  (\<open>ci/rust-version.sh\<close>): the part of the slice that is left is the one from \<open>left\<close> up to
  \<open>right\<close>, and the search returns as soon as it meets an equal element.
\<close>

function bs_loop :: "('a \<Rightarrow> ordering) \<Rightarrow> 'a list \<Rightarrow> nat \<Rightarrow> nat \<Rightarrow> (nat, nat) result" where
  "bs_loop f xs left right =
     (if left < right then
        let mid = left + (right - left) div 2
        in (case f (xs ! mid) of
              Less \<Rightarrow> bs_loop f xs (mid + 1) right
            | Greater \<Rightarrow> bs_loop f xs left mid
            | Equal \<Rightarrow> Ok mid)
      else Err left)"
  by pat_completeness auto

termination
  by (relation "measure (\<lambda>(f, xs, left, right). right - left)") auto

declare bs_loop.simps [simp del]

definition binary_search_by :: "('a \<Rightarrow> ordering) \<Rightarrow> 'a list \<Rightarrow> (nat, nat) result" where
  "binary_search_by f xs = bs_loop f xs 0 (length xs)"

text \<open>
  A slice is partitioned by \<open>f\<close> when the elements that are \<open>Less\<close> come first and the ones that
  are \<open>Greater\<close> last, which is what the standard library asks of its argument.
\<close>

definition partitioned :: "('a \<Rightarrow> ordering) \<Rightarrow> 'a list \<Rightarrow> bool" where
  "partitioned f xs \<longleftrightarrow>
     (\<forall>i j. i < j \<and> j < length xs \<longrightarrow>
        (f (xs ! i) = Greater \<longrightarrow> f (xs ! j) = Greater) \<and>
        (f (xs ! j) = Less \<longrightarrow> f (xs ! i) = Less) \<and>
        (f (xs ! i) = Equal \<longrightarrow> f (xs ! j) = Greater))"

lemma partitioned_Greater:
  "partitioned f xs \<Longrightarrow> f (xs ! i) = Greater \<Longrightarrow> i \<le> j \<Longrightarrow> j < length xs \<Longrightarrow> f (xs ! j) = Greater"
  unfolding le_less partitioned_def by blast

lemma partitioned_Less:
  "partitioned f xs \<Longrightarrow> f (xs ! j) = Less \<Longrightarrow> i \<le> j \<Longrightarrow> j < length xs \<Longrightarrow> f (xs ! i) = Less"
  unfolding le_less partitioned_def by blast

lemma bs_loop_Ok:
  "bs_loop f xs left right = Ok i \<Longrightarrow> i < right \<and> f (xs ! i) = Equal"
proof (induction f xs left right rule: bs_loop.induct)
  case (1 f xs left right)
  let ?mid = "left + (right - left) div 2"
  have lt: "left < right" using "1.prems" by (subst (asm) bs_loop.simps) (simp split: if_splits)
  show ?case
    using "1.prems" "1.IH" [OF lt refl] lt
    by (subst (asm) (1) bs_loop.simps) (fastforce simp: Let_def split: ordering.splits)
qed

lemma bs_loop_Err:
  assumes "partitioned f xs"
  shows "bs_loop f xs left right = Err i \<Longrightarrow> left \<le> right \<Longrightarrow> right \<le> length xs \<Longrightarrow>
    \<forall>j<left. f (xs ! j) = Less \<Longrightarrow> \<forall>j<length xs. right \<le> j \<longrightarrow> f (xs ! j) = Greater \<Longrightarrow>
    i \<le> length xs \<and> (\<forall>j<i. f (xs ! j) = Less) \<and> (\<forall>j<length xs. i \<le> j \<longrightarrow> f (xs ! j) = Greater)"
proof (induction "right - left" arbitrary: left right rule: less_induct)
  case less
  let ?mid = "left + (right - left) div 2"
  show ?case
  proof (cases "left < right")
    case False
    with less.prems show ?thesis by (subst (asm) bs_loop.simps) simp
  next
    case True
    then have mid: "?mid < right" by simp
    then have "?mid < length xs" using less.prems(3) by simp
    show ?thesis
    proof (cases "f (xs ! ?mid)")
      case Less
      then have "bs_loop f xs (?mid + 1) right = Err i"
        using less.prems(1) True by (subst (asm) bs_loop.simps) (simp add: Let_def)
      moreover have "\<forall>j<?mid + 1. f (xs ! j) = Less"
        using partitioned_Less [OF assms Less] \<open>?mid < length xs\<close> by simp
      ultimately show ?thesis using mid less.prems(3,5) by (intro less.hyps) simp_all
    next
      case Greater
      then have "bs_loop f xs left ?mid = Err i"
        using less.prems(1) True by (subst (asm) bs_loop.simps) (simp add: Let_def)
      moreover have "\<forall>j<length xs. ?mid \<le> j \<longrightarrow> f (xs ! j) = Greater"
        using partitioned_Greater [OF assms Greater] by simp
      ultimately show ?thesis using mid True \<open>?mid < length xs\<close> less.prems(4) by (intro less.hyps) simp_all
    next
      case Equal
      then show ?thesis using less.prems(1) True by (subst (asm) bs_loop.simps) (simp add: Let_def)
    qed
  qed
qed

lemma bs_loop_total: "bs_loop f xs left right \<noteq> Panic"
  by (induction f xs left right rule: bs_loop.induct) (subst bs_loop.simps, simp add: Let_def split: ordering.splits)

lemma binary_search_by_Ok: "binary_search_by f xs = Ok i \<Longrightarrow> i < length xs \<and> f (xs ! i) = Equal"
  unfolding binary_search_by_def by (rule bs_loop_Ok)

lemma binary_search_by_Err:
  assumes "partitioned f xs" and "binary_search_by f xs = Err i"
  shows "i \<le> length xs \<and> (\<forall>j<i. f (xs ! j) = Less) \<and> (\<forall>j<length xs. i \<le> j \<longrightarrow> f (xs ! j) = Greater)"
  using assms(2) unfolding binary_search_by_def by (rule bs_loop_Err [OF assms(1)]) simp_all

lemma binary_search_by_total: "binary_search_by f xs \<noteq> Panic"
  unfolding binary_search_by_def by (rule bs_loop_total)

section \<open>Maps in the order of their keys\<close>

text \<open>
  The contract that the clients of an ordered map rely on: \<open>lookup\<close> after \<open>update\<close> and after
  \<open>purge\<close>, which drops the keys below a bound, and \<open>below\<close>, the greatest entry under a bound.
\<close>

locale ordered_map =
  fixes invar :: "'m \<Rightarrow> bool"
    and lookup :: "'m \<Rightarrow> 'k::linorder \<Rightarrow> 'v option"
    and update :: "'k \<Rightarrow> 'v \<Rightarrow> 'm \<Rightarrow> 'm"
    and purge :: "'k \<Rightarrow> 'm \<Rightarrow> 'm"
    and below :: "'m \<Rightarrow> 'k \<Rightarrow> ('k \<times> 'v) option"
  assumes invar_update: "invar m \<Longrightarrow> invar (update k v m)"
    and invar_purge: "invar m \<Longrightarrow> invar (purge k m)"
    and lookup_update: "invar m \<Longrightarrow> lookup (update k v m) j = (if j = k then Some v else lookup m j)"
    and lookup_purge: "invar m \<Longrightarrow> lookup (purge k m) j = (if j < k then None else lookup m j)"
    and below_Some: "invar m \<Longrightarrow> below m k = Some (j, v) \<Longrightarrow>
          j < k \<and> lookup m j = Some v \<and> (\<forall>i. j < i \<and> i < k \<longrightarrow> lookup m i = None)"
    and below_None: "invar m \<Longrightarrow> below m k = None \<Longrightarrow> i < k \<Longrightarrow> lookup m i = None"
begin

text \<open>The value in force at a key: its own, or the one of the greatest key below.\<close>

definition in_force :: "'m \<Rightarrow> 'k \<Rightarrow> 'v option" where
  "in_force m k = (case lookup m k of Some v \<Rightarrow> Some v | None \<Rightarrow> map_option snd (below m k))"

lemma in_force_latest:
  assumes "invar m" and "j \<le> k" and "lookup m j = Some v" and "\<And>i. j < i \<Longrightarrow> i \<le> k \<Longrightarrow> lookup m i = None"
  shows "in_force m k = Some v"
proof (cases "j = k")
  case False
  then have jk: "j < k" "lookup m k = None" using assms(2,4) by auto
  show ?thesis
  proof (cases "below m k")
    case None
    then show ?thesis using below_None [OF assms(1) None jk(1)] assms(3) by simp
  next
    case (Some p)
    obtain l w where p: "p = (l, w)" by fastforce
    have l: "l < k" "lookup m l = Some w" "\<And>i. l < i \<Longrightarrow> i < k \<Longrightarrow> lookup m i = None"
      using below_Some [OF assms(1)] Some p by auto
    have "l = j"
    proof (rule linorder_cases [of l j])
      assume "l < j" then show ?thesis using l(3) [of j] jk assms(3) by simp
    next
      assume "j < l" then show ?thesis using assms(4) [of l] l by (simp add: less_imp_le)
    qed
    then show ?thesis using l assms(3) jk Some p by (simp add: in_force_def)
  qed
qed (use assms in \<open>simp add: in_force_def\<close>)

lemma in_force_SomeE:
  assumes "invar m" and "in_force m k = Some v"
  obtains j where "j \<le> k" and "lookup m j = Some v" and "\<And>i. j < i \<Longrightarrow> i \<le> k \<Longrightarrow> lookup m i = None"
proof (cases "lookup m k")
  case (Some w)
  then show thesis using assms(2) that [of k] by (simp add: in_force_def)
next
  case None
  then obtain j where j: "below m k = Some (j, v)" using assms(2) by (auto simp: in_force_def)
  note b = below_Some [OF assms(1) j]
  have "lookup m i = None" if "j < i" "i \<le> k" for i using b None that by (cases "i = k") auto
  then show thesis using b that [of j] by (simp add: less_imp_le)
qed

lemma in_force_NoneD:
  assumes "invar m" and "in_force m k = None" and "j \<le> k"
  shows "lookup m j = None"
  using assms below_None [OF assms(1), of k j]
  by (cases "j = k") (auto simp: in_force_def split: option.splits)

lemma in_force_NoneI:
  assumes "invar m" and "\<And>j. j \<le> k \<Longrightarrow> lookup m j = None"
  shows "in_force m k = None"
proof (cases "in_force m k")
  case (Some v)
  then obtain j where "j \<le> k" "lookup m j = Some v" using in_force_SomeE [OF assms(1)] by blast
  then show ?thesis using assms(2) by simp
qed

text \<open>Between two keys with no entry the value in force stays.\<close>

lemma in_force_gap:
  assumes "invar m" and "a \<le> k" and none: "\<And>i. a < i \<Longrightarrow> i \<le> k \<Longrightarrow> lookup m i = None"
  shows "in_force m k = in_force m a"
proof (cases "in_force m a")
  case None
  then have "lookup m j = None" if "j \<le> k" for j
    using in_force_NoneD [OF assms(1) None, of j] none [of j] that by (cases "j \<le> a") auto
  then show ?thesis using None in_force_NoneI [OF assms(1)] by simp
next
  case (Some v)
  then obtain j where j: "j \<le> a" "lookup m j = Some v" "\<And>i. j < i \<Longrightarrow> i \<le> a \<Longrightarrow> lookup m i = None"
    using in_force_SomeE [OF assms(1)] by blast
  have "lookup m i = None" if "j < i" "i \<le> k" for i using j(3) none that by (cases "i \<le> a") auto
  then show ?thesis using in_force_latest [OF assms(1) _ j(2), of k] j(1) assms(2) Some by simp
qed

text \<open>Two maps with the same entries after \<open>a\<close>, which agree at \<open>a\<close>, agree after it.\<close>

lemma in_force_cong:
  assumes "invar m" and "invar m'" and "a \<le> k" and "in_force m a = in_force m' a"
    and same: "\<And>i. a < i \<Longrightarrow> i \<le> k \<Longrightarrow> lookup m i = lookup m' i"
  shows "in_force m k = in_force m' k"
proof (cases "\<exists>i. a < i \<and> i \<le> k \<and> lookup m i \<noteq> None")
  case False
  then have none: "lookup m i = None" "lookup m' i = None" if "a < i" "i \<le> k" for i
    using same [of i] that by auto
  then have "in_force m k = in_force m a" "in_force m' k = in_force m' a"
    by (simp_all only: in_force_gap [OF assms(1,3)] in_force_gap [OF assms(2,3)])
  then show ?thesis using assms(4) by simp
next
  case True
  then obtain i where i: "a < i" "i \<le> k" "lookup m i \<noteq> None" by blast
  then obtain v where v: "in_force m k = Some v" using in_force_NoneD [OF assms(1)] by fastforce
  then obtain j where j: "j \<le> k" "lookup m j = Some v" "\<And>i. j < i \<Longrightarrow> i \<le> k \<Longrightarrow> lookup m i = None"
    using in_force_SomeE [OF assms(1)] by blast
  have "a < j" using i j(3) [of i] by (cases "j < i") auto
  then have "lookup m' j = Some v" "lookup m' i = None" if "j < i" "i \<le> k" for i
    using j(1,2) same [of j] same [of i] j(3) [of i] that by auto
  moreover have "lookup m' j = Some v" using \<open>a < j\<close> j(1,2) same [of j] by simp
  ultimately have "in_force m' k = Some v" using in_force_latest [OF assms(2) j(1)] by blast
  then show ?thesis using v by simp
qed

text \<open>Writing the value in force at \<open>k\<close> and dropping the keys below \<open>k\<close> changes nothing from \<open>k\<close> on.\<close>

lemma in_force_at: "lookup m k = Some v \<Longrightarrow> in_force m k = Some v"
  by (simp add: in_force_def)

lemma in_force_cache:
  assumes "invar m" and "in_force m k = Some v" and "k \<le> j"
  shows "in_force (purge k (update k v m)) j = in_force m j"
proof -
  have i: "invar (purge k (update k v m))" using assms(1) by (simp add: invar_update invar_purge)
  have l: "lookup (purge k (update k v m)) i =
      (if i < k then None else if i = k then Some v else lookup m i)" for i
    using assms(1) by (simp add: invar_update lookup_update lookup_purge)
  have "in_force (purge k (update k v m)) k = in_force m k"
    using in_force_at [of "purge k (update k v m)" k v] l assms(2) by simp
  moreover have "lookup (purge k (update k v m)) i = lookup m i" if "k < i" for i
    using l [of i] that by (auto split: if_splits)
  ultimately show ?thesis using in_force_cong [OF i assms(1,3)] by blast
qed

lemma in_force_update:
  assumes "invar m" and "\<And>i. t < i \<Longrightarrow> lookup m i = None"
  shows "in_force (update t v m) j = (if t \<le> j then Some v else in_force m j)"
proof (cases "t \<le> j")
  case True
  then show ?thesis
    using assms by (auto simp: lookup_update invar_update intro!: in_force_latest [where j = t])
next
  case False
  have m': "invar (update t v m)" using assms(1) by (rule invar_update)
  have same: "lookup (update t v m) i = lookup m i" if "i \<le> j" for i
    using that False assms(1) by (auto simp: lookup_update)
  show ?thesis
  proof (cases "in_force m j")
    case None
    then show ?thesis
      using False same in_force_NoneD [OF assms(1) None] in_force_NoneI [OF m', of j] by simp
  next
    case (Some w)
    then obtain l where "l \<le> j" "lookup m l = Some w" "\<And>i. l < i \<Longrightarrow> i \<le> j \<Longrightarrow> lookup m i = None"
      using in_force_SomeE [OF assms(1)] by blast
    then show ?thesis
      using False same Some in_force_latest [OF m', of l j w] by simp
  qed
qed

end

section \<open>BTreeMap\<close>

text \<open>
  A \<open>BTreeMap\<close> iterates in ascending order of the keys, so it is the list of its entries in that
  order. \<open>btree_range_to\<close> is \<open>range(0..k)\<close>, whose last entry \<open>next_back\<close> gives.
\<close>

type_synonym ('k, 'v) btree_map = "('k \<times> 'v) list"

definition btree_sorted :: "('k::linorder, 'v) btree_map \<Rightarrow> bool" where
  "btree_sorted m \<longleftrightarrow> sorted_wrt (<) (map fst m)"

definition btree_get :: "('k, 'v) btree_map \<Rightarrow> 'k \<Rightarrow> 'v option" where
  "btree_get m k = map_of m k"

fun btree_insert :: "'k::linorder \<Rightarrow> 'v \<Rightarrow> ('k, 'v) btree_map \<Rightarrow> ('k, 'v) btree_map" where
  "btree_insert k v [] = [(k, v)]"
| "btree_insert k v ((j, w) # m) =
     (if k < j then (k, v) # (j, w) # m
      else if k = j then (k, v) # m
      else (j, w) # btree_insert k v m)"

definition btree_remove :: "'k \<Rightarrow> ('k, 'v) btree_map \<Rightarrow> ('k, 'v) btree_map" where
  "btree_remove k m = filter (\<lambda>(j, _). j \<noteq> k) m"

definition btree_range_to :: "'k::linorder \<Rightarrow> ('k, 'v) btree_map \<Rightarrow> ('k \<times> 'v) list" where
  "btree_range_to k m = filter (\<lambda>(j, _). j < k) m"

definition btree_purge :: "'k::linorder \<Rightarrow> ('k, 'v) btree_map \<Rightarrow> ('k, 'v) btree_map" where
  "btree_purge k m = fold btree_remove (map fst (btree_range_to k m)) m"

definition btree_below :: "('k::linorder, 'v) btree_map \<Rightarrow> 'k \<Rightarrow> ('k \<times> 'v) option" where
  "btree_below m k = last_opt (btree_range_to k m)"

lemma btree_sorted_simps [simp]:
  "btree_sorted []"
  "btree_sorted ((k, v) # m) \<longleftrightarrow> (\<forall>j\<in>fst ` set m. k < j) \<and> btree_sorted m"
  by (simp_all add: btree_sorted_def)

lemma btree_get_simps [simp]:
  "btree_get [] k = None"
  "btree_get ((j, v) # m) k = (if k = j then Some v else btree_get m k)"
  by (simp_all add: btree_get_def)

lemma btree_get_None: "(\<forall>j\<in>fst ` set m. k < j) \<Longrightarrow> btree_get (m :: ('k::linorder, 'v) btree_map) k = None"
  by (induction m) auto

lemma btree_get_Some_iff:
  "btree_sorted m \<Longrightarrow> btree_get m k = Some v \<longleftrightarrow> (k, v) \<in> set m"
  unfolding btree_get_def btree_sorted_def
  by (intro map_of_eq_Some_iff) (simp add: strict_sorted_iff)

lemma btree_insert_keys: "fst ` set (btree_insert k v m) = insert k (fst ` set m)"
  by (induction k v m rule: btree_insert.induct) auto

lemma btree_insert_sorted: "btree_sorted m \<Longrightarrow> btree_sorted (btree_insert k v m)"
  by (induction k v m rule: btree_insert.induct) (auto simp: btree_insert_keys)

lemma btree_get_insert:
  "btree_get (btree_insert k v m) j = (if j = k then Some v else btree_get m j)"
  by (induction k v m rule: btree_insert.induct) auto

lemma btree_sorted_filter: "btree_sorted m \<Longrightarrow> btree_sorted (filter P m)"
  unfolding btree_sorted_def by (induction m) auto

lemma fold_btree_remove: "fold btree_remove ks m = filter (\<lambda>(j, _). j \<notin> set ks) m"
  by (induction ks arbitrary: m) (auto simp: btree_remove_def case_prod_beta intro: filter_cong)

lemma btree_purge_eq: "btree_purge k m = filter (\<lambda>(j, _). \<not> j < k) m"
  unfolding btree_purge_def fold_btree_remove btree_range_to_def
  by (rule filter_cong) force+

lemma btree_get_purge: "btree_get (btree_purge k m) j = (if j < k then None else btree_get m j)"
  unfolding btree_purge_eq by (induction m) (auto split: if_splits)

lemma last_opt_filter_sorted:
  assumes "btree_sorted m" and "last_opt (filter (\<lambda>(j, _). j < k) m) = Some (j, v)"
  shows "j < k \<and> (j, v) \<in> set m \<and> (\<forall>i\<in>fst ` set m. j < i \<longrightarrow> \<not> i < k)"
  using assms
proof (induction m)
  case (Cons p m)
  obtain l w where p: "p = (l, w)" by fastforce
  show ?case
  proof (cases "filter (\<lambda>(j, _). j < k) m = []")
    case True
    then have "\<forall>i\<in>fst ` set m. \<not> i < k" by (auto simp: filter_empty_conv)
    then show ?thesis using Cons.prems p True by (auto split: if_splits)
  next
    case False
    then have "last_opt (filter (\<lambda>(j, _). j < k) m) = Some (j, v)"
      using Cons.prems p by (auto simp: last_opt_Some_iff split: if_splits)
    then have IH: "j < k" "(j, v) \<in> set m" "\<forall>i\<in>fst ` set m. j < i \<longrightarrow> \<not> i < k"
      using Cons by (auto simp: p)
    then have "l < j" using Cons.prems p by force
    then show ?thesis using IH p by auto
  qed
qed simp

lemma btree_purge_sorted: "btree_sorted m \<Longrightarrow> btree_sorted (btree_purge k m)"
  unfolding btree_purge_eq by (rule btree_sorted_filter)

lemma btree_get_None_iff: "btree_get m k = None \<longleftrightarrow> k \<notin> fst ` set m"
  by (simp add: btree_get_def map_of_eq_None_iff)

lemma btree_below_Some:
  assumes "btree_sorted m" and "btree_below m k = Some (j, v)"
  shows "j < k \<and> btree_get m j = Some v \<and> (\<forall>i. j < i \<and> i < k \<longrightarrow> btree_get m i = None)"
proof -
  have l: "j < k" "(j, v) \<in> set m" "\<forall>i\<in>fst ` set m. j < i \<longrightarrow> \<not> i < k"
    using last_opt_filter_sorted [OF assms(1) assms(2) [unfolded btree_below_def btree_range_to_def]]
    by simp_all
  then have "btree_get m i = None" if "j < i" "i < k" for i
    using that unfolding btree_get_None_iff by blast
  then show ?thesis using l assms(1) by (simp add: btree_get_Some_iff)
qed

lemma btree_below_None:
  assumes "btree_below m k = None" and "i < k"
  shows "btree_get m i = None"
proof -
  have "\<forall>p\<in>set m. \<not> fst p < k"
    using assms(1) by (simp add: btree_below_def btree_range_to_def filter_empty_conv case_prod_beta)
  then show ?thesis using assms(2) unfolding btree_get_None_iff by blast
qed

interpretation btree: ordered_map btree_sorted btree_get btree_insert btree_purge btree_below
  by (unfold_locales; (rule btree_insert_sorted btree_purge_sorted btree_get_insert btree_get_purge
      btree_below_Some btree_below_None; assumption))

end
