(* ===== verification/Slot_Hashes.thy ===== *)
theory Slot_Hashes
  imports Rust_Collections
begin

text \<open>
  The bank hashes of the most recent slots (\<open>sdk/program/src/slot_hashes.rs\<close>): a vector in
  descending order of the slots, searched by bisection and cut to \<open>MAX_ENTRIES\<close>.
\<close>

section \<open>Definitions\<close>

type_synonym slot_hashes = "(slot \<times> hash) list"

definition SLOT_HASHES_MAX_ENTRIES :: nat where
  "SLOT_HASHES_MAX_ENTRIES = 512"

definition slot_hashes_add :: "slot_hashes \<Rightarrow> slot \<Rightarrow> hash \<Rightarrow> slot_hashes" where
  "slot_hashes_add shs sl h =
     take SLOT_HASHES_MAX_ENTRIES
       (case binary_search_by (\<lambda>(probe, _). cmp sl probe) shs of
          Ok index \<Rightarrow> shs[index := (sl, h)]
        | Err index \<Rightarrow> take index shs @ (sl, h) # drop index shs
        | Panic \<Rightarrow> shs)"

definition slot_hashes_get :: "slot_hashes \<Rightarrow> slot \<Rightarrow> hash option" where
  "slot_hashes_get shs sl =
     (case binary_search_by (\<lambda>(probe, _). cmp sl probe) shs of
        Ok index \<Rightarrow> Some (snd (shs ! index))
      | _ \<Rightarrow> None)"

definition slot_hashes_new :: "(slot \<times> hash) list \<Rightarrow> slot_hashes" where
  "slot_hashes_new shs = rev (sort_key fst (rev shs))"

text \<open>The order of the vector: slots strictly descending.\<close>

definition descending :: "slot_hashes \<Rightarrow> bool" where
  "descending shs \<longleftrightarrow> sorted_wrt (>) (map fst shs)"

section \<open>Lemmas\<close>

lemma descending_nth:
  "descending shs \<Longrightarrow> i < j \<Longrightarrow> j < length shs \<Longrightarrow> fst (shs ! j) < fst (shs ! i)"
  by (auto simp: descending_def sorted_wrt_iff_nth_less)

lemma descending_distinct: "descending shs \<Longrightarrow> distinct (map fst shs)"
  unfolding descending_def by (induction shs) auto

lemma descending_partitioned:
  "descending shs \<Longrightarrow> partitioned (\<lambda>(probe, _). cmp sl probe) shs"
  unfolding partitioned_def
  by (auto simp: case_prod_beta dest!: descending_nth)

lemma slot_hashes_get_map_of:
  assumes "descending shs"
  shows "slot_hashes_get shs sl = map_of shs sl"
proof (cases "binary_search_by (\<lambda>(probe, _). cmp sl probe) shs")
  case (Ok i)
  then have i: "i < length shs" "fst (shs ! i) = sl"
    using binary_search_by_Ok [OF Ok]
    by (auto simp: case_prod_beta)
  then have "map_of shs sl = Some (snd (shs ! i))"
    using assms by (auto simp: descending_distinct in_set_conv_nth)
  then show ?thesis using Ok by (simp add: slot_hashes_get_def)
next
  case (Err i)
  note e = binary_search_by_Err [OF descending_partitioned [OF assms] Err]
  have "fst (shs ! j) \<noteq> sl" if "j < length shs" for j
    using e that by (cases "j < i") (auto simp: case_prod_beta)
  then have "map_of shs sl = None"
    by (fastforce simp: map_of_eq_None_iff in_set_conv_nth)
  then show ?thesis using Err by (simp add: slot_hashes_get_def)
qed (simp add: binary_search_by_total)

text \<open>\<open>add\<close> before it cuts the vector: the entry is replaced, or inserted where the order wants it.\<close>

definition add_untruncated :: "slot_hashes \<Rightarrow> slot \<Rightarrow> hash \<Rightarrow> slot_hashes" where
  "add_untruncated shs sl h =
     filter (\<lambda>p. sl < fst p) shs @ (sl, h) # filter (\<lambda>p. fst p < sl) shs"

lemma filter_by_index:
  assumes "\<forall>j<i. P (xs ! j)" and "\<forall>j<length xs. i \<le> j \<longrightarrow> \<not> P (xs ! j)" and "i \<le> length xs"
  shows "filter P xs = take i xs" and "filter (\<lambda>x. \<not> P x) xs = drop i xs"
proof -
  have "\<forall>x\<in>set (take i xs). P x" using assms(1,3) by (auto simp: in_set_conv_nth)
  moreover have "\<forall>x\<in>set (drop i xs). \<not> P x" using assms(2) by (auto simp: in_set_conv_nth)
  ultimately have "filter P (take i xs @ drop i xs) = take i xs"
      "filter (\<lambda>x. \<not> P x) (take i xs @ drop i xs) = drop i xs"
    unfolding filter_append by (auto simp: filter_empty_conv filter_id_conv)
  then show "filter P xs = take i xs" "filter (\<lambda>x. \<not> P x) xs = drop i xs" by simp_all
qed

lemma add_eq_untruncated:
  assumes "descending shs"
  shows "slot_hashes_add shs sl h = take SLOT_HASHES_MAX_ENTRIES (add_untruncated shs sl h)"
proof (cases "binary_search_by (\<lambda>(probe, _). cmp sl probe) shs")
  case (Ok i)
  then have i: "i < length shs" "fst (shs ! i) = sl"
    using binary_search_by_Ok [OF Ok]
    by (auto simp: case_prod_beta)
  have gt: "\<forall>j<i. sl < fst (shs ! j)" using descending_nth [OF assms] i by auto
  have lt: "\<forall>j<length shs. i < j \<longrightarrow> fst (shs ! j) < sl" using descending_nth [OF assms] i by auto
  have "filter (\<lambda>p. sl < fst p) shs = take i shs"
    using gt lt i by (intro filter_by_index) (auto simp: le_less)
  moreover have "filter (\<lambda>p. \<not> (sl \<le> fst p)) shs = drop (Suc i) shs"
    using gt lt i by (intro filter_by_index(2)) (auto simp: less_Suc_eq Suc_le_eq less_imp_le)
  ultimately show ?thesis
    using Ok i(1) by (simp add: slot_hashes_add_def add_untruncated_def upd_conv_take_nth_drop not_le)
next
  case (Err i)
  note e = binary_search_by_Err [OF descending_partitioned [OF assms] Err]
  have e': "\<forall>j<i. sl < fst (shs ! j)" "\<forall>j<length shs. i \<le> j \<longrightarrow> fst (shs ! j) < sl" "i \<le> length shs"
    using e by (auto simp: case_prod_beta)
  have "filter (\<lambda>p. sl < fst p) shs = take i shs"
    using e' by (intro filter_by_index) auto
  moreover have "filter (\<lambda>p. \<not> (sl \<le> fst p)) shs = drop i shs"
    using e' by (intro filter_by_index(2)) (auto simp: less_imp_le)
  ultimately show ?thesis
    using Err by (simp add: slot_hashes_add_def add_untruncated_def not_le)
qed (simp add: binary_search_by_total)

lemma descending_Cons: "descending (p # shs) \<longleftrightarrow> (\<forall>q\<in>set shs. fst q < fst p) \<and> descending shs"
  by (auto simp: descending_def)

lemma descending_append:
  "descending (xs @ ys) \<longleftrightarrow> descending xs \<and> descending ys \<and> (\<forall>p\<in>set xs. \<forall>q\<in>set ys. fst q < fst p)"
  by (auto simp: descending_def sorted_wrt_append)

lemma descending_filter: "descending shs \<Longrightarrow> descending (filter P shs)"
  by (induction shs) (auto simp: descending_Cons)

lemma descending_take: "descending shs \<Longrightarrow> descending (take n shs)"
  by (simp add: descending_def take_map [symmetric] sorted_wrt_take)

lemma descending_add_untruncated: "descending shs \<Longrightarrow> descending (add_untruncated shs sl h)"
  by (auto simp: add_untruncated_def descending_append descending_Cons descending_filter)

lemma map_of_add_untruncated: "map_of (add_untruncated shs sl h) k = ((map_of shs)(sl \<mapsto> h)) k"
proof -
  have gt: "map_of (filter (\<lambda>p. sl < fst p) shs) k = (if sl < k then map_of shs k else None)"
    by (induction shs) auto
  have lt: "map_of (filter (\<lambda>p. fst p < sl) shs) k = (if k < sl then map_of shs k else None)"
    by (induction shs) auto
  show ?thesis
    by (auto simp: add_untruncated_def map_add_def gt lt split: option.splits)
qed

text \<open>Cutting a descending vector keeps the entries with fewer than \<open>n\<close> greater slots.\<close>

lemma map_of_take_descending:
  assumes "descending shs"
  shows "map_of (take n shs) k =
    (if card {j \<in> dom (map_of shs). k < j} < n then map_of shs k else None)"
  using assms
proof (induction shs arbitrary: n)
  case (Cons p shs)
  obtain a v where p: "p = (a, v)" by fastforce
  have below: "\<forall>j\<in>dom (map_of shs). j < a"
    using Cons.prems by (fastforce simp: p descending_Cons dest: map_of_SomeD)
  show ?case
  proof (cases n)
    case (Suc m)
    show ?thesis
    proof (rule linorder_cases [of k a])
      assume "k = a"
      moreover have none: "{j \<in> dom (map_of (p # shs)). a < j} = {}"
        using below by (auto simp: p dest!: bspec split: if_splits)
      ultimately show ?thesis by (simp only: none) (simp add: p Suc)
    next
      assume k: "k < a"
      then have "{j \<in> dom (map_of (p # shs)). k < j} = insert a {j \<in> dom (map_of shs). k < j}"
        by (auto simp: p)
      moreover have "a \<notin> {j \<in> dom (map_of shs). k < j}" using below by auto
      moreover have "finite {j \<in> dom (map_of shs). k < j}" by (simp add: finite_dom_map_of)
      ultimately have c: "card {j \<in> dom (map_of (p # shs)). k < j} =
          Suc (card {j \<in> dom (map_of shs). k < j})"
        by simp
      have "map_of (take m shs) k =
          (if card {j \<in> dom (map_of shs). k < j} < m then map_of shs k else None)"
        using Cons by (simp add: p descending_Cons)
      then show ?thesis using k unfolding c by (auto simp: p Suc)
    next
      assume k: "a < k"
      have "map_of shs k = None" using below k by (meson domIff less_asym)
      then have "map_of (take m shs) k = None"
        unfolding map_of_eq_None_iff by (auto dest: in_set_takeD)
      then show ?thesis using k \<open>map_of shs k = None\<close> by (auto simp: p Suc)
    qed
  qed simp
qed simp

text \<open>
  C34: The slot hashes are a map that remembers the 512 greatest slots. On a vector in descending
  order, \<open>add\<close> keeps the order and the bound on the length, and \<open>get\<close> after \<open>add\<close> finds exactly the
  entries of the updated map that fewer than 512 slots exceed.
\<close>

theorem slot_hashes_add_get:
  assumes "descending shs"
  shows "descending (slot_hashes_add shs sl h) \<and>
     length (slot_hashes_add shs sl h) \<le> SLOT_HASHES_MAX_ENTRIES \<and>
     slot_hashes_get (slot_hashes_add shs sl h) k =
       (let m = (slot_hashes_get shs)(sl \<mapsto> h)
        in if card {j \<in> dom m. k < j} < SLOT_HASHES_MAX_ENTRIES then m k else None)"
proof -
  have d: "descending (slot_hashes_add shs sl h)"
    using assms by (simp add: add_eq_untruncated descending_take descending_add_untruncated)
  have m: "map_of (add_untruncated shs sl h) = (slot_hashes_get shs)(sl \<mapsto> h)"
    using assms by (auto simp: map_of_add_untruncated slot_hashes_get_map_of)
  have "slot_hashes_get (slot_hashes_add shs sl h) k =
      map_of (take SLOT_HASHES_MAX_ENTRIES (add_untruncated shs sl h)) k"
    using slot_hashes_get_map_of [OF d] assms by (simp add: add_eq_untruncated)
  also have "\<dots> = (let m = (slot_hashes_get shs)(sl \<mapsto> h)
        in if card {j \<in> dom m. k < j} < SLOT_HASHES_MAX_ENTRIES then m k else None)"
    using assms by (simp only: map_of_take_descending descending_add_untruncated m Let_def)
  finally show ?thesis using d assms by (simp add: add_eq_untruncated)
qed

theorem slot_hashes_add_get_witness:
  "descending [(9, 1), (4, 2)] \<and> slot_hashes_get (slot_hashes_add [(9, 1), (4, 2)] 7 3) 4 = Some 2"
proof -
  have d: "descending [(9, 1), (4, 2)]" by (simp add: descending_def)
  let ?m = "(slot_hashes_get [(9, 1), (4, 2)])(7 \<mapsto> 3)"
  have m: "?m = [9 \<mapsto> 1, 4 \<mapsto> 2, 7 \<mapsto> 3]" using d by (auto simp: slot_hashes_get_map_of)
  have "{j \<in> dom ?m. 4 < j} = {9, 7}" by (auto simp: m)
  then have "card {j \<in> dom ?m. 4 < j} < SLOT_HASHES_MAX_ENTRIES"
    by (simp add: SLOT_HASHES_MAX_ENTRIES_def)
  then have "slot_hashes_get (slot_hashes_add [(9, 1), (4, 2)] 7 3) 4 = ?m 4"
    using slot_hashes_add_get [OF d, of 7 3 4] by (simp only: Let_def if_True)
  then show ?thesis using d by (simp add: m)
qed

end
