(* ===== verification/Authorized_Voters.thy ===== *)
theory Authorized_Voters
  imports Rust_Collections
begin

text \<open>
  The keys that may sign the votes of a vote account, by the epoch from which each of them
  does (\<open>programs/vote/src/authorized_voters.rs\<close>). The voter of an epoch is the one in force
  there: the entry of the greatest epoch that is not above it.
\<close>

section \<open>Definitions\<close>

type_synonym authorized_voters = "(epoch, pubkey) btree_map"

definition av_new :: "epoch \<Rightarrow> pubkey \<Rightarrow> authorized_voters" where
  "av_new ep pk = btree_insert ep pk []"

definition get_or_calculate_authorized_voter_for_epoch ::
  "authorized_voters \<Rightarrow> epoch \<Rightarrow> (pubkey \<times> bool) option" where
  "get_or_calculate_authorized_voter_for_epoch av ep =
     (case btree_get av ep of
        None \<Rightarrow> map_option (\<lambda>(_, pk). (pk, False)) (btree_below av ep)
      | Some pk \<Rightarrow> Some (pk, True))"

definition av_get_authorized_voter :: "authorized_voters \<Rightarrow> epoch \<Rightarrow> pubkey option" where
  "av_get_authorized_voter av ep =
     map_option (\<lambda>(pk, _). pk) (get_or_calculate_authorized_voter_for_epoch av ep)"

definition get_and_cache_authorized_voter_for_epoch ::
  "authorized_voters \<Rightarrow> epoch \<Rightarrow> pubkey option \<times> authorized_voters" where
  "get_and_cache_authorized_voter_for_epoch av ep =
     (case get_or_calculate_authorized_voter_for_epoch av ep of
        None \<Rightarrow> (None, av)
      | Some (pk, existed) \<Rightarrow> (Some pk, if \<not> existed then btree_insert ep pk av else av))"

definition av_insert :: "authorized_voters \<Rightarrow> epoch \<Rightarrow> pubkey \<Rightarrow> authorized_voters" where
  "av_insert av ep pk = btree_insert ep pk av"

definition purge_authorized_voters ::
  "authorized_voters \<Rightarrow> epoch \<Rightarrow> (bool \<times> authorized_voters, 'e) result" where
  "purge_authorized_voters av current_epoch =
     (let expired_keys = map fst (btree_range_to current_epoch av);
          av' = fold btree_remove expired_keys av
      in if av' = [] then Panic else Ok (True, av'))"

definition av_is_empty :: "authorized_voters \<Rightarrow> bool" where
  "av_is_empty av \<longleftrightarrow> av = []"

definition av_first :: "authorized_voters \<Rightarrow> (epoch \<times> pubkey) option" where
  "av_first av = get_at av 0"

definition av_last :: "authorized_voters \<Rightarrow> (epoch \<times> pubkey) option" where
  "av_last av = last_opt av"

definition av_len :: "authorized_voters \<Rightarrow> nat" where
  "av_len av = length av"

definition av_contains :: "authorized_voters \<Rightarrow> epoch \<Rightarrow> bool" where
  "av_contains av ep \<longleftrightarrow> btree_get av ep \<noteq> None"

section \<open>Lemmas\<close>

lemma av_new_sorted: "btree_sorted (av_new ep pk)"
  by (simp add: av_new_def)

lemma get_or_calculate_fst:
  "map_option fst (get_or_calculate_authorized_voter_for_epoch av ep) = btree.in_force av ep"
  by (auto simp: get_or_calculate_authorized_voter_for_epoch_def btree.in_force_def case_prod_beta
      map_option_case split: option.splits)

lemma av_get_authorized_voter_in_force: "av_get_authorized_voter av ep = btree.in_force av ep"
  unfolding get_or_calculate_fst [symmetric]
  by (simp add: av_get_authorized_voter_def case_prod_beta map_option_case split: option.splits)

lemma btree_insert_same: "btree_get av ep = Some pk \<Longrightarrow> btree_sorted av \<Longrightarrow> btree_insert ep pk av = av"
  by (induction ep pk av rule: btree_insert.induct)
     (auto simp: btree_get_Some_iff dest!: bspec split: if_splits)

lemma get_and_cache_eq:
  assumes "btree_sorted av"
  shows "get_and_cache_authorized_voter_for_epoch av ep =
    (case btree.in_force av ep of None \<Rightarrow> (None, av) | Some pk \<Rightarrow> (Some pk, btree_insert ep pk av))"
  using assms btree_insert_same [of av ep]
  by (auto simp: get_and_cache_authorized_voter_for_epoch_def btree.in_force_def
      get_or_calculate_authorized_voter_for_epoch_def split: option.splits)

lemma purge_eq:
  "purge_authorized_voters av ep =
    (if btree_purge ep av = [] then Panic else Ok (True, btree_purge ep av))"
  by (simp add: purge_authorized_voters_def btree_purge_def Let_def)

lemma purge_cached_not_empty: "btree_purge ep (btree_insert ep pk av) \<noteq> []"
  using btree_get_purge [of ep "btree_insert ep pk av" ep] by (auto simp: btree_get_insert)

lemma av_last_greatest:
  assumes "btree_sorted av" and "av_last av = Some (ep, pk)"
  shows "btree_get av ep = Some pk \<and> (\<forall>i. ep < i \<longrightarrow> btree_get av i = None)"
proof -
  obtain xs where av: "av = xs @ [(ep, pk)]"
    using assms(2) by (metis append_butlast_last_id av_last_def last_opt_Some_iff)
  have "\<forall>p\<in>set xs. fst p < ep"
    using assms(1) unfolding av btree_sorted_def by (auto simp: sorted_wrt_append)
  then have "btree_get av i = None" if "ep < i" for i
    using that unfolding btree_get_None_iff av by force
  then show ?thesis using assms(1) by (simp add: btree_get_Some_iff av)
qed

text \<open>
  Looking up the voter of the current epoch, which caches it and then purges the earlier
  epochs, never fires the assertion of \<open>purge_authorized_voters\<close>, leaves no epoch before the
  current one, and changes the voter of no epoch from the current one on. So no later vote is
  checked against another key than before the purge.
\<close>

lemma cache_and_purge_keeps_voters:
  assumes "btree_sorted av" and "get_and_cache_authorized_voter_for_epoch av ep = (Some pk, av1)"
  shows "\<exists>av2. purge_authorized_voters av1 ep = (Ok (True, av2) :: (_, 'e) result) \<and>
     btree_sorted av2 \<and> pk \<in> snd ` set av2 \<and> (\<forall>i\<in>fst ` set av2. ep \<le> i) \<and>
     av_get_authorized_voter av2 ep = Some pk \<and>
     (\<forall>e\<ge>ep. av_get_authorized_voter av2 e = av_get_authorized_voter av e)"
proof -
  have f: "btree.in_force av ep = Some pk" and av1: "av1 = btree_insert ep pk av"
    using assms by (auto simp: get_and_cache_eq split: option.splits)
  let ?av2 = "btree_purge ep av1"
  have s: "btree_sorted ?av2" using assms(1) by (simp add: av1 btree_insert_sorted btree_purge_sorted)
  have g: "btree_get ?av2 ep = Some pk" by (simp add: av1 btree_get_purge btree_get_insert)
  then have "(ep, pk) \<in> set ?av2" using s by (simp add: btree_get_Some_iff)
  moreover have "\<forall>i\<in>fst ` set ?av2. ep \<le> i" by (auto simp: btree_purge_eq)
  moreover have "purge_authorized_voters av1 ep = (Ok (True, ?av2) :: (_, 'e) result)"
    unfolding av1 purge_eq using purge_cached_not_empty by simp
  moreover have "\<forall>e\<ge>ep. av_get_authorized_voter ?av2 e = av_get_authorized_voter av e"
    using btree.in_force_cache [OF assms(1) f] by (simp add: av1 av_get_authorized_voter_in_force)
  ultimately show ?thesis
    using s btree.in_force_at [OF g] by (force simp: av_get_authorized_voter_in_force)
qed

lemma cache_and_purge_keeps_voters_example:
  "\<exists>av1. get_and_cache_authorized_voter_for_epoch [(2, 10), (7, 11)] 5 = (Some 10, av1) \<and>
     (\<exists>av2. purge_authorized_voters av1 5 = (Ok (True, av2) :: (_, unit) result) \<and>
        btree_sorted av2 \<and> 10 \<in> snd ` set av2 \<and> (\<forall>i\<in>fst ` set av2. 5 \<le> i) \<and>
        av_get_authorized_voter av2 5 = Some 10 \<and>
        (\<forall>e\<ge>5. av_get_authorized_voter av2 e = av_get_authorized_voter [(2, 10), (7, 11)] e))"
proof -
  have 1: "btree_sorted [(2::epoch, 10::pubkey), (7, 11)]" by simp
  have 2: "get_and_cache_authorized_voter_for_epoch [(2, 10), (7, 11)] 5 =
      (Some 10, [(2, 10), (5, 10), (7, 11)])"
    by (simp add: get_and_cache_authorized_voter_for_epoch_def btree_below_def btree_range_to_def
        get_or_calculate_authorized_voter_for_epoch_def)
  show ?thesis using cache_and_purge_keeps_voters [OF 1 2] 2 by blast
qed

end
