(* ===== verification/Vote_State.thy ===== *)
theory Vote_State
  imports Authorized_Voters Slot_Hashes Account_Model Rent_Model
begin

text \<open>
  The state of a vote account (\<open>programs/vote/src/vote_state/mod.rs\<close>): the tower of lockouts,
  the root, the credits, the authorized voters and the circular buffer of the voters before
  them. The operations on the state value are here; the operations on accounts are in
  \<open>Vote_Program\<close>. \<open>usize\<close> indices are natural numbers. A timestamp is an \<open>i64\<close> that the code
  only compares, so it is an integer.
\<close>

section \<open>Data\<close>

type_synonym unix_timestamp = int

record clock =
  clock_slot :: slot
  clock_epoch_start_timestamp :: unix_timestamp
  clock_epoch :: epoch
  clock_leader_schedule_epoch :: epoch
  clock_unix_timestamp :: unix_timestamp

definition clock_default :: clock where
  "clock_default = \<lparr>clock_slot = 0, clock_epoch_start_timestamp = 0, clock_epoch = 0,
     clock_leader_schedule_epoch = 0, clock_unix_timestamp = 0\<rparr>"

datatype vote_error =
  VoteTooOld | SlotsMismatch | SlotHashMismatch | EmptySlots | TimestampTooOld | TooSoonToReauthorize

fun vote_error_code :: "vote_error \<Rightarrow> u64" where
  "vote_error_code VoteTooOld = 0"
| "vote_error_code SlotsMismatch = 1"
| "vote_error_code SlotHashMismatch = 2"
| "vote_error_code EmptySlots = 3"
| "vote_error_code TimestampTooOld = 4"
| "vote_error_code TooSoonToReauthorize = 5"

abbreviation instruction_error_of_vote_error :: "vote_error \<Rightarrow> instruction_error" where
  "instruction_error_of_vote_error e \<equiv> instruction_error_of_u64 (vote_error_code e)"

definition MAX_LOCKOUT_HISTORY :: nat where "MAX_LOCKOUT_HISTORY = 31"

definition INITIAL_LOCKOUT :: nat where "INITIAL_LOCKOUT = 2"

definition MAX_EPOCH_CREDITS_HISTORY :: nat where "MAX_EPOCH_CREDITS_HISTORY = 64"

definition DEFAULT_PRIOR_VOTERS_OFFSET :: nat where "DEFAULT_PRIOR_VOTERS_OFFSET = 82"

definition MAX_ITEMS :: nat where "MAX_ITEMS = 32"

definition MAX_LEADER_SCHEDULE_EPOCH_OFFSET :: u64 where "MAX_LEADER_SCHEDULE_EPOCH_OFFSET = 3"

record vote =
  vote_slots :: "slot list"
  vote_hash :: hash
  vote_timestamp :: "unix_timestamp option"

definition vote_new :: "slot list \<Rightarrow> hash \<Rightarrow> vote" where
  "vote_new slots h = \<lparr>vote_slots = slots, vote_hash = h, vote_timestamp = None\<rparr>"

definition vote_last_voted_slot :: "vote \<Rightarrow> slot option" where
  "vote_last_voted_slot v = last_opt (vote_slots v)"

definition last_voted_slot_hash :: "vote \<Rightarrow> (slot \<times> hash) option" where
  "last_voted_slot_hash v = map_option (\<lambda>sl. (sl, vote_hash v)) (last_opt (vote_slots v))"

record lockout =
  lk_slot :: slot
  confirmation_count :: u32

definition lockout_new :: "slot \<Rightarrow> lockout" where
  "lockout_new sl = \<lparr>lk_slot = sl, confirmation_count = 1\<rparr>"

definition lockout_slots :: "lockout \<Rightarrow> u64" where
  "lockout_slots l = (word_of_nat INITIAL_LOCKOUT) ^ unat (confirmation_count l)"

definition last_locked_out_slot :: "lockout \<Rightarrow> slot" where
  "last_locked_out_slot l = lk_slot l + lockout_slots l"

definition is_locked_out_at_slot :: "lockout \<Rightarrow> slot \<Rightarrow> bool" where
  "is_locked_out_at_slot l sl \<longleftrightarrow> sl \<le> last_locked_out_slot l"

record vote_init =
  init_node_pubkey :: pubkey
  init_authorized_voter :: pubkey
  init_authorized_withdrawer :: pubkey
  init_commission :: u8

datatype vote_authorize = Voter | Withdrawer

record block_timestamp =
  bt_slot :: slot
  bt_timestamp :: unix_timestamp

record 'i circ_buf =
  cb_buf :: "'i list"
  cb_idx :: nat
  cb_is_empty :: bool

definition circ_buf_default :: "'i \<Rightarrow> 'i circ_buf" where
  "circ_buf_default dflt =
     \<lparr>cb_buf = replicate MAX_ITEMS dflt, cb_idx = MAX_ITEMS - 1, cb_is_empty = True\<rparr>"

definition circ_buf_append :: "'i circ_buf \<Rightarrow> 'i \<Rightarrow> 'i circ_buf" where
  "circ_buf_append cb item =
     (let idx = (cb_idx cb + 1) mod MAX_ITEMS
      in \<lparr>cb_buf = (cb_buf cb)[idx := item], cb_idx = idx, cb_is_empty = False\<rparr>)"

text \<open>The index of a buffer that was read from an account can be anything: \<open>last\<close> panics when it is out of range.\<close>

definition circ_buf_last :: "'i circ_buf \<Rightarrow> ('i option, 'e) result" where
  "circ_buf_last cb =
     (if \<not> cb_is_empty cb then and_then (index_at (cb_buf cb) (cb_idx cb)) (\<lambda>item. Ok (Some item)) else Ok None)"

text \<open>The buffer is an array of \<open>MAX_ITEMS\<close> entries, and the index of a buffer that the program made is in range.\<close>

definition circ_buf_ok :: "'i circ_buf \<Rightarrow> bool" where
  "circ_buf_ok cb \<longleftrightarrow> length (cb_buf cb) = MAX_ITEMS \<and> cb_idx cb < MAX_ITEMS"

record vote_state =
  node_pubkey :: pubkey
  authorized_withdrawer :: pubkey
  commission :: u8
  votes :: "lockout list"
  root_slot :: "slot option"
  authorized_voters :: authorized_voters
  prior_voters :: "(pubkey \<times> epoch \<times> epoch) circ_buf"
  epoch_credits :: "(epoch \<times> u64 \<times> u64) list"
  last_timestamp :: block_timestamp

definition vote_state_default :: vote_state where
  "vote_state_default =
     \<lparr>node_pubkey = 0, authorized_withdrawer = 0, commission = 0, votes = [], root_slot = None,
      authorized_voters = [], prior_voters = circ_buf_default (0, 0, 0), epoch_credits = [],
      last_timestamp = \<lparr>bt_slot = 0, bt_timestamp = 0\<rparr>\<rparr>"

definition vote_state_new :: "vote_init \<Rightarrow> clock \<Rightarrow> vote_state" where
  "vote_state_new vi clk =
     vote_state_default
       \<lparr>node_pubkey := init_node_pubkey vi,
        authorized_voters := av_new (clock_epoch clk) (init_authorized_voter vi),
        authorized_withdrawer := init_authorized_withdrawer vi,
        commission := init_commission vi\<rparr>"

section \<open>Operations\<close>

definition get_authorized_voter :: "vote_state \<Rightarrow> epoch \<Rightarrow> pubkey option" where
  "get_authorized_voter vs ep = av_get_authorized_voter (authorized_voters vs) ep"

definition commission_split :: "vote_state \<Rightarrow> u64 \<Rightarrow> u64 \<times> u64 \<times> bool" where
  "commission_split vs on =
     (let split = min (commission vs) 100 in
      if split = 0 then (0, on, False)
      else if split = 100 then (on, 0, False)
      else
        let on' = ucast on :: u128;
            mine = on' * ucast split div 100;
            theirs = on' * ucast (100 - split) div 100
        in (ucast mine, ucast theirs, True))"

definition last_lockout :: "vote_state \<Rightarrow> lockout option" where
  "last_lockout vs = last_opt (votes vs)"

definition last_voted_slot :: "vote_state \<Rightarrow> slot option" where
  "last_voted_slot vs = map_option lk_slot (last_lockout vs)"

definition nth_recent_vote :: "vote_state \<Rightarrow> nat \<Rightarrow> lockout option" where
  "nth_recent_vote vs pos =
     (if pos < length (votes vs) then get_at (votes vs) (length (votes vs) - 1 - pos) else None)"

definition tower :: "vote_state \<Rightarrow> slot list" where
  "tower vs = map lk_slot (votes vs)"

definition current_epoch :: "vote_state \<Rightarrow> epoch" where
  "current_epoch vs = (if epoch_credits vs = [] then 0 else fst (last (epoch_credits vs)))"

definition credits :: "vote_state \<Rightarrow> u64" where
  "credits vs = (if epoch_credits vs = [] then 0 else fst (snd (last (epoch_credits vs))))"

text \<open>Whether a slot is not newer than the last vote.\<close>

definition not_newer :: "slot option \<Rightarrow> slot \<Rightarrow> bool" where
  "not_newer last_slot sl = (case last_slot of None \<Rightarrow> False | Some l \<Rightarrow> sl \<le> l)"

text \<open>
  The loop of \<open>check_slots_are_valid\<close>: \<open>i\<close> walks up the vote's slots and \<open>j\<close> down the slot
  hashes. Both indices are in range where the code uses them.
\<close>

function check_slots_loop ::
  "slot option \<Rightarrow> slot list \<Rightarrow> slot_hashes \<Rightarrow> nat \<Rightarrow> nat \<Rightarrow> nat \<times> nat" where
  "check_slots_loop last_slot slots shs i j =
     (if i < length slots \<and> 0 < j then
        if not_newer last_slot (slots ! i) then check_slots_loop last_slot slots shs (i + 1) j
        else if slots ! i \<noteq> fst (shs ! (j - 1)) then check_slots_loop last_slot slots shs i (j - 1)
        else check_slots_loop last_slot slots shs (i + 1) (j - 1)
      else (i, j))"
  by pat_completeness auto

termination
  by (relation "measure (\<lambda>(l, slots, shs, i, j). (length slots - i) + j)") auto

declare check_slots_loop.simps [simp del]

definition check_slots_are_valid ::
  "vote_state \<Rightarrow> vote \<Rightarrow> slot_hashes \<Rightarrow> (unit, vote_error) result" where
  "check_slots_are_valid vs v shs =
     (let (i, j) = check_slots_loop (last_voted_slot vs) (vote_slots v) shs 0 (length shs) in
      if j = length shs then Err VoteTooOld
      else if i \<noteq> length (vote_slots v) then Err SlotsMismatch
      else and_then (index_at shs j) (\<lambda>sh.
        if snd sh \<noteq> vote_hash v then Err SlotHashMismatch else Ok ()))"

text \<open>\<open>pop_expired_votes\<close> pops the back of the deque while it is not locked out.\<close>

definition pop_expired_votes :: "vote_state \<Rightarrow> slot \<Rightarrow> vote_state" where
  "pop_expired_votes vs next_vote_slot =
     vs\<lparr>votes := rev (dropWhile (\<lambda>l. \<not> is_locked_out_at_slot l next_vote_slot) (rev (votes vs)))\<rparr>"

definition double_lockout :: "nat \<Rightarrow> nat \<Rightarrow> lockout \<Rightarrow> lockout" where
  "double_lockout stack_depth i v =
     (if i + unat (confirmation_count v) < stack_depth
      then v\<lparr>confirmation_count := confirmation_count v + 1\<rparr> else v)"

definition double_lockouts :: "vote_state \<Rightarrow> vote_state" where
  "double_lockouts vs =
     (let stack_depth = length (votes vs)
      in vs\<lparr>votes := map (\<lambda>(i, v). double_lockout stack_depth i v) (enumerate 0 (votes vs))\<rparr>)"

definition increment_credits :: "vote_state \<Rightarrow> epoch \<Rightarrow> vote_state" where
  "increment_credits vs ep =
     (let ec = epoch_credits vs;
          ec1 =
            (if ec = [] then [(ep, 0, 0)]
             else if ep \<noteq> fst (last ec) then
               let (_, creds, prev_credits) = last ec;
                   ec' = (if creds \<noteq> prev_credits then ec @ [(ep, creds, creds)]
                          else butlast ec @ [(ep, snd (last ec))])
               in (if MAX_EPOCH_CREDITS_HISTORY < length ec' then tl ec' else ec')
             else ec);
          (e, c, p) = last ec1
      in vs\<lparr>epoch_credits := butlast ec1 @ [(e, c + 1, p)]\<rparr>)"

definition process_next_vote_slot :: "vote_state \<Rightarrow> slot \<Rightarrow> epoch \<Rightarrow> vote_state" where
  "process_next_vote_slot vs next_vote_slot ep =
     (if not_newer (last_voted_slot vs) next_vote_slot then vs
      else
        let v = lockout_new next_vote_slot;
            vs1 = pop_expired_votes vs next_vote_slot;
            vs2 = (if length (votes vs1) = MAX_LOCKOUT_HISTORY then
                     increment_credits
                       (vs1\<lparr>votes := tl (votes vs1), root_slot := Some (lk_slot (hd (votes vs1)))\<rparr>) ep
                   else vs1)
        in double_lockouts (vs2\<lparr>votes := votes vs2 @ [v]\<rparr>))"

definition process_vote :: "vote_state \<Rightarrow> vote \<Rightarrow> slot_hashes \<Rightarrow> epoch \<Rightarrow> (vote_state, vote_error) result" where
  "process_vote vs v shs ep =
     (if vote_slots v = [] then Err EmptySlots
      else and_then (check_slots_are_valid vs v shs) (\<lambda>_.
        Ok (fold (\<lambda>s vs. process_next_vote_slot vs s ep) (vote_slots v) vs)))"

definition process_vote_unchecked :: "vote_state \<Rightarrow> vote \<Rightarrow> vote_state" where
  "process_vote_unchecked vs v =
     (let shs = map (\<lambda>x. (x, vote_hash v)) (rev (vote_slots v))
      in (case process_vote vs v shs (current_epoch vs) of Ok vs' \<Rightarrow> vs' | _ \<Rightarrow> vs))"

definition process_slot_vote_unchecked :: "vote_state \<Rightarrow> slot \<Rightarrow> vote_state" where
  "process_slot_vote_unchecked vs sl = process_vote_unchecked vs (vote_new [sl] 0)"

definition process_timestamp ::
  "vote_state \<Rightarrow> slot \<Rightarrow> unix_timestamp \<Rightarrow> (vote_state, vote_error) result" where
  "process_timestamp vs sl ts =
     (let lt = last_timestamp vs in
      if (sl < bt_slot lt \<or> ts < bt_timestamp lt)
         \<or> (sl = bt_slot lt \<and> \<lparr>bt_slot = sl, bt_timestamp = ts\<rparr> \<noteq> lt \<and> bt_slot lt \<noteq> 0)
      then Err TimestampTooOld
      else Ok (vs\<lparr>last_timestamp := \<lparr>bt_slot = sl, bt_timestamp = ts\<rparr>\<rparr>))"

definition get_and_update_authorized_voter ::
  "vote_state \<Rightarrow> epoch \<Rightarrow> (pubkey \<times> vote_state, instruction_error) result" where
  "get_and_update_authorized_voter vs cur =
     (let (pk, av1) = get_and_cache_authorized_voter_for_epoch (authorized_voters vs) cur in
      and_then (ok_or pk InvalidAccountData) (\<lambda>pubkey.
      and_then (purge_authorized_voters av1 cur) (\<lambda>(_, av2).
        Ok (pubkey, vs\<lparr>authorized_voters := av2\<rparr>))))"

definition set_new_authorized_voter ::
  "vote_state \<Rightarrow> pubkey \<Rightarrow> epoch \<Rightarrow> epoch \<Rightarrow> (pubkey \<Rightarrow> (unit, instruction_error) result) \<Rightarrow>
   (vote_state, instruction_error) result" where
  "set_new_authorized_voter vs authorized_pubkey cur target_epoch verify =
     and_then (get_and_update_authorized_voter vs cur) (\<lambda>(epoch_authorized_voter, vs1).
     and_then (verify epoch_authorized_voter) (\<lambda>_.
     if av_contains (authorized_voters vs1) target_epoch
     then Err (instruction_error_of_vote_error TooSoonToReauthorize)
     else
     and_then (ok_or (av_last (authorized_voters vs1)) InvalidAccountData)
       (\<lambda>(latest_epoch, latest_authorized_pubkey).
     and_then
       (if latest_authorized_pubkey \<noteq> authorized_pubkey then
          and_then (circ_buf_last (prior_voters vs1)) (\<lambda>range.
          let epoch_of_last_authorized_switch = (case range of None \<Rightarrow> 0 | Some (_, _, e) \<Rightarrow> e)
          in if \<not> latest_epoch < target_epoch then Panic
             else Ok (vs1\<lparr>prior_voters := circ_buf_append (prior_voters vs1)
                    (latest_authorized_pubkey, epoch_of_last_authorized_switch, target_epoch)\<rparr>))
        else Ok vs1)
       (\<lambda>vs2. Ok (vs2\<lparr>authorized_voters :=
                    av_insert (authorized_voters vs2) target_epoch authorized_pubkey\<rparr>)))))"

end
