(* ===== verification/Vote_Check.thy ===== *)
theory Vote_Check
  imports Vote_State "HOL-Library.Sublist"
begin

text \<open>
  What \<open>check_slots_are_valid\<close> accepts, in terms of lists: the slots of the vote that are newer
  than the last vote, in the order of the vote, have to be found in this order among the
  slots of the fork, and the hash of the vote has to be the one of the last of them.
\<close>

definition new_slots :: "vote_state \<Rightarrow> vote \<Rightarrow> slot list" where
  "new_slots vs v = filter (\<lambda>s. \<not> not_newer (last_voted_slot vs) s) (vote_slots v)"

section \<open>The loop\<close>

lemma filter_drop_step:
  "i < length xs \<Longrightarrow> filter P (drop i xs) =
    (if P (xs ! i) then xs ! i # filter P (drop (Suc i) xs) else filter P (drop (Suc i) xs))"
  by (subst Cons_nth_drop_Suc [symmetric]) auto

lemma rev_take_step:
  "0 < j \<Longrightarrow> j \<le> length xs \<Longrightarrow> map f (rev (take j xs)) = f (xs ! (j - 1)) # map f (rev (take (j - 1) xs))"
  by (cases j) (auto simp: take_Suc_conv_app_nth)

lemma check_slots_loop_step:
  "\<not> (i < length slots \<and> 0 < j) \<Longrightarrow> check_slots_loop l slots shs i j = (i, j)"
  "i < length slots \<Longrightarrow> 0 < j \<Longrightarrow> not_newer l (slots ! i) \<Longrightarrow>
     check_slots_loop l slots shs i j = check_slots_loop l slots shs (i + 1) j"
  "i < length slots \<Longrightarrow> 0 < j \<Longrightarrow> \<not> not_newer l (slots ! i) \<Longrightarrow> slots ! i \<noteq> fst (shs ! (j - 1)) \<Longrightarrow>
     check_slots_loop l slots shs i j = check_slots_loop l slots shs i (j - 1)"
  "i < length slots \<Longrightarrow> 0 < j \<Longrightarrow> \<not> not_newer l (slots ! i) \<Longrightarrow> slots ! i = fst (shs ! (j - 1)) \<Longrightarrow>
     check_slots_loop l slots shs i j = check_slots_loop l slots shs (i + 1) (j - 1)"
  by (subst check_slots_loop.simps, simp only: if_True if_False not_True_eq_False not_False_eq_True
      simp_thms)+

lemma check_slots_loop_sound:
  assumes "check_slots_loop l slots shs i j = (i', j')" and "j \<le> length shs" and "i \<le> length slots"
  shows "let ns = filter (\<lambda>s. \<not> not_newer l s) (drop i slots) in
    i' \<le> length slots \<and> j' \<le> j \<and> (i' \<noteq> length slots \<longrightarrow> j' = 0) \<and>
    (0 < j \<and> ns \<noteq> [] \<longrightarrow> j' < j) \<and> (ns = [] \<longrightarrow> j' = j) \<and>
    (i' = length slots \<longrightarrow> subseq ns (map fst (rev (take j shs))) \<and>
       (ns \<noteq> [] \<longrightarrow> j' < j \<and> fst (shs ! j') = last ns))"
  using assms
proof (induction l slots shs i j rule: check_slots_loop.induct)
  case (1 l slots shs i j)
  let ?ns = "filter (\<lambda>s. \<not> not_newer l s) (drop i slots)"
  consider "\<not> (i < length slots \<and> 0 < j)" | "i < length slots" "0 < j" "not_newer l (slots ! i)"
    | "i < length slots" "0 < j" "\<not> not_newer l (slots ! i)" "slots ! i \<noteq> fst (shs ! (j - 1))"
    | "i < length slots" "0 < j" "\<not> not_newer l (slots ! i)" "slots ! i = fst (shs ! (j - 1))"
    by blast
  then show ?case
  proof cases
    case a: 1
    then have "i' = i" "j' = j" using 1(4) check_slots_loop_step(1) [OF a] by simp_all
    then show ?thesis using a 1(5,6) by (auto simp: Let_def)
  next
    case a: 2
    have "check_slots_loop l slots shs (i + 1) j = (i', j')"
      using 1(4) unfolding check_slots_loop_step(2) [OF a] .
    then show ?thesis
      using 1(1) [OF conjI [OF a(1,2)] a(3)] a 1(5) by (simp add: filter_drop_step Let_def)
  next
    case a: 3
    have "check_slots_loop l slots shs i (j - 1) = (i', j')"
      using 1(4) unfolding check_slots_loop_step(3) [OF a] .
    then have IH: "i' \<le> length slots \<and> j' \<le> j - 1 \<and> (i' \<noteq> length slots \<longrightarrow> j' = 0) \<and>
        (i' = length slots \<longrightarrow> subseq ?ns (map fst (rev (take (j - 1) shs))) \<and>
         (?ns \<noteq> [] \<longrightarrow> j' < j - 1 \<and> fst (shs ! j') = last ?ns))"
      using 1(2) [OF conjI [OF a(1,2)] a(3,4)] 1(5,6) by (simp add: Let_def)
    moreover have "?ns \<noteq> []" using a by (simp add: filter_drop_step)
    ultimately show ?thesis
      using a 1(5) rev_take_step [of j shs fst] by (auto simp: Let_def)
  next
    case a: 4
    let ?ms = "filter (\<lambda>s. \<not> not_newer l s) (drop (Suc i) slots)"
    have ns: "?ns = slots ! i # ?ms" using a by (simp add: filter_drop_step)
    have "check_slots_loop l slots shs (i + 1) (j - 1) = (i', j')"
      using 1(4) unfolding check_slots_loop_step(4) [OF a] .
    then have IH: "i' \<le> length slots \<and> j' \<le> j - 1 \<and> (i' \<noteq> length slots \<longrightarrow> j' = 0) \<and> (?ms = [] \<longrightarrow> j' = j - 1) \<and>
        (i' = length slots \<longrightarrow> subseq ?ms (map fst (rev (take (j - 1) shs))) \<and>
         (?ms \<noteq> [] \<longrightarrow> j' < j - 1 \<and> fst (shs ! j') = last ?ms))"
      using 1(3) [OF conjI [OF a(1,2)] a(3)] a(1,4) 1(5) by (simp add: Let_def)
    show ?thesis
      unfolding Let_def ns using IH a(2,4) 1(5) rev_take_step [of j shs fst] by (cases "?ms = []") auto
  qed
qed

lemma check_slots_loop_complete:
  assumes "check_slots_loop l slots shs i j = (i', j')" and "j \<le> length shs" and "i \<le> length slots"
    and "sorted (drop i slots)" and "0 < j \<or> i = length slots"
    and "subseq (filter (\<lambda>s. \<not> not_newer l s) (drop i slots)) (map fst (rev (take j shs)))"
  shows "i' = length slots"
  using assms
proof (induction l slots shs i j rule: check_slots_loop.induct)
  case (1 l slots shs i j)
  let ?ns = "filter (\<lambda>s. \<not> not_newer l s) (drop i slots)"
  let ?ms = "filter (\<lambda>s. \<not> not_newer l s) (drop (Suc i) slots)"
  show ?case
  proof (cases "i < length slots \<and> 0 < j")
    case False
    then show ?thesis using check_slots_loop_step(1) [OF False] 1(4,6,8) by auto
  next
    case True
    then have i: "i < length slots" and j: "0 < j" by auto
    have d: "drop i slots = slots ! i # drop (Suc i) slots" using i by (rule Cons_nth_drop_Suc [symmetric])
    have sorted: "sorted (drop (Suc i) slots)" and above: "\<forall>s\<in>set (drop (Suc i) slots). slots ! i \<le> s"
      using 1(7) by (simp_all add: d)
    have hs: "map fst (rev (take j shs)) = fst (shs ! (j - 1)) # map fst (rev (take (j - 1) shs))"
      using j 1(5) by (rule rev_take_step)
    show ?thesis
    proof (cases "not_newer l (slots ! i)")
      case old: True
      have "check_slots_loop l slots shs (i + 1) j = (i', j')"
        using 1(4) unfolding check_slots_loop_step(2) [OF i j old] .
      moreover have "?ns = ?ms" using i old by (simp add: filter_drop_step)
      ultimately show ?thesis using 1(5,9) i j sorted by (intro 1(1) [OF True old]) auto
    next
      case new: False
      then have ns: "?ns = slots ! i # ?ms" using i by (simp add: filter_drop_step)
      show ?thesis
      proof (cases "slots ! i = fst (shs ! (j - 1))")
        case ne: False
        have loop: "check_slots_loop l slots shs i (j - 1) = (i', j')"
          using 1(4) unfolding check_slots_loop_step(3) [OF i j new ne] .
        have sub: "subseq ?ns (map fst (rev (take (j - 1) shs)))"
          using 1(9) ne unfolding ns hs by (rule subseq_Cons2_neq)
        then have "map fst (rev (take (j - 1) shs)) \<noteq> []" unfolding ns by auto
        then have "0 < j - 1" by auto
        then show ?thesis using 1(5,6,7) sub by (intro 1(2) [OF True new ne loop]) auto
      next
        case eq: True
        have loop: "check_slots_loop l slots shs (i + 1) (j - 1) = (i', j')"
          using 1(4) unfolding check_slots_loop_step(4) [OF i j new eq] .
        have sub: "subseq ?ms (map fst (rev (take (j - 1) shs)))"
          using 1(9) eq unfolding ns hs by simp
        have "0 < j - 1 \<or> Suc i = length slots"
        proof (cases "j = 1")
          case True
          then have "?ms = []" using sub by simp
          moreover have "\<forall>s\<in>set (drop (Suc i) slots). \<not> not_newer l s"
            using above new by (auto simp: not_newer_def split: option.splits)
          then have "?ms = drop (Suc i) slots" by (rule filter_True)
          ultimately show ?thesis using i by simp
        qed (use j in simp)
        then show ?thesis using eq 1(5) i sorted sub by (intro 1(3) [OF True new _ loop]) auto
      qed
    qed
  qed
qed

section \<open>What is accepted\<close>

lemma check_slots_cases:
  assumes "check_slots_loop (last_voted_slot vs) (vote_slots v) shs 0 (length shs) = (i, j)"
  shows "check_slots_are_valid vs v shs =
    (if j = length shs then Err VoteTooOld
     else if i \<noteq> length (vote_slots v) then Err SlotsMismatch
     else if snd (shs ! j) \<noteq> vote_hash v then Err SlotHashMismatch else Ok ())"
proof -
  have "j \<le> length shs" using check_slots_loop_sound [OF assms] by (simp add: Let_def)
  then show ?thesis using assms by (auto simp: check_slots_are_valid_def index_at_def)
qed

text \<open>
  C16: A vote that is accepted is a vote on the bank's fork. Whatever slots the vote lists, if
  \<open>process_vote\<close> succeeds then some of them are newer than the last vote, these occur in the
  order of the vote among the slots of the slot hashes, oldest first, and the hash of the vote is
  the bank hash that the slot hashes give for the last of them.
\<close>

theorem process_vote_sound:
  assumes "process_vote vs v shs ep = Ok vs'"
  shows "new_slots vs v \<noteq> [] \<and> subseq (new_slots vs v) (map fst (rev shs)) \<and>
    (last (new_slots vs v), vote_hash v) \<in> set shs"
proof -
  obtain i j where loop: "check_slots_loop (last_voted_slot vs) (vote_slots v) shs 0 (length shs) = (i, j)"
    by fastforce
  have ok: "check_slots_are_valid vs v shs = Ok ()"
    using assms by (auto simp: process_vote_def result_simps split: if_splits)
  then have ij: "j \<noteq> length shs" "i = length (vote_slots v)" "snd (shs ! j) = vote_hash v"
    unfolding check_slots_cases [OF loop] by (auto split: if_splits)
  note s = check_slots_loop_sound [OF loop, simplified Let_def, folded drop_0, simplified, folded new_slots_def]
  have "new_slots vs v \<noteq> []" using s ij by auto
  moreover have "j < length shs" "fst (shs ! j) = last (new_slots vs v)" using s ij calculation by auto
  then have "(last (new_slots vs v), vote_hash v) \<in> set shs" using ij(3) by (metis nth_mem prod.collapse)
  ultimately show ?thesis using s ij by simp
qed

theorem process_vote_sound_witness:
  "\<exists>vs'. process_vote vote_state_default (vote_new [3, 5] 42) [(6, 43), (5, 42), (4, 41), (3, 40)] 0 = Ok vs' \<and>
     new_slots vote_state_default (vote_new [3, 5] 42) \<noteq> [] \<and>
     (last (new_slots vote_state_default (vote_new [3, 5] 42)), 42) \<in> set [(6, 43), (5, 42), (4, 41), (3::slot, 40)]"
proof -
  let ?vs = vote_state_default and ?v = "vote_new [3, 5] 42" and ?shs = "[(6, 43), (5, 42), (4, 41), (3::slot, 40::hash)]"
  have "check_slots_loop None [3, 5] ?shs 0 (length ?shs) = (2, 1)"
    by (simp add: check_slots_loop_step not_newer_def numeral_2_eq_2)
  then have "check_slots_are_valid ?vs ?v ?shs = Ok ()"
    by (simp add: check_slots_are_valid_def last_voted_slot_def last_lockout_def vote_state_default_def
        vote_new_def index_at_def)
  then obtain vs' where p: "process_vote ?vs ?v ?shs 0 = Ok vs'"
    by (simp add: process_vote_def vote_new_def)
  show ?thesis using process_vote_sound [OF p] p by (simp add: vote_new_def)
qed

text \<open>
  C32: Which votes are accepted and which error the others get, for a vote that lists its slots in
  ascending order and slot hashes without duplicates: no new slot (or no slot hashes) is
  \<open>VoteTooOld\<close>, new slots that are not all on the fork \<open>SlotsMismatch\<close>, another hash than the
  bank's for the last of them \<open>SlotHashMismatch\<close>, and everything else is accepted.
\<close>

theorem check_slots_are_valid_iff:
  assumes "sorted (vote_slots v)" and "distinct (map fst shs)"
  shows "check_slots_are_valid vs v shs =
    (if new_slots vs v = [] \<or> shs = [] then Err VoteTooOld
     else if \<not> subseq (new_slots vs v) (map fst (rev shs)) then Err SlotsMismatch
     else if map_of shs (last (new_slots vs v)) \<noteq> Some (vote_hash v) then Err SlotHashMismatch
     else Ok ())"
proof -
  obtain i j where loop: "check_slots_loop (last_voted_slot vs) (vote_slots v) shs 0 (length shs) = (i, j)"
    by fastforce
  note s = check_slots_loop_sound [OF loop, simplified Let_def, folded drop_0, simplified, folded new_slots_def]
  have c: "i = length (vote_slots v)" if "shs \<noteq> []" "subseq (new_slots vs v) (map fst (rev shs))"
    using check_slots_loop_complete [OF loop] assms(1) that by (simp add: new_slots_def)
  have too_old: "j = length shs \<longleftrightarrow> new_slots vs v = [] \<or> shs = []" using s by auto
  have h: "map_of shs (last (new_slots vs v)) = Some (snd (shs ! j))"
    if "j \<noteq> length shs" "i = length (vote_slots v)"
  proof -
    have "j < length shs" "fst (shs ! j) = last (new_slots vs v)" using s that too_old by auto
    then show ?thesis using assms(2) by (metis map_of_is_SomeI nth_mem prod.collapse)
  qed
  have "i = length (vote_slots v) \<longleftrightarrow> subseq (new_slots vs v) (map fst (rev shs))"
    if "j \<noteq> length shs" using that s c too_old by auto
  then show ?thesis
    unfolding check_slots_cases [OF loop] using too_old h by auto
qed

theorem check_slots_are_valid_iff_witness:
  "check_slots_are_valid vote_state_default (vote_new [3, 7] 42) [(6, 43), (5, 42), (3, 40)] = Err SlotsMismatch \<and>
   check_slots_are_valid vote_state_default (vote_new [3, 5] 42) [(6, 43), (5, 42), (3, 40)] = Ok ()"
proof -
  let ?shs = "[(6, 43), (5, 42), (3::slot, 40::hash)]"
  have n: "new_slots vote_state_default (vote_new xs 42) = xs" for xs
    by (simp add: new_slots_def not_newer_def last_voted_slot_def last_lockout_def vote_state_default_def vote_new_def)
  have "sorted (vote_slots (vote_new [3, 7] 42))" "sorted (vote_slots (vote_new [3, 5] 42))" "distinct (map fst ?shs)"
    by (simp_all add: vote_new_def)
  note r = check_slots_are_valid_iff [OF this(1,3), of vote_state_default]
    check_slots_are_valid_iff [OF this(2,3), of vote_state_default]
  show ?thesis unfolding r n by (simp add: vote_new_def)
qed

end
