(* ===== verification/Vote_Tower.thy ===== *)
theory Vote_Tower
  imports Vote_State
begin

text \<open>
  The tower of a vote state: the slots on the stack ascend and their confirmation counts
  strictly descend, so a vote is confirmed at least as often as votes lie on top of it, no
  count exceeds \<open>MAX_LOCKOUT_HISTORY\<close>, and the stack never overflows. The root follows the votes
  that reached the greatest count, and the credits follow the root.
\<close>

section \<open>The invariant\<close>

definition above_in_tower :: "lockout \<Rightarrow> lockout \<Rightarrow> bool" where
  "above_in_tower a b \<longleftrightarrow> lk_slot a < lk_slot b \<and> confirmation_count b < confirmation_count a"

definition tower_ok :: "lockout list \<Rightarrow> bool" where
  "tower_ok ls \<longleftrightarrow> sorted_wrt above_in_tower ls \<and>
     (\<forall>l\<in>set ls. 0 < confirmation_count l \<and> unat (confirmation_count l) \<le> MAX_LOCKOUT_HISTORY)"

text \<open>A vote state whose root is below its votes.\<close>

definition vote_state_ok :: "vote_state \<Rightarrow> bool" where
  "vote_state_ok vs \<longleftrightarrow> tower_ok (votes vs) \<and>
     (\<forall>r. root_slot vs = Some r \<longrightarrow> votes vs \<noteq> [] \<and> (\<forall>l\<in>set (votes vs). r < lk_slot l))"

section \<open>Lemmas on towers\<close>

lemma tower_ok_Nil [simp]: "tower_ok []"
  by (simp add: tower_ok_def)

lemma tower_ok_take: "tower_ok ls \<Longrightarrow> tower_ok (take n ls)"
  by (auto simp: tower_ok_def sorted_wrt_take dest: in_set_takeD)

lemma tower_ok_drop: "tower_ok ls \<Longrightarrow> tower_ok (drop n ls)"
  by (auto simp: tower_ok_def sorted_wrt_drop dest: in_set_dropD)

lemma tower_ok_nth:
  assumes "tower_ok ls" and "i < j" and "j < length ls"
  shows "lk_slot (ls ! i) < lk_slot (ls ! j)" and "confirmation_count (ls ! j) < confirmation_count (ls ! i)"
  using assms by (auto simp: tower_ok_def above_in_tower_def sorted_wrt_iff_nth_less)

lemma tower_ok_count:
  assumes "tower_ok ls" and "i < length ls"
  shows "length ls - i \<le> unat (confirmation_count (ls ! i))"
    and "unat (confirmation_count (ls ! i)) \<le> MAX_LOCKOUT_HISTORY"
proof -
  show "unat (confirmation_count (ls ! i)) \<le> MAX_LOCKOUT_HISTORY"
    using assms by (simp add: tower_ok_def)
  show "length ls - i \<le> unat (confirmation_count (ls ! i))"
    using assms(2)
  proof (induction "length ls - i" arbitrary: i)
    case (Suc n)
    show ?case
    proof (cases "Suc i < length ls")
      case True
      then have "length ls - Suc i \<le> unat (confirmation_count (ls ! Suc i))" using Suc by auto
      then show ?thesis using tower_ok_nth(2) [OF assms(1), of i "Suc i"] True
        by (simp add: word_less_nat_alt)
    next
      case False
      have "0 < confirmation_count (ls ! i)" using assms(1) Suc.prems by (simp add: tower_ok_def)
      then show ?thesis using False Suc.prems by (simp add: word_less_nat_alt)
    qed
  qed simp
qed

lemma tower_ok_length: "tower_ok ls \<Longrightarrow> length ls \<le> MAX_LOCKOUT_HISTORY"
  using tower_ok_count [of ls 0] by (cases ls) auto

lemma tower_ok_last_max: "tower_ok ls \<Longrightarrow> l \<in> set ls \<Longrightarrow> lk_slot l \<le> lk_slot (last ls)"
proof (cases ls rule: rev_cases)
  case (snoc xs x)
  assume "tower_ok ls" "l \<in> set ls"
  then show ?thesis by (auto simp: snoc tower_ok_def above_in_tower_def sorted_wrt_append)
qed simp

section \<open>The steps\<close>

lemma rev_dropWhile_rev: "\<exists>n\<le>length xs. rev (dropWhile P (rev xs)) = take n xs"
proof -
  have "rev (dropWhile P (rev xs)) = take (length xs - length (takeWhile P (rev xs))) xs"
    by (simp add: dropWhile_eq_drop drop_rev)
  then show ?thesis by (intro exI [of _ "length xs - length (takeWhile P (rev xs))"]) simp
qed

lemma pop_expired_votes_take: "\<exists>n\<le>length (votes vs). votes (pop_expired_votes vs sl) = take n (votes vs)"
  using rev_dropWhile_rev [of "votes vs"] by (simp add: pop_expired_votes_def)

lemma pop_expired_votes_last:
  "votes (pop_expired_votes vs sl) \<noteq> [] \<Longrightarrow> is_locked_out_at_slot (last (votes (pop_expired_votes vs sl))) sl"
  using hd_dropWhile [of "\<lambda>l. \<not> is_locked_out_at_slot l sl" "rev (votes vs)"]
  by (simp add: pop_expired_votes_def last_rev)

lemma pop_expired_votes_other [simp]:
  "root_slot (pop_expired_votes vs sl) = root_slot vs"
  "epoch_credits (pop_expired_votes vs sl) = epoch_credits vs"
  by (simp_all add: pop_expired_votes_def)

lemma double_lockouts_nth:
  "i < length (votes vs) \<Longrightarrow>
    votes (double_lockouts vs) ! i = double_lockout (length (votes vs)) i (votes vs ! i)"
  by (simp add: double_lockouts_def Let_def nth_enumerate_eq)

lemma double_lockouts_simps [simp]:
  "length (votes (double_lockouts vs)) = length (votes vs)"
  "root_slot (double_lockouts vs) = root_slot vs"
  "epoch_credits (double_lockouts vs) = epoch_credits vs"
  by (simp_all add: double_lockouts_def Let_def)

lemma double_lockout_slot [simp]: "lk_slot (double_lockout d i l) = lk_slot l"
  by (simp add: double_lockout_def)

lemma tower_double_lockouts: "map lk_slot (votes (double_lockouts vs)) = map lk_slot (votes vs)"
  by (rule nth_equalityI) (simp_all add: double_lockouts_nth)

text \<open>
  Doubling on a stack whose counts are at least their height below the new vote: the count
  becomes the greater of the count and the new height.
\<close>

lemma double_lockout_count:
  assumes "d - i \<le> unat (confirmation_count l) + 1" and "i < d" and "d < 2 ^ 31"
  shows "unat (confirmation_count (double_lockout d i l)) = max (unat (confirmation_count l)) (d - i)"
proof (cases "i + unat (confirmation_count l) < d")
  case True
  then have "unat (confirmation_count l) + 1 < 2 ^ 32" using assms(3) by simp
  then have "unat (confirmation_count l + 1) = unat (confirmation_count l) + 1"
    using unat_add_less [of "confirmation_count l" 1] by simp
  then show ?thesis using True assms by (simp add: double_lockout_def)
qed (use assms in \<open>simp add: double_lockout_def\<close>)

lemma push_count:
  assumes "tower_ok ls" and "length ls < MAX_LOCKOUT_HISTORY" and "i \<le> length ls"
  shows "unat (confirmation_count (double_lockout (Suc (length ls)) i ((ls @ [lockout_new sl]) ! i))) =
    (if i < length ls then max (unat (confirmation_count (ls ! i))) (Suc (length ls) - i) else 1)"
proof (cases "i < length ls")
  case True
  then show ?thesis
    using tower_ok_count [OF assms(1) True] assms(2)
    by (subst double_lockout_count) (auto simp: nth_append MAX_LOCKOUT_HISTORY_def)
next
  case False
  then have "i = length ls" using assms(3) by simp
  then show ?thesis by (simp add: double_lockout_def lockout_new_def)
qed

lemma tower_ok_push:
  assumes ok: "tower_ok ls" and len: "length ls < MAX_LOCKOUT_HISTORY" and newer: "\<forall>l\<in>set ls. lk_slot l < sl"
    and vs: "votes vs = ls @ [lockout_new sl]"
  shows "tower_ok (votes (double_lockouts vs))"
proof -
  let ?ds = "votes (double_lockouts vs)" and ?n = "length ls"
  have l: "length ?ds = Suc ?n" by (simp add: vs)
  have nth: "?ds ! i = double_lockout (Suc ?n) i ((ls @ [lockout_new sl]) ! i)" if "i \<le> ?n" for i
    using that by (simp add: double_lockouts_nth vs)
  have count: "unat (confirmation_count (?ds ! i)) =
      (if i < ?n then max (unat (confirmation_count (ls ! i))) (Suc ?n - i) else 1)" if "i \<le> ?n" for i
    using push_count [OF ok len that] nth [OF that] by simp
  have slot: "lk_slot (?ds ! i) = (if i < ?n then lk_slot (ls ! i) else sl)" if "i \<le> ?n" for i
    using that by (auto simp: nth nth_append lockout_new_def)
  have "above_in_tower (?ds ! i) (?ds ! j)" if "i < j" "j < Suc ?n" for i j
  proof -
    have "lk_slot (?ds ! i) < lk_slot (?ds ! j)"
      using that newer tower_ok_nth(1) [OF ok, of i j] by (simp add: slot)
    moreover have "unat (confirmation_count (?ds ! j)) < unat (confirmation_count (?ds ! i))"
      using that tower_ok_nth(2) [OF ok, of i j] by (auto simp: count word_less_nat_alt max_def)
    ultimately show ?thesis by (simp add: above_in_tower_def word_less_nat_alt)
  qed
  moreover have "0 < unat (confirmation_count (?ds ! i)) \<and>
      unat (confirmation_count (?ds ! i)) \<le> MAX_LOCKOUT_HISTORY" if "i \<le> ?n" for i
    using that len tower_ok_count [OF ok, of i] by (auto simp: count MAX_LOCKOUT_HISTORY_def)
  ultimately show ?thesis
    unfolding tower_ok_def sorted_wrt_iff_nth_less
    using l by (auto simp: in_set_conv_nth word_less_nat_alt less_Suc_eq_le)
qed

section \<open>Credits\<close>

lemma increment_credits_simps [simp]:
  "votes (increment_credits vs ep) = votes vs"
  "root_slot (increment_credits vs ep) = root_slot vs"
  by (simp_all add: increment_credits_def Let_def case_prod_beta)

text \<open>\<open>increment_credits\<close> in two steps: open the entry of the epoch, then count one credit in it.\<close>

definition open_epoch :: "(epoch \<times> u64 \<times> u64) list \<Rightarrow> epoch \<Rightarrow> (epoch \<times> u64 \<times> u64) list" where
  "open_epoch ec ep =
     (if ec = [] then [(ep, 0, 0)]
      else if ep = fst (last ec) then ec
      else
        let ec' = (if fst (snd (last ec)) \<noteq> snd (snd (last ec))
                   then ec @ [(ep, fst (snd (last ec)), fst (snd (last ec)))]
                   else butlast ec @ [(ep, snd (last ec))])
        in if MAX_EPOCH_CREDITS_HISTORY < length ec' then tl ec' else ec')"

lemma increment_credits_eq:
  "epoch_credits (increment_credits vs ep) =
    (let ec = open_epoch (epoch_credits vs) ep in
     butlast ec @ [(fst (last ec), fst (snd (last ec)) + 1, snd (snd (last ec)))])"
  by (auto simp: increment_credits_def open_epoch_def Let_def case_prod_beta)

lemma open_epoch_last:
  "open_epoch ec ep \<noteq> [] \<and> fst (last (open_epoch ec ep)) = ep \<and>
   fst (snd (last (open_epoch ec ep))) = (if ec = [] then 0 else fst (snd (last ec)))"
  by (auto simp: open_epoch_def Let_def MAX_EPOCH_CREDITS_HISTORY_def last_tl tl_append split: list.splits)

lemma credits_increment: "credits (increment_credits vs ep) = credits vs + 1"
  using open_epoch_last [of "epoch_credits vs" ep]
  by (simp add: credits_def increment_credits_eq Let_def)

lemma credits_simps [simp]:
  "credits (vs\<lparr>votes := ls\<rparr>) = credits vs"
  "credits (vs\<lparr>root_slot := r\<rparr>) = credits vs"
  "credits (pop_expired_votes vs sl) = credits vs"
  "credits (double_lockouts vs) = credits vs"
  by (simp_all add: credits_def)

section \<open>A vote\<close>

definition next_votes :: "vote_state \<Rightarrow> slot \<Rightarrow> lockout list" where
  "next_votes vs sl =
     (let ls = votes (pop_expired_votes vs sl)
      in if length ls = MAX_LOCKOUT_HISTORY then tl ls else ls)"

lemma process_next_vote_slot_newer:
  assumes "\<not> not_newer (last_voted_slot vs) sl"
  shows "\<exists>vs2. process_next_vote_slot vs sl ep = double_lockouts vs2 \<and>
    votes vs2 = next_votes vs sl @ [lockout_new sl] \<and>
    (if length (votes (pop_expired_votes vs sl)) = MAX_LOCKOUT_HISTORY
     then root_slot vs2 = Some (lk_slot (hd (votes (pop_expired_votes vs sl)))) \<and> credits vs2 = credits vs + 1
     else root_slot vs2 = root_slot vs \<and> epoch_credits vs2 = epoch_credits vs)"
proof -
  let ?vs1 = "pop_expired_votes vs sl"
  let ?vs2 = "if length (votes ?vs1) = MAX_LOCKOUT_HISTORY
    then increment_credits (?vs1\<lparr>votes := tl (votes ?vs1), root_slot := Some (lk_slot (hd (votes ?vs1)))\<rparr>) ep
    else ?vs1"
  show ?thesis
    using assms
    by (intro exI [of _ "?vs2\<lparr>votes := votes ?vs2 @ [lockout_new sl]\<rparr>"])
       (auto simp: process_next_vote_slot_def Let_def next_votes_def credits_increment)
qed

lemma newer_than_all:
  assumes "tower_ok (votes vs)" and "\<not> not_newer (last_voted_slot vs) sl" and "l \<in> set (votes vs)"
  shows "lk_slot l < sl"
proof -
  have "last_opt (votes vs) = Some (last (votes vs))" using assms(3) by (cases "votes vs") auto
  then have "\<not> sl \<le> lk_slot (last (votes vs))"
    using assms(2) by (simp add: not_newer_def last_voted_slot_def last_lockout_def)
  then show ?thesis using tower_ok_last_max [OF assms(1,3)] by simp
qed

lemma next_votes_sub:
  "\<exists>k n. next_votes vs sl = drop k (take n (votes vs)) \<and> n \<le> length (votes vs) \<and>
     take n (votes vs) = votes (pop_expired_votes vs sl) \<and>
     k = (if n = MAX_LOCKOUT_HISTORY then 1 else 0)"
proof -
  obtain n where n: "n \<le> length (votes vs)" "votes (pop_expired_votes vs sl) = take n (votes vs)"
    using pop_expired_votes_take by blast
  show ?thesis
    by (rule exI [of _ "if n = MAX_LOCKOUT_HISTORY then 1 else 0"], rule exI [of _ n])
       (use n in \<open>auto simp: next_votes_def Let_def drop_Suc\<close>)
qed

lemma next_votes_ok:
  assumes "tower_ok (votes vs)"
  shows "tower_ok (next_votes vs sl) \<and> length (next_votes vs sl) < MAX_LOCKOUT_HISTORY \<and>
    set (next_votes vs sl) \<subseteq> set (votes vs)"
proof -
  obtain k n where kn: "next_votes vs sl = drop k (take n (votes vs))" "n \<le> length (votes vs)"
      "k = (if n = MAX_LOCKOUT_HISTORY then 1 else 0)"
    using next_votes_sub by blast
  have "length (votes vs) \<le> MAX_LOCKOUT_HISTORY" using assms by (rule tower_ok_length)
  then show ?thesis
    using kn assms
    by (auto simp: tower_ok_drop tower_ok_take MAX_LOCKOUT_HISTORY_def dest!: in_set_dropD in_set_takeD)
qed

lemma votes_process_next:
  assumes "tower_ok (votes vs)" and "\<not> not_newer (last_voted_slot vs) sl"
  shows "tower_ok (votes (process_next_vote_slot vs sl ep)) \<and>
    tower (process_next_vote_slot vs sl ep) = map lk_slot (next_votes vs sl) @ [sl]"
proof -
  obtain vs2 where vs2: "process_next_vote_slot vs sl ep = double_lockouts vs2"
      "votes vs2 = next_votes vs sl @ [lockout_new sl]"
    using process_next_vote_slot_newer [OF assms(2)] by blast
  note nv = next_votes_ok [OF assms(1), of sl]
  have "\<forall>l\<in>set (next_votes vs sl). lk_slot l < sl" using nv newer_than_all [OF assms] by blast
  then show ?thesis
    using tower_ok_push [OF _ _ _ vs2(2)] nv vs2
    by (simp add: tower_def tower_double_lockouts lockout_new_def)
qed

lemma tower_set: "r < s \<Longrightarrow> \<forall>l\<in>set ls. r < lk_slot l \<Longrightarrow> \<forall>x\<in>set (map lk_slot ls @ [s]). r < x"
  by auto

lemma vote_state_ok_next:
  assumes "vote_state_ok vs"
  shows "vote_state_ok (process_next_vote_slot vs sl ep)"
proof (cases "not_newer (last_voted_slot vs) sl")
  case True
  then show ?thesis using assms by (simp add: process_next_vote_slot_def)
next
  case False
  let ?vs' = "process_next_vote_slot vs sl ep" and ?pop = "votes (pop_expired_votes vs sl)"
  have ok: "tower_ok (votes vs)" using assms by (simp add: vote_state_ok_def)
  obtain vs2 where vs2: "?vs' = double_lockouts vs2"
      "if length ?pop = MAX_LOCKOUT_HISTORY then root_slot vs2 = Some (lk_slot (hd ?pop))
       else root_slot vs2 = root_slot vs"
    using process_next_vote_slot_newer [OF False, of ep] by (auto split: if_splits)
  have t: "tower_ok (votes ?vs')" "tower ?vs' = map lk_slot (next_votes vs sl) @ [sl]"
    using votes_process_next [OF ok False] by blast+
  have "r < x" if r: "root_slot ?vs' = Some r" and x: "x \<in> set (tower ?vs')" for r x
  proof (cases "length ?pop = MAX_LOCKOUT_HISTORY")
    case True
    then have rr: "r = lk_slot (hd ?pop)" using vs2 r by simp
    obtain n where n: "?pop = take n (votes vs)" using pop_expired_votes_take by blast
    have ne: "?pop \<noteq> []" using True by (auto simp: MAX_LOCKOUT_HISTORY_def)
    have "tower_ok ?pop" unfolding n using ok by (rule tower_ok_take)
    then have "\<forall>l\<in>set (tl ?pop). r < lk_slot l"
      using ne rr by (cases ?pop) (auto simp: tower_ok_def above_in_tower_def)
    moreover have "hd ?pop \<in> set (votes vs)" using ne n by (metis hd_in_set in_set_takeD)
    then have "r < sl" using newer_than_all [OF ok False] rr by simp
    ultimately show ?thesis using x True t(2) by (auto simp: next_votes_def Let_def)
  next
    case False
    then have "root_slot vs = Some r" using vs2 r by simp
    then have "votes vs \<noteq> []" and rl: "\<forall>l\<in>set (votes vs). r < lk_slot l"
      using assms by (auto simp: vote_state_ok_def)
    then have "r < lk_slot (last (votes vs))" "lk_slot (last (votes vs)) < sl"
      using newer_than_all [OF ok \<open>\<not> not_newer (last_voted_slot vs) sl\<close>] by simp_all
    then have "r < sl" by simp
    then show ?thesis using rl next_votes_ok [OF ok, of sl] x t(2) by auto
  qed
  moreover have "votes ?vs' \<noteq> []" using t(2) by (auto simp: tower_def)
  ultimately show ?thesis using t(1) by (auto simp: vote_state_ok_def tower_def)
qed

section \<open>Runs\<close>

lemma vote_state_ok_new: "vote_state_ok (vote_state_new vi clk)"
  by (simp add: vote_state_ok_def vote_state_new_def vote_state_default_def)

lemma vote_state_ok_fold:
  "vote_state_ok vs \<Longrightarrow> vote_state_ok (fold (\<lambda>s vs. process_next_vote_slot vs s ep) slots vs)"
  by (induction slots arbitrary: vs) (auto intro: vote_state_ok_next)

definition vote_step :: "vote_state \<Rightarrow> vote \<times> slot_hashes \<times> epoch \<Rightarrow> (vote_state, vote_error) result" where
  "vote_step vs i = (case i of (v, shs, ep) \<Rightarrow> process_vote vs v shs ep)"

interpretation votes_run: invariant_machine vote_step vote_state_ok
  by unfold_locales
    (auto simp: vote_step_def process_vote_def result_simps vote_state_ok_fold split: if_splits)

text \<open>
  C1: Voting keeps the tower in order. After any sequence of accepted votes on a new vote
  account, with any slot hashes and in any epochs, the slots on the stack strictly ascend, there
  are at most \<open>MAX_LOCKOUT_HISTORY\<close> of them, the confirmation count of each is at least the number
  of votes from it to the top and at most \<open>MAX_LOCKOUT_HISTORY\<close>, counts strictly descend towards the
  top, and the root is below every slot on the stack.
\<close>

theorem tower_invariant:
  assumes "fold_res vote_step (vote_state_new vi clk) is = Ok vs"
  shows "sorted_wrt (<) (tower vs) \<and> length (votes vs) \<le> MAX_LOCKOUT_HISTORY \<and>
    (\<forall>i<length (votes vs). length (votes vs) - i \<le> unat (confirmation_count (votes vs ! i)) \<and>
       unat (confirmation_count (votes vs ! i)) \<le> MAX_LOCKOUT_HISTORY) \<and>
    sorted_wrt (>) (map confirmation_count (votes vs)) \<and>
    (\<forall>r. root_slot vs = Some r \<longrightarrow> (\<forall>s\<in>set (tower vs). r < s))"
proof -
  have ok: "vote_state_ok vs" using vote_state_ok_new assms by (rule votes_run.run_inv)
  then have t: "tower_ok (votes vs)" by (simp add: vote_state_ok_def)
  have "sorted_wrt above_in_tower (votes vs)" using t by (simp add: tower_ok_def)
  then have "sorted_wrt (<) (tower vs)" "sorted_wrt (>) (map confirmation_count (votes vs))"
    unfolding tower_def sorted_wrt_map
    by (auto elim: sorted_wrt_mono_rel [rotated] simp: above_in_tower_def)
  then show ?thesis
    using tower_ok_length [OF t] tower_ok_count [OF t] ok by (auto simp: vote_state_ok_def tower_def)
qed

theorem tower_invariant_witness:
  "\<exists>vs. fold_res vote_step (vote_state_new \<lparr>init_node_pubkey = 1, init_authorized_voter = 2,
        init_authorized_withdrawer = 3, init_commission = 10\<rparr> clock_default)
      [(vote_new [3, 5] 7, [(5, 7), (3, 6)], 0), (vote_new [6] 8, [(6, 8), (5, 7), (3, 6)], 0)] = Ok vs \<and>
     tower vs = [3, 5, 6] \<and> length (votes vs) \<le> MAX_LOCKOUT_HISTORY"
proof -
  obtain r where r: "fold_res vote_step (vote_state_new \<lparr>init_node_pubkey = 1, init_authorized_voter = 2,
        init_authorized_withdrawer = 3, init_commission = 10\<rparr> clock_default)
      [(vote_new [3, 5] 7, [(5, 7), (3, 6)], 0), (vote_new [6] 8, [(6, 8), (5, 7), (3, 6)], 0)] = r"
    by blast
  have "map_ok tower r = Ok [3, 5, 6]" unfolding r [symmetric] by code_simp
  then obtain vs where vs: "r = Ok vs" "tower vs = [3, 5, 6]" by (auto simp: map_ok_Ok_iff)
  have "length (votes vs) \<le> MAX_LOCKOUT_HISTORY" using tower_invariant [OF r [unfolded vs]] by simp
  then show ?thesis unfolding r using vs by simp
qed

lemma in_set_dropWhile: "x \<in> set xs \<Longrightarrow> \<not> P x \<Longrightarrow> x \<in> set (dropWhile P xs)"
  by (induction xs) auto

text \<open>
  C17: Lockouts are kept. A vote that is locked out at the slot of the next vote is not dropped by
  it: afterwards it is still on the stack or it is the root.
\<close>

theorem locked_out_votes_kept:
  assumes "l \<in> set (votes vs)" and "is_locked_out_at_slot l sl"
  shows "lk_slot l \<in> set (tower (process_next_vote_slot vs sl ep)) \<or>
    root_slot (process_next_vote_slot vs sl ep) = Some (lk_slot l)"
proof (cases "not_newer (last_voted_slot vs) sl")
  case True
  then show ?thesis using assms(1) by (simp add: process_next_vote_slot_def tower_def)
next
  case False
  let ?pop = "votes (pop_expired_votes vs sl)"
  obtain vs2 where vs2: "process_next_vote_slot vs sl ep = double_lockouts vs2"
      "votes vs2 = next_votes vs sl @ [lockout_new sl]"
      "length ?pop = MAX_LOCKOUT_HISTORY \<Longrightarrow> root_slot vs2 = Some (lk_slot (hd ?pop))"
    using process_next_vote_slot_newer [OF False, of ep] by (auto split: if_splits)
  have "l \<in> set ?pop"
    using assms in_set_dropWhile [of l "rev (votes vs)" "\<lambda>l. \<not> is_locked_out_at_slot l sl"]
    by (simp add: pop_expired_votes_def)
  then have "l \<in> set (next_votes vs sl) \<or> length ?pop = MAX_LOCKOUT_HISTORY \<and> l = hd ?pop"
    by (cases ?pop) (auto simp: next_votes_def Let_def)
  then show ?thesis
    using vs2 by (auto simp: tower_def tower_double_lockouts)
qed

theorem locked_out_votes_kept_witness:
  "let vs = vote_state_default\<lparr>votes := [\<lparr>lk_slot = 3, confirmation_count = 2\<rparr>, \<lparr>lk_slot = 5, confirmation_count = 1\<rparr>]\<rparr>
   in is_locked_out_at_slot \<lparr>lk_slot = 5, confirmation_count = 1\<rparr> 6 \<and>
     (5 \<in> set (tower (process_next_vote_slot vs 6 0)) \<or> root_slot (process_next_vote_slot vs 6 0) = Some 5)"
proof -
  let ?l = "\<lparr>lk_slot = 5, confirmation_count = 1\<rparr>"
  let ?vs = "vote_state_default\<lparr>votes := [\<lparr>lk_slot = 3, confirmation_count = 2\<rparr>, ?l]\<rparr>"
  have 1: "?l \<in> set (votes ?vs)" by simp
  have 2: "is_locked_out_at_slot ?l 6" by code_simp
  show ?thesis using locked_out_votes_kept [OF 1 2, of 0] 2 by (simp add: Let_def)
qed

lemma pop_expired_votes_full:
  assumes "length (votes vs) \<le> n" and "0 < n"
  shows "length (votes (pop_expired_votes vs sl)) = n \<longleftrightarrow>
    length (votes vs) = n \<and> is_locked_out_at_slot (last (votes vs)) sl"
proof (cases "votes vs" rule: rev_cases)
  case Nil
  then show ?thesis using assms by (simp add: pop_expired_votes_def)
next
  case (snoc ls l)
  have "length (dropWhile (\<lambda>l. \<not> is_locked_out_at_slot l sl) (rev ls)) < n"
    using length_dropWhile_le [of "\<lambda>l. \<not> is_locked_out_at_slot l sl" "rev ls"] assms(1) snoc by simp
  then show ?thesis using snoc by (auto simp: pop_expired_votes_def)
qed

text \<open>
  C18: When the root advances, and to what. A vote for a newer slot on a full stack whose newest vote
  is locked out at that slot moves the root up to the oldest vote on the stack, whose confirmation
  count is then \<open>MAX_LOCKOUT_HISTORY\<close>, and adds one credit. Every other vote leaves root and credits
  alone.
\<close>

theorem root_advances:
  assumes "vote_state_ok vs"
  shows "if (\<forall>l. last_voted_slot vs = Some l \<longrightarrow> l < sl) \<and> length (votes vs) = MAX_LOCKOUT_HISTORY \<and>
      is_locked_out_at_slot (last (votes vs)) sl
    then votes vs \<noteq> [] \<and> unat (confirmation_count (hd (votes vs))) = MAX_LOCKOUT_HISTORY \<and>
      root_slot (process_next_vote_slot vs sl ep) = Some (lk_slot (hd (votes vs))) \<and>
      (\<forall>r. root_slot vs = Some r \<longrightarrow> r < lk_slot (hd (votes vs))) \<and>
      credits (process_next_vote_slot vs sl ep) = credits vs + 1
    else root_slot (process_next_vote_slot vs sl ep) = root_slot vs \<and>
      epoch_credits (process_next_vote_slot vs sl ep) = epoch_credits vs"
proof (cases "not_newer (last_voted_slot vs) sl")
  case True
  then show ?thesis by (auto simp: process_next_vote_slot_def not_newer_def split: option.splits)
next
  case False
  let ?pop = "votes (pop_expired_votes vs sl)"
  have t: "tower_ok (votes vs)" using assms by (simp add: vote_state_ok_def)
  have newer: "\<forall>l. last_voted_slot vs = Some l \<longrightarrow> l < sl" using False by (auto simp: not_newer_def)
  obtain vs2 where vs2: "process_next_vote_slot vs sl ep = double_lockouts vs2"
      "if length ?pop = MAX_LOCKOUT_HISTORY
       then root_slot vs2 = Some (lk_slot (hd ?pop)) \<and> credits vs2 = credits vs + 1
       else root_slot vs2 = root_slot vs \<and> epoch_credits vs2 = epoch_credits vs"
    using process_next_vote_slot_newer [OF False, of ep] by blast
  have "length (votes vs) \<le> MAX_LOCKOUT_HISTORY" using t by (rule tower_ok_length)
  note full_iff = pop_expired_votes_full [OF this, of sl]
  show ?thesis
  proof (cases "length ?pop = MAX_LOCKOUT_HISTORY")
    case full: True
    obtain n where n: "n \<le> length (votes vs)" "?pop = take n (votes vs)"
      using pop_expired_votes_take by blast
    have len: "length (votes vs) = MAX_LOCKOUT_HISTORY" and locked: "is_locked_out_at_slot (last (votes vs)) sl"
      using full_iff full by (auto simp: MAX_LOCKOUT_HISTORY_def)
    then have pop: "?pop = votes vs" using n full by auto
    have ne: "votes vs \<noteq> []" using len by (auto simp: MAX_LOCKOUT_HISTORY_def)
    then have "unat (confirmation_count (hd (votes vs))) = MAX_LOCKOUT_HISTORY"
      using tower_ok_count [OF t, of 0] len by (simp add: hd_conv_nth MAX_LOCKOUT_HISTORY_def)
    then show ?thesis
      using vs2 full pop ne assms newer len locked by (auto simp: vote_state_ok_def)
  next
    case False
    then have "\<not> (length (votes vs) = MAX_LOCKOUT_HISTORY \<and> is_locked_out_at_slot (last (votes vs)) sl)"
      using full_iff by (simp add: MAX_LOCKOUT_HISTORY_def)
    then show ?thesis using vs2 False by auto
  qed
qed

text \<open>Votes on the slots 0 to 30 fill the stack; the vote on the slot 31 roots the slot 0.\<close>

theorem root_advances_witness:
  "let vs = fold (\<lambda>s vs. process_next_vote_slot vs s 0) (map word_of_nat [0..<31]) vote_state_default
   in vote_state_ok vs \<and> root_slot vs = None \<and> root_slot (process_next_vote_slot vs 31 0) = Some 0 \<and>
      credits (process_next_vote_slot vs 31 0) = credits vs + 1"
proof -
  define vs where "vs = fold (\<lambda>s vs. process_next_vote_slot vs s 0) (map word_of_nat [0..<31]) vote_state_default"
  have ok: "vote_state_ok vs"
    unfolding vs_def by (rule vote_state_ok_fold) (simp add: vote_state_ok_def vote_state_default_def)
  have "(last_voted_slot vs, length (votes vs), is_locked_out_at_slot (last (votes vs)) 31, root_slot vs,
      lk_slot (hd (votes vs))) = (Some 30, MAX_LOCKOUT_HISTORY, True, None, 0)"
    unfolding vs_def by code_simp
  then show ?thesis
    using root_advances [OF ok, of 31 0] ok unfolding vs_def [symmetric] Let_def by simp
qed

end
