(* ===== verification/Vote_Credits.thy ===== *)
theory Vote_Credits
  imports Vote_Tower
begin

text \<open>
  What a vote account earns: the history of its credits, the split of a reward by the
  commission, and how the tower of a validator that votes on every slot grows and roots.
\<close>

section \<open>The history of credits\<close>

text \<open>
  An entry \<open>(epoch, credits, prev_credits)\<close> continues the one before it, the epochs ascend and
  the credits do not fall within an epoch.
\<close>

definition credits_ok :: "(epoch \<times> u64 \<times> u64) list \<Rightarrow> bool" where
  "credits_ok ec \<longleftrightarrow> length ec \<le> MAX_EPOCH_CREDITS_HISTORY \<and>
     sorted_wrt (<) (map fst ec) \<and> (\<forall>(_, c, p)\<in>set ec. p \<le> c) \<and>
     (\<forall>i. Suc i < length ec \<longrightarrow> snd (snd (ec ! Suc i)) = fst (snd (ec ! i)))"

lemma credits_ok_snoc:
  assumes "ec \<noteq> []"
  shows "credits_ok (ec @ [(e, c, p)]) \<longleftrightarrow>
    credits_ok ec \<and> length ec < MAX_EPOCH_CREDITS_HISTORY \<and> fst (last ec) < e \<and> p \<le> c \<and> p = fst (snd (last ec))"
proof -
  have "(\<forall>i. Suc i < length (ec @ [(e, c, p)]) \<longrightarrow>
        snd (snd ((ec @ [(e, c, p)]) ! Suc i)) = fst (snd ((ec @ [(e, c, p)]) ! i))) \<longleftrightarrow>
      (\<forall>i. Suc i < length ec \<longrightarrow> snd (snd (ec ! Suc i)) = fst (snd (ec ! i))) \<and> p = fst (snd (last ec))"
    using assms by (auto simp: nth_append last_conv_nth less_Suc_eq)
      (metis Suc_pred diff_Suc_1 length_greater_0_conv less_Suc_eq)+
  moreover have "sorted_wrt (<) (map fst (ec @ [(e, c, p)])) \<longleftrightarrow> sorted_wrt (<) (map fst ec) \<and> fst (last ec) < e"
    using assms by (induction ec rule: rev_induct) (auto simp: sorted_wrt_append)
  ultimately show ?thesis by (auto simp: credits_ok_def)
qed

lemma credits_ok_single: "credits_ok [(e, c, p)] \<longleftrightarrow> p \<le> c"
  by (simp add: credits_ok_def MAX_EPOCH_CREDITS_HISTORY_def)

lemma credits_ok_tl: "credits_ok ec \<Longrightarrow> credits_ok (tl ec)"
  by (cases ec) (auto simp: credits_ok_def)

text \<open>Replacing the last entry.\<close>

lemma credits_ok_replace:
  assumes "credits_ok (xs @ [(e, c, p)])" and "p \<le> c'" and "xs = [] \<or> fst (last xs) < e'"
  shows "credits_ok (xs @ [(e', c', p)])"
  using assms by (cases "xs = []") (auto simp: credits_ok_single credits_ok_snoc)

lemma open_epoch_ok:
  assumes ok: "credits_ok ec" and later: "ec \<noteq> [] \<Longrightarrow> fst (last ec) \<le> ep"
  shows "credits_ok (open_epoch ec ep)"
proof (cases ec rule: rev_cases)
  case Nil
  then show ?thesis by (simp add: open_epoch_def credits_ok_single)
next
  case (snoc xs x)
  obtain e c p where x: "x = (e, c, p)" by (cases x) auto
  show ?thesis
  proof (cases "ep = e")
    case True
    then show ?thesis using ok by (simp add: open_epoch_def snoc x)
  next
    case False
    then have lt: "e < ep" using later by (simp add: snoc x)
    show ?thesis
    proof (cases "c = p")
      case True
      have ok': "credits_ok (xs @ [(e, c, p)])" using ok by (simp add: snoc x)
      then have "xs = [] \<or> fst (last xs) < e" by (cases "xs = []") (simp_all add: credits_ok_snoc)
      then have "xs = [] \<or> fst (last xs) < ep" using lt by auto
      moreover have "p \<le> c" by (simp add: True)
      ultimately have "credits_ok (xs @ [(ep, c, p)])" using credits_ok_replace [OF ok'] by blast
      moreover have "\<not> MAX_EPOCH_CREDITS_HISTORY < length (xs @ [(ep, c, p)])"
        using ok by (simp add: credits_ok_def snoc)
      ultimately show ?thesis using False True by (simp add: open_epoch_def snoc x)
    next
      case ne: False
      let ?ec = "ec @ [(ep, c, c)]"
      have o: "open_epoch ec ep = (if MAX_EPOCH_CREDITS_HISTORY < length ?ec then tl ?ec else ?ec)"
        using False ne by (simp add: open_epoch_def snoc x)
      have len: "length ec \<le> MAX_EPOCH_CREDITS_HISTORY" using ok by (simp add: credits_ok_def)
      show ?thesis
      proof (cases "MAX_EPOCH_CREDITS_HISTORY < length ?ec")
        case full: True
        then have "xs \<noteq> []" by (auto simp: snoc MAX_EPOCH_CREDITS_HISTORY_def)
        then have t: "tl ec = tl xs @ [(e, c, p)]" by (simp add: snoc x)
        have "length (tl ec) < MAX_EPOCH_CREDITS_HISTORY"
          using len by (simp add: MAX_EPOCH_CREDITS_HISTORY_def)
        then have "credits_ok (tl ec @ [(ep, c, c)])"
          using credits_ok_tl [OF ok] lt unfolding t
          by (subst credits_ok_snoc) auto
        moreover have "tl ?ec = tl ec @ [(ep, c, c)]" by (rule tl_append2) (simp add: snoc)
        ultimately show ?thesis using o full by simp
      next
        case False
        have "credits_ok ?ec"
          using credits_ok_snoc [of ec ep c c] ok lt False by (simp add: snoc x)
        then show ?thesis using o False by simp
      qed
    qed
  qed
qed

text \<open>
  Counting a credit keeps the history well formed: at most \<open>MAX_EPOCH_CREDITS_HISTORY\<close> entries,
  epochs ascending, every entry starting at the credits where the one before it ended and not
  falling. The last entry is the one of the epoch and the credits have grown by one. This holds
  in every epoch that is not before the last one recorded, short of the last \<open>u64\<close> credit.
\<close>

lemma increment_credits_ok:
  assumes "credits_ok (epoch_credits vs)" and "current_epoch vs \<le> ep" and "credits vs \<noteq> - 1"
  shows "credits_ok (epoch_credits (increment_credits vs ep)) \<and>
    current_epoch (increment_credits vs ep) = ep \<and>
    unat (credits (increment_credits vs ep)) = unat (credits vs) + 1"
proof -
  let ?o = "open_epoch (epoch_credits vs) ep"
  note l = open_epoch_last [of "epoch_credits vs" ep]
  obtain xs c p where o: "?o = xs @ [(ep, c, p)]"
    using l by (cases ?o rule: rev_cases) auto
  have ok: "credits_ok (xs @ [(ep, c, p)])"
    unfolding o [symmetric]
    by (rule open_epoch_ok [OF assms(1)]) (use assms(2) in \<open>simp add: current_epoch_def\<close>)
  have c: "c = credits vs" using l by (simp add: o credits_def)
  have u: "unat (c + 1) = unat c + 1"
    using assms(3) c unatSuc [of c] by (simp add: add.commute eq_neg_iff_add_eq_0)
  have eq: "epoch_credits (increment_credits vs ep) = xs @ [(ep, c + 1, p)]"
    by (simp add: increment_credits_eq o)
  have "p \<le> c" using ok by (auto simp: credits_ok_def)
  then have "p \<le> c + 1" using u by (simp add: word_le_nat_alt)
  moreover have "xs = [] \<or> fst (last xs) < ep"
    using ok by (cases "xs = []") (simp_all add: credits_ok_snoc)
  ultimately have "credits_ok (xs @ [(ep, c + 1, p)])" by (rule credits_ok_replace [OF ok])
  then show ?thesis using u c by (simp add: eq current_epoch_def credits_def)
qed

lemma increment_credits_ok_example:
  "let vs = vote_state_default\<lparr>epoch_credits := [(3, 7, 2), (5, 9, 7)]\<rparr> in
   credits_ok (epoch_credits (increment_credits vs 6)) \<and>
   current_epoch (increment_credits vs 6) = 6 \<and>
   unat (credits (increment_credits vs 6)) = unat (credits vs) + 1"
  unfolding Let_def
  by (rule increment_credits_ok)
     (simp_all add: credits_ok_def current_epoch_def credits_def MAX_EPOCH_CREDITS_HISTORY_def)

section \<open>The commission\<close>

lemma unat_commission_part:
  assumes "unat (k::u8) \<le> 100"
  shows "unat (ucast ((ucast (on::u64) :: u128) * ucast k div 100) :: u64) = unat on * unat k div 100"
proof -
  have on: "unat (ucast on :: u128) = unat on" and k: "unat (ucast k :: u128) = unat k"
    by (simp_all add: unsigned_ucast_eq take_bit_nat_eq_self_iff)
       (use unat_u64_bound [of on] unat_bound [of k] in simp_all)
  have le: "unat on * unat k \<le> unat on * 100" using assms by simp
  also have "\<dots> < 2 ^ 128" using unat_u64_bound [of on] by simp
  finally have m: "unat ((ucast on :: u128) * ucast k) = unat on * unat k"
    by (simp add: unat_mul_less on k)
  have "unat on * unat k div 100 \<le> unat on" using div_le_mono [OF le, of 100] by simp
  then have "unat on * unat k div 100 < 2 ^ 64" using unat_u64_bound [of on] by simp
  then show ?thesis
    by (simp add: unsigned_ucast_eq take_bit_nat_eq_self_iff unat_div m)
qed

text \<open>
  The commission splits a reward without creating lamports: voter and staker together receive
  at most the reward, and all of it but at most one lamport; the voter's part is the floor of the
  commission percentage, capped at 100, and with a commission of 0 or of 100 or more the whole
  reward goes to one side. No intermediate product overflows.
\<close>

lemma commission_split_sound:
  assumes "commission_split vs on = (mine, theirs, split)"
  shows "unat mine + unat theirs \<le> unat on \<and> unat on \<le> unat mine + unat theirs + 1 \<and>
    unat mine = unat on * min (unat (commission vs)) 100 div 100 \<and>
    (\<not> split \<longrightarrow> mine + theirs = on) \<and>
    (split \<longleftrightarrow> 0 < commission vs \<and> commission vs < 100)"
proof -
  let ?k = "min (commission vs) 100"
  have k: "unat ?k = min (unat (commission vs)) 100" by (simp add: min_def word_le_nat_alt)
  consider "commission vs = 0" | "100 \<le> commission vs" | "0 < commission vs \<and> commission vs < 100"
    using word_gt_0 [of "commission vs"] by force
  then show ?thesis
  proof cases
    case 1
    then show ?thesis using assms by (auto simp: commission_split_def)
  next
    case 2
    then have "?k = 100" "min (unat (commission vs)) 100 = 100" by (auto simp: min_absorb2 word_le_nat_alt)
    then show ?thesis using assms 2 by (auto simp: commission_split_def)
  next
    case 3
    then have kc: "?k = commission vs" and ne: "commission vs \<noteq> 0" "commission vs \<noteq> 100"
      by (auto simp: min_def less_imp_le)
    have k100: "?k \<le> 100" by simp
    then have r: "unat (100 - ?k) = 100 - unat ?k" by (simp add: unat_sub)
    have ke: "unat ?k \<le> 100" using k100 by (simp add: word_le_nat_alt)
    have m: "unat mine = unat on * unat ?k div 100" and t: "unat theirs = unat on * (100 - unat ?k) div 100"
      and sp: "split"
      using assms 3 unat_commission_part [OF ke, of on] unat_commission_part [of "100 - ?k" on] r ke
      by (simp_all add: commission_split_def Let_def kc ne)
    have s: "unat on * unat ?k + unat on * (100 - unat ?k) = unat on * 100"
      using ke by (simp add: distrib_left [symmetric])
    have "a div 100 + b div 100 \<le> n \<and> n \<le> a div 100 + b div 100 + 1" if "a + b = n * 100" for a b n :: nat
      using that div_mult_mod_eq [of a 100] div_mult_mod_eq [of b 100]
        mod_less_divisor [of 100 a] mod_less_divisor [of 100 b] by linarith
    from this [OF s] have "unat mine + unat theirs \<le> unat on \<and> unat on \<le> unat mine + unat theirs + 1"
      by (simp only: m t)
    then show ?thesis using m sp k 3 by simp
  qed
qed

section \<open>Voting on every slot\<close>

text \<open>The tower after \<open>n\<close> votes on the slots from \<open>a\<close> on.\<close>

definition steady_votes :: "nat \<Rightarrow> nat \<Rightarrow> lockout list" where
  "steady_votes a n =
     (let k = min n MAX_LOCKOUT_HISTORY
      in map (\<lambda>i. \<lparr>lk_slot = word_of_nat (a + (n - k) + i), confirmation_count = word_of_nat (k - i)\<rparr>) [0..<k])"

lemma length_steady [simp]: "length (steady_votes a n) = min n MAX_LOCKOUT_HISTORY"
  by (simp add: steady_votes_def Let_def)

lemma steady_ne: "0 < n \<Longrightarrow> steady_votes a n \<noteq> []"
  by (simp add: length_0_conv [symmetric] MAX_LOCKOUT_HISTORY_def del: length_0_conv)

lemma nth_steady:
  "i < min n MAX_LOCKOUT_HISTORY \<Longrightarrow> steady_votes a n ! i =
    \<lparr>lk_slot = word_of_nat (a + (n - min n MAX_LOCKOUT_HISTORY) + i),
     confirmation_count = word_of_nat (min n MAX_LOCKOUT_HISTORY - i)\<rparr>"
  by (simp add: steady_votes_def Let_def)

lemma last_steady:
  assumes "0 < n"
  shows "last (steady_votes a n) = \<lparr>lk_slot = word_of_nat (a + (n - 1)), confirmation_count = 1\<rparr>"
proof -
  have ne: "steady_votes a n \<noteq> []" using assms by (rule steady_ne)
  show ?thesis
    using assms by (simp add: last_conv_nth [OF ne] nth_steady MAX_LOCKOUT_HISTORY_def min_def)
qed

lemma double_small:
  assumes "c < 31" and "i + c < d"
  shows "double_lockout d i \<lparr>lk_slot = s, confirmation_count = word_of_nat c\<rparr> =
    \<lparr>lk_slot = s, confirmation_count = word_of_nat (Suc c)\<rparr>"
proof -
  have "unat (word_of_nat c :: u32) = c" using assms(1) by (intro unat_word_of_nat_less) simp
  then show ?thesis using assms(2) by (simp add: double_lockout_def add.commute)
qed

lemma steady_pop:
  assumes "votes vs = steady_votes a n" and "a + n + 2 < 2 ^ 64"
  shows "votes (pop_expired_votes vs (word_of_nat (a + n))) = steady_votes a n"
proof (cases "n = 0")
  case True
  then show ?thesis using assms by (simp add: pop_expired_votes_def steady_votes_def)
next
  case False
  let ?l = "last (steady_votes a n)"
  have ne: "steady_votes a n \<noteq> []" using False by (simp add: steady_ne)
  have "last_locked_out_slot ?l = word_of_nat (a + (n - 1)) + 2"
    using False by (simp add: last_steady last_locked_out_slot_def lockout_slots_def INITIAL_LOCKOUT_def)
  also have "\<dots> = word_of_nat (a + n + 1)" using False by (cases n) simp_all
  finally have "unat (last_locked_out_slot ?l) = unat (word_of_nat (a + n + 1) :: slot)" by simp
  also have "\<dots> = a + n + 1" using assms(2) by (intro unat_word_of_nat_less) simp
  moreover have "unat (word_of_nat (a + n) :: slot) = a + n"
    using assms(2) by (intro unat_word_of_nat_less) simp
  ultimately have "is_locked_out_at_slot ?l (word_of_nat (a + n))"
    by (simp add: is_locked_out_at_slot_def word_le_nat_alt del: of_nat_add)
  then have "dropWhile (\<lambda>l. \<not> is_locked_out_at_slot l (word_of_nat (a + n))) (rev (steady_votes a n)) =
      rev (steady_votes a n)"
    using ne by (cases "steady_votes a n" rule: rev_cases) auto
  then show ?thesis using assms(1) by (simp add: pop_expired_votes_def)
qed

lemma steady_next:
  assumes "votes vs = steady_votes a n" and "a + n + 2 < 2 ^ 64"
  shows "votes (process_next_vote_slot vs (word_of_nat (a + n)) ep) = steady_votes a (Suc n) \<and>
    (if n < MAX_LOCKOUT_HISTORY
     then root_slot (process_next_vote_slot vs (word_of_nat (a + n)) ep) = root_slot vs \<and>
       credits (process_next_vote_slot vs (word_of_nat (a + n)) ep) = credits vs
     else root_slot (process_next_vote_slot vs (word_of_nat (a + n)) ep) =
         Some (word_of_nat (a + (n - MAX_LOCKOUT_HISTORY))) \<and>
       credits (process_next_vote_slot vs (word_of_nat (a + n)) ep) = credits vs + 1)"
proof -
  let ?s = "word_of_nat (a + n) :: slot" and ?m = "min n MAX_LOCKOUT_HISTORY"
  have new: "\<not> not_newer (last_voted_slot vs) ?s"
  proof (cases "n = 0")
    case True
    then show ?thesis using assms(1) by (simp add: not_newer_def last_voted_slot_def last_lockout_def steady_votes_def)
  next
    case False
    then have "last_opt (votes vs) = Some (last (steady_votes a n))"
      using assms(1) by (simp add: last_opt_Some_iff steady_ne)
    moreover have "unat (word_of_nat (a + n) :: slot) = a + n"
        "unat (word_of_nat (a + (n - 1)) :: slot) = a + (n - 1)"
      using assms(2) by (intro unat_word_of_nat_less; simp)+
    ultimately show ?thesis
      using False
      by (simp add: not_newer_def last_voted_slot_def last_lockout_def last_steady word_le_nat_alt
          del: of_nat_add of_nat_diff)
  qed
  note pop = steady_pop [OF assms]
  have nv: "next_votes vs ?s = (if n < MAX_LOCKOUT_HISTORY then steady_votes a n else tl (steady_votes a n))"
    unfolding next_votes_def pop by (auto simp: Let_def min_def)
  have len: "length (next_votes vs ?s @ [lockout_new ?s]) = min (Suc n) MAX_LOCKOUT_HISTORY"
    unfolding length_append nv by (auto simp: min_def MAX_LOCKOUT_HISTORY_def)
  obtain vs2 where vs2: "process_next_vote_slot vs ?s ep = double_lockouts vs2"
      "votes vs2 = next_votes vs ?s @ [lockout_new ?s]"
      "if length (steady_votes a n) = MAX_LOCKOUT_HISTORY
       then root_slot vs2 = Some (lk_slot (hd (steady_votes a n))) \<and> credits vs2 = credits vs + 1
       else root_slot vs2 = root_slot vs \<and> epoch_credits vs2 = epoch_credits vs"
    using process_next_vote_slot_newer [OF new, of ep] unfolding pop by blast
  have "votes (double_lockouts vs2) = steady_votes a (Suc n)"
  proof (rule nth_equalityI)
    fix i assume "i < length (votes (double_lockouts vs2))"
    then have i: "i < min (Suc n) MAX_LOCKOUT_HISTORY" using len by (simp add: vs2(2))
    have d: "votes (double_lockouts vs2) ! i =
        double_lockout (min (Suc n) MAX_LOCKOUT_HISTORY) i ((next_votes vs ?s @ [lockout_new ?s]) ! i)"
      using i len by (simp add: double_lockouts_nth vs2(2))
    show "votes (double_lockouts vs2) ! i = steady_votes a (Suc n) ! i"
    proof (cases "Suc i = min (Suc n) MAX_LOCKOUT_HISTORY")
      case True
      then have "(next_votes vs ?s @ [lockout_new ?s]) ! i = lockout_new ?s"
        using len by (simp add: nth_append)
      moreover have "a + (Suc n - min (Suc n) MAX_LOCKOUT_HISTORY) + i = a + n" using True by (auto simp: min_def)
      moreover have "min (Suc n) MAX_LOCKOUT_HISTORY - i = 1" using True by simp
      ultimately show ?thesis
        using i True unfolding d nth_steady [OF i] by (simp add: double_lockout_def lockout_new_def)
    next
      case False
      have "Suc (length (next_votes vs ?s)) = min (Suc n) MAX_LOCKOUT_HISTORY" using len by simp
      then have i': "i < length (next_votes vs ?s)" using i False by linarith
      let ?c = "(if n < MAX_LOCKOUT_HISTORY then n else MAX_LOCKOUT_HISTORY - 1) - i"
      have "(next_votes vs ?s @ [lockout_new ?s]) ! i =
          \<lparr>lk_slot = word_of_nat (a + (Suc n - min (Suc n) MAX_LOCKOUT_HISTORY) + i),
           confirmation_count = word_of_nat ?c\<rparr>"
        using i' unfolding nth_append nv
        by (auto simp: nth_steady nth_tl min_def MAX_LOCKOUT_HISTORY_def
            simp del: of_nat_add of_nat_diff of_nat_Suc intro!: arg_cong [of _ _ word_of_nat] split: if_splits)
      moreover have "Suc ?c = min (Suc n) MAX_LOCKOUT_HISTORY - i" "?c < 31" "i + ?c < min (Suc n) MAX_LOCKOUT_HISTORY"
        using i False by (auto simp: MAX_LOCKOUT_HISTORY_def min_def split: if_splits)
      ultimately show ?thesis
        unfolding d nth_steady [OF i] by (simp only: double_small)
    qed
  qed (use len in \<open>simp add: vs2(2)\<close>)
  moreover have "hd (steady_votes a n) = steady_votes a n ! 0" if "\<not> n < MAX_LOCKOUT_HISTORY"
    using that by (intro hd_conv_nth steady_ne) (auto simp: MAX_LOCKOUT_HISTORY_def)
  ultimately show ?thesis
    using vs2 by (auto simp: nth_steady min_def credits_def MAX_LOCKOUT_HISTORY_def split: if_splits)
qed

text \<open>
  C36: A validator that votes on every slot roots. After \<open>n\<close> votes on consecutive slots, on a new
  vote account, the stack holds the last \<open>MAX_LOCKOUT_HISTORY\<close> of them with their confirmation
  counts, and from then on every further vote moves the root up by one slot and earns one credit:
  the root is the slot \<open>MAX_LOCKOUT_HISTORY\<close> votes below the last one.
\<close>

theorem consecutive_votes_root:
  assumes "a + n + 2 < 2 ^ 64"
  shows "let vs = fold (\<lambda>s vs. process_next_vote_slot vs s ep) (map word_of_nat [a..<a + n]) (vote_state_new vi clk)
    in votes vs = steady_votes a n \<and> unat (credits vs) = n - MAX_LOCKOUT_HISTORY \<and>
      root_slot vs = (if n \<le> MAX_LOCKOUT_HISTORY then None else Some (word_of_nat (a + n - 1 - MAX_LOCKOUT_HISTORY)))"
  using assms
proof (induction n)
  case 0
  show ?case
    by (simp add: steady_votes_def vote_state_new_def vote_state_default_def credits_def)
next
  case (Suc n)
  let ?vs = "fold (\<lambda>s vs. process_next_vote_slot vs s ep) (map word_of_nat [a..<a + n]) (vote_state_new vi clk)"
  have IH: "votes ?vs = steady_votes a n" "unat (credits ?vs) = n - MAX_LOCKOUT_HISTORY"
      "root_slot ?vs = (if n \<le> MAX_LOCKOUT_HISTORY then None else Some (word_of_nat (a + n - 1 - MAX_LOCKOUT_HISTORY)))"
    using Suc by (simp_all add: Let_def)
  have bound: "a + n + 2 < 2 ^ 64" using Suc.prems by simp
  note step = steady_next [OF IH(1) bound, of ep]
  have cr: "unat (credits ?vs + 1) = unat (credits ?vs) + 1"
    using IH(2) Suc.prems unat_add_less [of "credits ?vs" 1] by simp
  have fold: "fold (\<lambda>s vs. process_next_vote_slot vs s ep) (map word_of_nat [a..<a + Suc n]) (vote_state_new vi clk) =
      process_next_vote_slot ?vs (word_of_nat (a + n)) ep"
    by simp
  show ?case
  proof (cases "n < MAX_LOCKOUT_HISTORY")
    case True
    then show ?thesis unfolding Let_def fold using step IH by simp
  next
    case False
    have "a + (n - MAX_LOCKOUT_HISTORY) = a + Suc n - 1 - MAX_LOCKOUT_HISTORY" using False by simp
    then show ?thesis unfolding Let_def fold using step IH cr False by (simp del: of_nat_add of_nat_diff)
  qed
qed

theorem consecutive_votes_root_witness:
  "let vs = fold (\<lambda>s vs. process_next_vote_slot vs s 0) (map word_of_nat [5..<45])
     (vote_state_new \<lparr>init_node_pubkey = 1, init_authorized_voter = 2, init_authorized_withdrawer = 3,
        init_commission = 10\<rparr> clock_default)
   in unat (credits vs) = 9 \<and> root_slot vs = Some 13"
  using consecutive_votes_root [of 5 40 0 "\<lparr>init_node_pubkey = 1, init_authorized_voter = 2,
      init_authorized_withdrawer = 3, init_commission = 10\<rparr>" clock_default]
  by (simp add: Let_def MAX_LOCKOUT_HISTORY_def del: upt_rec_numeral)

end
