(* ===== verification/Program_Context.thy ===== *)
theory Program_Context
  imports Account_Model
begin

text \<open>
  What a native program sees when it is invoked (\<open>sdk/src/process_instruction.rs\<close>): its keyed
  accounts and which features are active. The features are those the modelled programs ask
  for (\<open>sdk/src/feature_set.rs\<close>). \<open>ic_keyed_accounts\<close> is what \<open>get_keyed_accounts\<close> returns for
  the current frame of the invocation stack, \<open>ic_sysvar_data\<close> what \<open>get_sysvar_data\<close> returns.
\<close>

datatype feature =
  Feature_check_program_owner
| Feature_check_init_vote_data
| Feature_vote_stake_checked_instructions
| Feature_dedupe_config_program_signers
| Feature_rent_for_sysvars
| Feature_system_transfer_zero_check
| Feature_instructions_sysvar_enabled
| Feature_neon_evm_compute_budget
| Feature_tx_wide_compute_cap
| Feature_updated_verify_policy
| Feature_require_custodian_for_locked_stake_authorize
| Feature_stake_program_v4

record invoke_context =
  ic_feature_active :: "feature \<Rightarrow> bool"
  ic_keyed_accounts :: "keyed_account list"
  ic_sysvar_data :: "pubkey \<Rightarrow> u8 list option"

text \<open>
  The encoding of instructions is a parameter; the limit on the bytes that \<open>bincode\<close> reads is part of it.
\<close>

definition limited_deserialize :: "'t codec \<Rightarrow> u8 list \<Rightarrow> ('t, instruction_error) result" where
  "limited_deserialize c instruction_data =
     ok_or (bincode_deserialize c instruction_data) InvalidInstructionData"

text \<open>The state of an invocation that the conservation theorems are about.\<close>

definition accounts_present :: "invoke_context \<Rightarrow> store \<Rightarrow> bool" where
  "accounts_present ic st \<longleftrightarrow> (\<forall>ka\<in>set (ic_keyed_accounts ic). in_store st ka)"

lemma keyed_account_present:
  "accounts_present ic st \<Longrightarrow> keyed_account_at_index (ic_keyed_accounts ic) i = Ok ka \<Longrightarrow> in_store st ka"
  by (auto simp: accounts_present_def result_simps)

lemma accounts_present_length:
  "accounts_present ic st \<Longrightarrow> length st' = length st \<Longrightarrow> accounts_present ic st'"
  by (simp add: accounts_present_def in_store_def)

text \<open>
  Results that change the store but neither its length nor its total: what every handler of a
  native program has to give.
\<close>

definition conserves :: "store \<Rightarrow> (store, 'e) result \<Rightarrow> bool" where
  "conserves st r \<longleftrightarrow> (\<forall>st'. r = Ok st' \<longrightarrow> length st' = length st \<and> total_lamports st' = total_lamports st)"

named_theorems conserve_intros \<open>handlers that conserve lamports\<close>

lemma conserves_Err [conserve_intros]: "conserves st (Err e)"
  by (simp add: conserves_def)

lemma conserves_Panic [conserve_intros]: "conserves st Panic"
  by (simp add: conserves_def)

lemma conserves_Ok [conserve_intros]: "conserves st (Ok st)"
  by (simp add: conserves_def)

lemma conserves_if [conserve_intros]:
  "(b \<Longrightarrow> conserves st r) \<Longrightarrow> (\<not> b \<Longrightarrow> conserves st r') \<Longrightarrow> conserves st (if b then r else r')"
  by simp

text \<open>A computation that does not touch the store, then a handler.\<close>

lemma conserves_and_then [conserve_intros]:
  "(\<And>a. r = Ok a \<Longrightarrow> conserves st (f a)) \<Longrightarrow> conserves st (and_then r f)"
  by (cases r) (auto simp: conserves_def)

lemma conserves_trans:
  "conserves st r \<Longrightarrow> r = Ok st' \<Longrightarrow> conserves st' r' \<Longrightarrow> conserves st r'"
  by (auto simp: conserves_def)

lemma conserves_bind:
  assumes "conserves st r" and "\<And>st1. r = Ok st1 \<Longrightarrow> length st1 = length st \<Longrightarrow> conserves st1 (f st1)"
  shows "conserves st (and_then r f)"
  using assms by (cases r) (auto simp: conserves_def)

lemma conserves_set_state [conserve_intros]:
  "in_store st ka \<Longrightarrow> conserves st (ka_set_state c st ka s)"
  using ka_set_state_total [of st ka c s]
  by (auto simp: conserves_def result_simps)

lemma conserves_set_account:
  "in_store st ka \<Longrightarrow> acc_lamports a = acc_lamports (account_ref st ka) \<Longrightarrow> conserves st (Ok (set_account st ka a))"
  by (simp add: conserves_def total_set_account_same)

text \<open>
  Results that change only the accounts at the positions \<open>K\<close> of the store: what a program may do
  that has references to these accounts only.
\<close>

definition touches_only :: "nat set \<Rightarrow> store \<Rightarrow> (store, 'e) result \<Rightarrow> bool" where
  "touches_only K st r \<longleftrightarrow>
     (\<forall>st'. r = Ok st' \<longrightarrow> length st' = length st \<and> (\<forall>i<length st. i \<notin> K \<longrightarrow> st' ! i = st ! i))"

named_theorems touch_intros \<open>handlers that change only the accounts they are given\<close>

lemma touches_only_simps [touch_intros]:
  "touches_only K st (Err e)" "touches_only K st Panic" "touches_only K st (Ok st)"
  by (simp_all add: touches_only_def)

lemma touches_only_if [touch_intros]:
  "(b \<Longrightarrow> touches_only K st r) \<Longrightarrow> (\<not> b \<Longrightarrow> touches_only K st r') \<Longrightarrow> touches_only K st (if b then r else r')"
  by simp

lemma touches_only_and_then [touch_intros]:
  "(\<And>a. r = Ok a \<Longrightarrow> touches_only K st (f a)) \<Longrightarrow> touches_only K st (and_then r f)"
  by (cases r) (auto simp: touches_only_def)

lemma touches_only_trans:
  "touches_only K st (Ok st1) \<Longrightarrow> touches_only K st1 r \<Longrightarrow> touches_only K st r"
  by (auto simp: touches_only_def)

lemma touches_only_bind:
  assumes "touches_only K st r" and "\<And>st1. r = Ok st1 \<Longrightarrow> touches_only K st1 (f st1)"
  shows "touches_only K st (and_then r f)"
  using assms by (cases r) (auto simp: touches_only_def)

lemma touches_only_set_account [touch_intros]:
  "ka_account ka \<in> K \<Longrightarrow> touches_only K st (Ok (set_account st ka a))"
  unfolding touches_only_def set_account_def by (auto intro!: nth_list_update_neq)

lemma touches_only_set_state [touch_intros]:
  "ka_account ka \<in> K \<Longrightarrow> touches_only K st (ka_set_state c st ka s)"
  unfolding ka_set_state_def by (intro touch_intros)

lemma touches_only_move [touch_intros]:
  "ka_account from \<in> K \<Longrightarrow> ka_account to \<in> K \<Longrightarrow>
   touches_only K st (and_then (debit st from l) (\<lambda>st1. credit st1 to l))"
  unfolding debit_def credit_def by (intro touches_only_bind touch_intros)

lemma conserves_move [conserve_intros]:
  assumes "in_store st from" and "in_store st to"
  shows "conserves st (and_then (debit st from l) (\<lambda>st1. credit st1 to l))"
  unfolding conserves_def
proof (intro allI impI)
  fix st' assume "and_then (debit st from l) (\<lambda>st1. credit st1 to l) = Ok st'"
  then obtain st1 where "debit st from l = Ok st1" "credit st1 to l = Ok st'"
    by (auto simp: and_then_Ok_iff)
  then show "length st' = length st \<and> total_lamports st' = total_lamports st"
    using move_total [OF assms] by (auto simp: debit_Ok_iff credit_Ok_iff)
qed

end
