(* ===== verification/Vote_Program.thy ===== *)
theory Vote_Program
  imports Vote_State Program_Context
begin

text \<open>
  The vote program: the versions of the stored state
  (\<open>programs/vote/src/vote_state/vote_state_versions.rs\<close>), the operations on vote accounts
  (the second half of \<open>vote_state/mod.rs\<close>) and the dispatch of instructions
  (\<open>vote_instruction.rs\<close>). The theorems: every instruction conserves lamports, and who has to
  sign for what.
\<close>

section \<open>Versions of the stored state\<close>

record 'i circ_buf_0_23_5 =
  cb0_buf :: "'i list"
  cb0_idx :: nat

definition circ_buf_0_23_5_default :: "'i \<Rightarrow> 'i circ_buf_0_23_5" where
  "circ_buf_0_23_5_default dflt = \<lparr>cb0_buf = replicate MAX_ITEMS dflt, cb0_idx = MAX_ITEMS - 1\<rparr>"

definition circ_buf_0_23_5_append :: "'i circ_buf_0_23_5 \<Rightarrow> 'i \<Rightarrow> 'i circ_buf_0_23_5" where
  "circ_buf_0_23_5_append cb item =
     (let idx = (cb0_idx cb + 1) mod MAX_ITEMS
      in \<lparr>cb0_buf = (cb0_buf cb)[idx := item], cb0_idx = idx\<rparr>)"

record vote_state_0_23_5 =
  v0_node_pubkey :: pubkey
  v0_authorized_voter :: pubkey
  v0_authorized_voter_epoch :: epoch
  v0_prior_voters :: "(pubkey \<times> epoch \<times> epoch \<times> slot) circ_buf_0_23_5"
  v0_authorized_withdrawer :: pubkey
  v0_commission :: u8
  v0_votes :: "lockout list"
  v0_root_slot :: "slot option"
  v0_epoch_credits :: "(epoch \<times> u64 \<times> u64) list"
  v0_last_timestamp :: block_timestamp

datatype vote_state_versions = V0_23_5 vote_state_0_23_5 | Current vote_state

definition new_current :: "vote_state \<Rightarrow> vote_state_versions" where
  "new_current vs = Current vs"

fun convert_to_current :: "vote_state_versions \<Rightarrow> vote_state" where
  "convert_to_current (V0_23_5 st) =
     \<lparr>node_pubkey = v0_node_pubkey st,
      authorized_withdrawer = v0_authorized_withdrawer st,
      commission = v0_commission st,
      votes = v0_votes st,
      root_slot = v0_root_slot st,
      authorized_voters = av_new (v0_authorized_voter_epoch st) (v0_authorized_voter st),
      prior_voters = circ_buf_default (0, 0, 0),
      epoch_credits = v0_epoch_credits st,
      last_timestamp = v0_last_timestamp st\<rparr>"
| "convert_to_current (Current st) = st"

fun is_uninitialized :: "vote_state_versions \<Rightarrow> bool" where
  "is_uninitialized (V0_23_5 st) \<longleftrightarrow> v0_authorized_voter st = 0"
| "is_uninitialized (Current st) \<longleftrightarrow> av_is_empty (authorized_voters st)"

section \<open>Size and encoding\<close>

text \<open>\<open>new_rand\<close> gives an arbitrary key for each of the epochs; the size does not depend on it.\<close>

definition get_max_sized_vote_state :: "(epoch \<Rightarrow> pubkey) \<Rightarrow> vote_state" where
  "get_max_sized_vote_state new_rand =
     vote_state_default
       \<lparr>votes := replicate MAX_LOCKOUT_HISTORY \<lparr>lk_slot = 0, confirmation_count = 0\<rparr>,
        root_slot := Some (- 1),
        epoch_credits := replicate MAX_EPOCH_CREDITS_HISTORY (0, 0, 0),
        authorized_voters :=
          fold (\<lambda>i av. av_insert av (word_of_nat i) (new_rand (word_of_nat i)))
            [0..<unat MAX_LEADER_SCHEDULE_EPOCH_OFFSET + 1] []\<rparr>"

definition vote_state_size_of :: "vote_state_versions codec \<Rightarrow> (epoch \<Rightarrow> pubkey) \<Rightarrow> nat" where
  "vote_state_size_of c new_rand =
     length (bincode_serialize c (new_current (get_max_sized_vote_state new_rand)))"

definition get_rent_exempt_reserve :: "vote_state_versions codec \<Rightarrow> (epoch \<Rightarrow> pubkey) \<Rightarrow> rent \<Rightarrow> u64" where
  "get_rent_exempt_reserve c new_rand r = minimum_balance r (vote_state_size_of c new_rand)"

definition vote_state_deserialize ::
  "vote_state_versions codec \<Rightarrow> u8 list \<Rightarrow> (vote_state, instruction_error) result" where
  "vote_state_deserialize c input =
     ok_or (map_option convert_to_current (bincode_deserialize c input)) InvalidAccountData"

definition vote_state_serialize ::
  "vote_state_versions codec \<Rightarrow> vote_state_versions \<Rightarrow> u8 list \<Rightarrow> (u8 list, instruction_error) result" where
  "vote_state_serialize c versioned output =
     (let bytes = bincode_serialize c versioned in
      if length output < length bytes then Err AccountDataTooSmall
      else Ok (bytes @ drop (length bytes) output))"

definition vote_state_from :: "vote_state_versions codec \<Rightarrow> account \<Rightarrow> vote_state option" where
  "vote_state_from c a = (case vote_state_deserialize c (acc_data a) of Ok vs \<Rightarrow> Some vs | _ \<Rightarrow> None)"

definition vote_state_to ::
  "vote_state_versions codec \<Rightarrow> vote_state_versions \<Rightarrow> account \<Rightarrow> account option" where
  "vote_state_to c versioned a =
     (case vote_state_serialize c versioned (acc_data a) of
        Ok data \<Rightarrow> Some (a\<lparr>acc_data := data\<rparr>) | _ \<Rightarrow> None)"

definition credits_from :: "vote_state_versions codec \<Rightarrow> account \<Rightarrow> u64 option" where
  "credits_from c a = map_option credits (vote_state_from c a)"

definition is_uninitialized_no_deser ::
  "vote_state_versions codec \<Rightarrow> (epoch \<Rightarrow> pubkey) \<Rightarrow> u8 list \<Rightarrow> bool" where
  "is_uninitialized_no_deser c new_rand data \<longleftrightarrow>
     length data \<noteq> vote_state_size_of c new_rand \<or>
     take DEFAULT_PRIOR_VOTERS_OFFSET (drop 4 data) = replicate DEFAULT_PRIOR_VOTERS_OFFSET 0"

section \<open>Operations on vote accounts\<close>

definition verify_authorized_signer :: "pubkey \<Rightarrow> pubkey set \<Rightarrow> (unit, instruction_error) result" where
  "verify_authorized_signer authorized signers =
     (if authorized \<in> signers then Ok () else Err MissingRequiredSignature)"

definition vote_authorize_account ::
  "vote_state_versions codec \<Rightarrow> store \<Rightarrow> keyed_account \<Rightarrow> pubkey \<Rightarrow> vote_authorize \<Rightarrow> pubkey set \<Rightarrow> clock \<Rightarrow>
   (store, instruction_error) result" where
  "vote_authorize_account c st vote_account authorized va signers clk =
     and_then (ka_state c st vote_account) (\<lambda>versioned.
     let vs = convert_to_current versioned in
     and_then
       (case va of
          Voter \<Rightarrow>
            set_new_authorized_voter vs authorized (clock_epoch clk) (clock_leader_schedule_epoch clk + 1)
              (\<lambda>epoch_authorized_voter. verify_authorized_signer epoch_authorized_voter signers)
        | Withdrawer \<Rightarrow>
            and_then (verify_authorized_signer (authorized_withdrawer vs) signers) (\<lambda>_.
              Ok (vs\<lparr>authorized_withdrawer := authorized\<rparr>)))
       (\<lambda>vs'. ka_set_state c st vote_account (new_current vs')))"

definition update_validator_identity ::
  "vote_state_versions codec \<Rightarrow> store \<Rightarrow> keyed_account \<Rightarrow> pubkey \<Rightarrow> pubkey set \<Rightarrow>
   (store, instruction_error) result" where
  "update_validator_identity c st vote_account node signers =
     and_then (ka_state c st vote_account) (\<lambda>versioned.
     let vs = convert_to_current versioned in
     and_then (verify_authorized_signer (authorized_withdrawer vs) signers) (\<lambda>_.
     and_then (verify_authorized_signer node signers) (\<lambda>_.
       ka_set_state c st vote_account (new_current (vs\<lparr>node_pubkey := node\<rparr>)))))"

definition update_commission ::
  "vote_state_versions codec \<Rightarrow> store \<Rightarrow> keyed_account \<Rightarrow> u8 \<Rightarrow> pubkey set \<Rightarrow>
   (store, instruction_error) result" where
  "update_commission c st vote_account comm signers =
     and_then (ka_state c st vote_account) (\<lambda>versioned.
     let vs = convert_to_current versioned in
     and_then (verify_authorized_signer (authorized_withdrawer vs) signers) (\<lambda>_.
       ka_set_state c st vote_account (new_current (vs\<lparr>commission := comm\<rparr>))))"

definition vote_withdraw ::
  "vote_state_versions codec \<Rightarrow> store \<Rightarrow> keyed_account \<Rightarrow> u64 \<Rightarrow> keyed_account \<Rightarrow> pubkey set \<Rightarrow>
   (store, instruction_error) result" where
  "vote_withdraw c st vote_account lamports to_account signers =
     and_then (ka_state c st vote_account) (\<lambda>versioned.
     let vs = convert_to_current versioned in
     and_then (verify_authorized_signer (authorized_withdrawer vs) signers) (\<lambda>_.
     and_then
       (if ka_lamports st vote_account < lamports then Err InsufficientFunds
        else if ka_lamports st vote_account = lamports
        then ka_set_state c st vote_account (new_current vote_state_default)
        else Ok st)
       (\<lambda>st1. and_then (debit st1 vote_account lamports) (\<lambda>st2. credit st2 to_account lamports))))"

definition initialize_account ::
  "vote_state_versions codec \<Rightarrow> (epoch \<Rightarrow> pubkey) \<Rightarrow> store \<Rightarrow> keyed_account \<Rightarrow> vote_init \<Rightarrow> pubkey set \<Rightarrow>
   clock \<Rightarrow> bool \<Rightarrow> (store, instruction_error) result" where
  "initialize_account c new_rand st vote_account vi signers clk check_data_size =
     (if check_data_size \<and> ka_data_len st vote_account \<noteq> vote_state_size_of c new_rand
      then Err InvalidAccountData
      else
        and_then (ka_state c st vote_account) (\<lambda>versioned.
        if \<not> is_uninitialized versioned then Err AccountAlreadyInitialized
        else
          and_then (verify_authorized_signer (init_node_pubkey vi) signers) (\<lambda>_.
            ka_set_state c st vote_account (new_current (vote_state_new vi clk)))))"

text \<open>\<open>vote.slots.iter().max()\<close>.\<close>

definition max_slot :: "slot list \<Rightarrow> slot option" where
  "max_slot slots = (if slots = [] then None else Some (fold max slots 0))"

definition process_vote_account ::
  "vote_state_versions codec \<Rightarrow> store \<Rightarrow> keyed_account \<Rightarrow> slot_hashes \<Rightarrow> clock \<Rightarrow> vote \<Rightarrow> pubkey set \<Rightarrow>
   (store, instruction_error) result" where
  "process_vote_account c st vote_account shs clk v signers =
     and_then (ka_state c st vote_account) (\<lambda>versioned.
     if is_uninitialized versioned then Err UninitializedAccount
     else
       and_then (get_and_update_authorized_voter (convert_to_current versioned) (clock_epoch clk))
         (\<lambda>(authorized_voter, vs1).
       and_then (verify_authorized_signer authorized_voter signers) (\<lambda>_.
       and_then (map_err instruction_error_of_vote_error (process_vote vs1 v shs (clock_epoch clk))) (\<lambda>vs2.
       and_then
         (case vote_timestamp v of
            None \<Rightarrow> Ok vs2
          | Some ts \<Rightarrow>
              map_err instruction_error_of_vote_error
                (and_then (ok_or (max_slot (vote_slots v)) EmptySlots) (\<lambda>sl. process_timestamp vs2 sl ts)))
         (\<lambda>vs3. ka_set_state c st vote_account (new_current vs3))))))"

definition create_account_with_authorized ::
  "vote_state_versions codec \<Rightarrow> (epoch \<Rightarrow> pubkey) \<Rightarrow> pubkey \<Rightarrow> pubkey \<Rightarrow> pubkey \<Rightarrow> u8 \<Rightarrow> u64 \<Rightarrow>
   (account, 'e) result" where
  "create_account_with_authorized c new_rand node voter withdrawer comm lamports =
     (let vote_account = shared_new lamports (vote_state_size_of c new_rand) vote_program_id;
          vs = vote_state_new
                 \<lparr>init_node_pubkey = node, init_authorized_voter = voter,
                  init_authorized_withdrawer = withdrawer, init_commission = comm\<rparr> clock_default
      in unwrap (vote_state_to c (new_current vs) vote_account))"

definition vote_create_account ::
  "vote_state_versions codec \<Rightarrow> (epoch \<Rightarrow> pubkey) \<Rightarrow> pubkey \<Rightarrow> pubkey \<Rightarrow> u8 \<Rightarrow> u64 \<Rightarrow> (account, 'e) result" where
  "vote_create_account c new_rand vote_pubkey node comm lamports =
     create_account_with_authorized c new_rand node vote_pubkey vote_pubkey comm lamports"

section \<open>Instructions\<close>

datatype vote_instruction =
  InitializeAccount vote_init
| Authorize pubkey vote_authorize
| Vote vote
| Withdraw u64
| UpdateValidatorIdentity
| UpdateCommission u8
| VoteSwitch vote hash
| AuthorizeChecked vote_authorize

record vote_codecs =
  vc_instruction :: "vote_instruction codec"
  vc_state :: "vote_state_versions codec"
  vc_rent :: "rent codec"
  vc_clock :: "clock codec"
  vc_slot_hashes :: "slot_hashes codec"
  vc_new_rand :: "epoch \<Rightarrow> pubkey"

definition verify_rent_exemption ::
  "rent codec \<Rightarrow> store \<Rightarrow> keyed_account \<Rightarrow> keyed_account \<Rightarrow> (unit, instruction_error) result" where
  "verify_rent_exemption rc st ka rent_sysvar_account =
     and_then (from_keyed_account rent_id rc st rent_sysvar_account) (\<lambda>r.
       if \<not> is_exempt r (ka_lamports st ka) (ka_data_len st ka) then Err InsufficientFunds else Ok ())"

definition vote_dispatch ::
  "vote_codecs \<Rightarrow> invoke_context \<Rightarrow> store \<Rightarrow> keyed_account \<Rightarrow> pubkey set \<Rightarrow> vote_instruction \<Rightarrow>
   (store, instruction_error) result" where
  "vote_dispatch vc ic st me signers i =
     (let keyed_accounts = ic_keyed_accounts ic; c = vc_state vc in
      case i of
        InitializeAccount vi \<Rightarrow>
          and_then (keyed_account_at_index keyed_accounts 1) (\<lambda>ra.
          and_then (verify_rent_exemption (vc_rent vc) st me ra) (\<lambda>_.
          and_then (keyed_account_at_index keyed_accounts 2) (\<lambda>ca.
          and_then (from_keyed_account clock_id (vc_clock vc) st ca) (\<lambda>clk.
            initialize_account c (vc_new_rand vc) st me vi signers clk
              (ic_feature_active ic Feature_check_init_vote_data)))))
      | Authorize voter_pubkey va \<Rightarrow>
          and_then (keyed_account_at_index keyed_accounts 1) (\<lambda>ca.
          and_then (from_keyed_account clock_id (vc_clock vc) st ca) (\<lambda>clk.
            vote_authorize_account c st me voter_pubkey va signers clk))
      | UpdateValidatorIdentity \<Rightarrow>
          and_then (keyed_account_at_index keyed_accounts 1) (\<lambda>node.
            update_validator_identity c st me (unsigned_key node) signers)
      | UpdateCommission comm \<Rightarrow> update_commission c st me comm signers
      | Vote v \<Rightarrow>
          and_then (keyed_account_at_index keyed_accounts 1) (\<lambda>sa.
          and_then (from_keyed_account slot_hashes_id (vc_slot_hashes vc) st sa) (\<lambda>shs.
          and_then (keyed_account_at_index keyed_accounts 2) (\<lambda>ca.
          and_then (from_keyed_account clock_id (vc_clock vc) st ca) (\<lambda>clk.
            process_vote_account c st me shs clk v signers))))
      | VoteSwitch v _ \<Rightarrow>
          and_then (keyed_account_at_index keyed_accounts 1) (\<lambda>sa.
          and_then (from_keyed_account slot_hashes_id (vc_slot_hashes vc) st sa) (\<lambda>shs.
          and_then (keyed_account_at_index keyed_accounts 2) (\<lambda>ca.
          and_then (from_keyed_account clock_id (vc_clock vc) st ca) (\<lambda>clk.
            process_vote_account c st me shs clk v signers))))
      | Withdraw lamports \<Rightarrow>
          and_then (keyed_account_at_index keyed_accounts 1) (\<lambda>to_account.
            vote_withdraw c st me lamports to_account signers)
      | AuthorizeChecked va \<Rightarrow>
          if ic_feature_active ic Feature_vote_stake_checked_instructions then
            and_then (keyed_account_at_index keyed_accounts 3) (\<lambda>va_account.
            and_then (ok_or (signer_key va_account) MissingRequiredSignature) (\<lambda>voter_pubkey.
            and_then (keyed_account_at_index keyed_accounts 1) (\<lambda>ca.
            and_then (from_keyed_account clock_id (vc_clock vc) st ca) (\<lambda>clk.
              vote_authorize_account c st me voter_pubkey va signers clk))))
          else Err InvalidInstructionData)"

definition vote_process_instruction ::
  "vote_codecs \<Rightarrow> invoke_context \<Rightarrow> store \<Rightarrow> u8 list \<Rightarrow> (store, instruction_error) result" where
  "vote_process_instruction vc ic st data =
     (let keyed_accounts = ic_keyed_accounts ic; signers = get_signers keyed_accounts in
      and_then (keyed_account_at_index keyed_accounts 0) (\<lambda>me.
      if ic_feature_active ic Feature_check_program_owner \<and> ka_owner st me \<noteq> vote_program_id
      then Err InvalidAccountOwner
      else
        and_then (limited_deserialize (vc_instruction vc) data) (\<lambda>i.
          vote_dispatch vc ic st me signers i)))"

section \<open>Conservation\<close>

lemma conserves_vote_authorize_account [conserve_intros]:
  "in_store st me \<Longrightarrow> conserves st (vote_authorize_account c st me pk va signers clk)"
  unfolding vote_authorize_account_def Let_def by (intro conserve_intros)

lemma conserves_update_validator_identity [conserve_intros]:
  "in_store st me \<Longrightarrow> conserves st (update_validator_identity c st me node signers)"
  unfolding update_validator_identity_def Let_def by (intro conserve_intros)

lemma conserves_update_commission [conserve_intros]:
  "in_store st me \<Longrightarrow> conserves st (update_commission c st me comm signers)"
  unfolding update_commission_def Let_def by (intro conserve_intros)

lemma conserves_initialize_account [conserve_intros]:
  "in_store st me \<Longrightarrow> conserves st (initialize_account c nr st me vi signers clk b)"
  unfolding initialize_account_def Let_def by (intro conserve_intros)

lemma conserves_process_vote_account [conserve_intros]:
  "in_store st me \<Longrightarrow> conserves st (process_vote_account c st me shs clk v signers)"
  unfolding process_vote_account_def Let_def case_prod_beta by (intro conserve_intros)

lemma conserves_vote_withdraw [conserve_intros]:
  assumes "in_store st me" and "in_store st to"
  shows "conserves st (vote_withdraw c st me lamports to signers)"
  unfolding vote_withdraw_def Let_def
  by (rule conserves_and_then, rule conserves_and_then, rule conserves_bind)
     (use assms in \<open>auto intro!: conserves_if conserves_Err conserves_Ok conserves_set_state
        conserves_move simp: in_store_def\<close>)

lemma conserves_vote_dispatch:
  assumes "accounts_present ic st" and "in_store st me"
  shows "conserves st (vote_dispatch vc ic st me signers i)"
  unfolding vote_dispatch_def Let_def
  using assms
  by (cases i) (auto intro!: conserve_intros intro: keyed_account_present)

lemma conserves_vote_process_instruction:
  "accounts_present ic st \<Longrightarrow> conserves st (vote_process_instruction vc ic st data)"
  unfolding vote_process_instruction_def Let_def
  by (intro conserves_and_then conserves_if conserves_Err conserves_vote_dispatch)
     (auto intro: keyed_account_present)

interpretation vote_program: conserving_machine "vote_process_instruction vc ic" "accounts_present ic" total_lamports
  for vc ic
proof
  fix st data st'
  assume st: "accounts_present ic st" and ok: "vote_process_instruction vc ic st data = Ok st'"
  have "length st' = length st \<and> total_lamports st' = total_lamports st"
    using conserves_vote_process_instruction [OF st] ok by (simp add: conserves_def)
  then show "accounts_present ic st'" and "total_lamports st' = total_lamports st"
    using accounts_present_length [OF st] by auto
qed

text \<open>
  C2: The vote program conserves lamports: any sequence of instructions that all succeed, with any
  data, accounts (also one account at several positions), signers and features, leaves the sum
  of the lamports of all accounts as it was.
\<close>

theorem vote_program_conserves:
  assumes "accounts_present ic st" and "fold_res (vote_process_instruction vc ic) st datas = Ok st'"
  shows "total_lamports st' = total_lamports st"
  using assms by (rule vote_program.run_total)

text \<open>A store of two accounts and codecs that read every state as the same one, for witnesses.\<close>

definition demo_vote_state :: vote_state where
  "demo_vote_state = vote_state_default\<lparr>authorized_withdrawer := 5, authorized_voters := [(0, 6)]\<rparr>"

definition demo_vote_codecs :: vote_codecs where
  "demo_vote_codecs =
     \<lparr>vc_instruction = \<lparr>bincode_serialize = (\<lambda>_. []),
        bincode_deserialize = (\<lambda>d. case d of [x] \<Rightarrow> Some (Withdraw (ucast x)) | _ \<Rightarrow> None)\<rparr>,
      vc_state = \<lparr>bincode_serialize = (\<lambda>_. [1]), bincode_deserialize = (\<lambda>_. Some (Current demo_vote_state))\<rparr>,
      vc_rent = \<lparr>bincode_serialize = (\<lambda>_. []), bincode_deserialize = (\<lambda>_. None)\<rparr>,
      vc_clock = \<lparr>bincode_serialize = (\<lambda>_. []), bincode_deserialize = (\<lambda>_. Some clock_default)\<rparr>,
      vc_slot_hashes = \<lparr>bincode_serialize = (\<lambda>_. []), bincode_deserialize = (\<lambda>_. None)\<rparr>,
      vc_new_rand = (\<lambda>_. 0)\<rparr>"

definition demo_keyed_accounts :: "keyed_account list" where
  "demo_keyed_accounts = create_keyed_accounts_unified [(False, True, 9, 0), (False, True, 8, 1), (True, False, 5, 1)]"

definition demo_context :: invoke_context where
  "demo_context = \<lparr>ic_feature_active = (\<lambda>_. False), ic_keyed_accounts = demo_keyed_accounts,
     ic_sysvar_data = (\<lambda>_. None)\<rparr>"

definition demo_store :: store where
  "demo_store = [shared_new 100 2 1, shared_new 3 0 1]"

lemmas demo_defs = demo_vote_codecs_def demo_keyed_accounts_def demo_context_def demo_store_def
  create_keyed_accounts_unified_def shared_new_def

theorem vote_program_conserves_witness:
  "\<exists>st'. fold_res (vote_process_instruction demo_vote_codecs demo_context) demo_store [[30], [70]] = Ok st' \<and>
     acc_lamports (st' ! 0) = 0 \<and> acc_lamports (st' ! 1) = 103 \<and> total_lamports st' = total_lamports demo_store"
proof -
  obtain r where r: "fold_res (vote_process_instruction demo_vote_codecs demo_context) demo_store [[30], [70]] = r"
    by blast
  have "map_ok (map acc_lamports) r = Ok [0, 103]" unfolding r [symmetric] by code_simp
  then obtain st' where st': "r = Ok st'" "map acc_lamports st' = [0, 103]" by (auto simp: map_ok_Ok_iff)
  have "accounts_present demo_context demo_store"
    by (simp add: accounts_present_def in_store_def demo_defs)
  from vote_program_conserves [OF this r [unfolded st'(1)]]
  have "total_lamports st' = total_lamports demo_store" .
  moreover have "acc_lamports (st' ! 0) = 0 \<and> acc_lamports (st' ! 1) = 103" using st'(2) by auto
  ultimately show ?thesis unfolding r using st'(1) by blast
qed

section \<open>Authority\<close>

lemma get_and_update_voter:
  "get_and_update_authorized_voter vs cur = Ok (pk, vs1) \<Longrightarrow> get_authorized_voter vs cur = Some pk"
  by (auto simp: get_and_update_authorized_voter_def get_authorized_voter_def av_get_authorized_voter_def
      get_and_cache_authorized_voter_for_epoch_def result_simps split: option.splits prod.splits)

lemma verify_authorized_signer_Ok [result_simps]:
  "verify_authorized_signer pk signers = Ok u \<longleftrightarrow> pk \<in> signers"
  by (auto simp: verify_authorized_signer_def)

text \<open>The voter of the epoch of the clock at position \<open>n\<close> of the accounts has signed.\<close>

definition voter_signed :: "vote_codecs \<Rightarrow> invoke_context \<Rightarrow> store \<Rightarrow> vote_state \<Rightarrow> nat \<Rightarrow> pubkey set \<Rightarrow> bool" where
  "voter_signed vc ic st vs n signers \<longleftrightarrow>
     (\<exists>ca clk pk. keyed_account_at_index (ic_keyed_accounts ic) n = Ok ca \<and>
        from_keyed_account clock_id (vc_clock vc) st ca = Ok clk \<and>
        get_authorized_voter vs (clock_epoch clk) = Some pk \<and> pk \<in> signers)"

fun authority_signed ::
  "vote_codecs \<Rightarrow> invoke_context \<Rightarrow> store \<Rightarrow> vote_state_versions \<Rightarrow> pubkey set \<Rightarrow> vote_instruction \<Rightarrow> bool" where
  "authority_signed vc ic st v signers (InitializeAccount vi) \<longleftrightarrow>
     is_uninitialized v \<and> init_node_pubkey vi \<in> signers"
| "authority_signed vc ic st v signers (Authorize _ va) \<longleftrightarrow>
     (case va of Voter \<Rightarrow> voter_signed vc ic st (convert_to_current v) 1 signers
      | Withdrawer \<Rightarrow> authorized_withdrawer (convert_to_current v) \<in> signers)"
| "authority_signed vc ic st v signers (Vote _) \<longleftrightarrow>
     \<not> is_uninitialized v \<and> voter_signed vc ic st (convert_to_current v) 2 signers"
| "authority_signed vc ic st v signers (Withdraw _) \<longleftrightarrow> authorized_withdrawer (convert_to_current v) \<in> signers"
| "authority_signed vc ic st v signers UpdateValidatorIdentity \<longleftrightarrow>
     authorized_withdrawer (convert_to_current v) \<in> signers"
| "authority_signed vc ic st v signers (UpdateCommission _) \<longleftrightarrow>
     authorized_withdrawer (convert_to_current v) \<in> signers"
| "authority_signed vc ic st v signers (VoteSwitch _ _) \<longleftrightarrow>
     \<not> is_uninitialized v \<and> voter_signed vc ic st (convert_to_current v) 2 signers"
| "authority_signed vc ic st v signers (AuthorizeChecked va) \<longleftrightarrow>
     (case va of Voter \<Rightarrow> voter_signed vc ic st (convert_to_current v) 1 signers
      | Withdrawer \<Rightarrow> authorized_withdrawer (convert_to_current v) \<in> signers)"

lemma vote_authorize_account_signed:
  assumes "vote_authorize_account c st me pk va signers clk = Ok st'"
  shows "\<exists>v. ka_state c st me = Ok v \<and>
    (case va of
       Voter \<Rightarrow> \<exists>pk. get_authorized_voter (convert_to_current v) (clock_epoch clk) = Some pk \<and> pk \<in> signers
     | Withdrawer \<Rightarrow> authorized_withdrawer (convert_to_current v) \<in> signers)"
  using assms
  by (cases va) (auto simp: vote_authorize_account_def set_new_authorized_voter_def Let_def result_simps
      dest!: get_and_update_voter)

lemma process_vote_account_signed:
  assumes "process_vote_account c st me shs clk v signers = Ok st'"
  shows "\<exists>ver pk. ka_state c st me = Ok ver \<and> \<not> is_uninitialized ver \<and>
    get_authorized_voter (convert_to_current ver) (clock_epoch clk) = Some pk \<and> pk \<in> signers"
  using assms
  by (auto simp: process_vote_account_def Let_def and_then_Ok_iff verify_authorized_signer_Ok
      dest!: get_and_update_voter split: if_splits)

text \<open>
  C3: Nothing happens to a vote account without its authority. Whenever an instruction of the vote
  program succeeds, the account's state was readable and its keeper had signed: for votes and
  for changing the voter the authorized voter of the current epoch, for withdrawing, for changing
  the withdrawer, the identity or the commission the authorized withdrawer, and for initializing
  an account, which must not be initialized, the new node.
\<close>

theorem vote_instruction_authorized:
  assumes "vote_dispatch vc ic st me signers i = Ok st'"
  shows "\<exists>v. ka_state (vc_state vc) st me = Ok v \<and> authority_signed vc ic st v signers i"
proof (cases i)
  case (InitializeAccount vi)
  then show ?thesis using assms
    by (auto simp: vote_dispatch_def initialize_account_def Let_def and_then_Ok_iff verify_authorized_signer_Ok
        split: if_splits)
next
  case (Authorize pk va)
  then obtain ca clk where *: "keyed_account_at_index (ic_keyed_accounts ic) 1 = Ok ca"
      "from_keyed_account clock_id (vc_clock vc) st ca = Ok clk"
      "vote_authorize_account (vc_state vc) st me pk va signers clk = Ok st'"
    using assms by (auto simp: vote_dispatch_def Let_def and_then_Ok_iff)
  show ?thesis
    using vote_authorize_account_signed [OF *(3)] *(1,2) Authorize
    by (cases va) (auto simp: voter_signed_def)
next
  case (Vote v)
  then obtain ca clk shs where *: "keyed_account_at_index (ic_keyed_accounts ic) 2 = Ok ca"
      "from_keyed_account clock_id (vc_clock vc) st ca = Ok clk"
      "process_vote_account (vc_state vc) st me shs clk v signers = Ok st'"
    using assms by (auto simp: vote_dispatch_def Let_def and_then_Ok_iff)
  show ?thesis
    using process_vote_account_signed [OF *(3)] *(1,2) Vote by (auto simp: voter_signed_def)
next
  case (Withdraw l)
  then show ?thesis using assms
    by (auto simp: vote_dispatch_def vote_withdraw_def Let_def and_then_Ok_iff verify_authorized_signer_Ok)
next
  case UpdateValidatorIdentity
  then show ?thesis using assms
    by (auto simp: vote_dispatch_def update_validator_identity_def Let_def and_then_Ok_iff verify_authorized_signer_Ok)
next
  case (UpdateCommission comm)
  then show ?thesis using assms
    by (auto simp: vote_dispatch_def update_commission_def Let_def and_then_Ok_iff verify_authorized_signer_Ok)
next
  case (VoteSwitch v h)
  then obtain ca clk shs where *: "keyed_account_at_index (ic_keyed_accounts ic) 2 = Ok ca"
      "from_keyed_account clock_id (vc_clock vc) st ca = Ok clk"
      "process_vote_account (vc_state vc) st me shs clk v signers = Ok st'"
    using assms by (auto simp: vote_dispatch_def Let_def and_then_Ok_iff)
  show ?thesis
    using process_vote_account_signed [OF *(3)] *(1,2) VoteSwitch by (auto simp: voter_signed_def)
next
  case (AuthorizeChecked va)
  then obtain ca clk pk where *: "keyed_account_at_index (ic_keyed_accounts ic) 1 = Ok ca"
      "from_keyed_account clock_id (vc_clock vc) st ca = Ok clk"
      "vote_authorize_account (vc_state vc) st me pk va signers clk = Ok st'"
    using assms by (auto simp: vote_dispatch_def Let_def and_then_Ok_iff split: if_splits)
  show ?thesis
    using vote_authorize_account_signed [OF *(3)] *(1,2) AuthorizeChecked
    by (cases va) (auto simp: voter_signed_def)
qed

theorem vote_instruction_authorized_witness:
  "\<exists>st'. vote_dispatch demo_vote_codecs demo_context demo_store (demo_keyed_accounts ! 0) {5} (Withdraw 30) = Ok st' \<and>
     (\<exists>v. ka_state (vc_state demo_vote_codecs) demo_store (demo_keyed_accounts ! 0) = Ok v \<and>
        authority_signed demo_vote_codecs demo_context demo_store v {5} (Withdraw 30))"
proof -
  obtain r where r: "vote_dispatch demo_vote_codecs demo_context demo_store (demo_keyed_accounts ! 0) {5} (Withdraw 30) = r"
    by blast
  have "map_ok (map acc_lamports) r = Ok [70, 33]" unfolding r [symmetric] by code_simp
  then obtain st' where st': "r = Ok st'" by (auto simp: map_ok_Ok_iff)
  show ?thesis using vote_instruction_authorized [OF r [unfolded st']] r st' by blast
qed

text \<open>
  A withdrawal moves exactly its amount. When \<open>withdraw\<close> succeeds on two different accounts, the
  withdrawer has signed, the vote account has lost the amount and the recipient has gained it, no
  other account has changed, and the state is reset to the default one exactly when the vote
  account was emptied.
\<close>

lemma vote_withdraw_effect:
  assumes "in_store st me" and "in_store st to" and "ka_account me \<noteq> ka_account to"
    and "vote_withdraw c st me lamports to signers = Ok st'"
  shows "\<exists>v. ka_state c st me = Ok v \<and> authorized_withdrawer (convert_to_current v) \<in> signers \<and>
    unat (ka_lamports st' me) + unat lamports = unat (ka_lamports st me) \<and>
    unat (ka_lamports st' to) = unat (ka_lamports st to) + unat lamports \<and>
    (\<forall>ka. ka_account ka \<noteq> ka_account me \<longrightarrow> ka_account ka \<noteq> ka_account to \<longrightarrow>
       account_ref st' ka = account_ref st ka) \<and>
    acc_data (account_ref st' me) =
      (if lamports = ka_lamports st me
       then bincode_serialize c (new_current vote_state_default) @
         drop (length (bincode_serialize c (new_current vote_state_default))) (acc_data (account_ref st me))
       else acc_data (account_ref st me))"
proof -
  obtain v st1 st2 where v: "ka_state c st me = Ok v" "authorized_withdrawer (convert_to_current v) \<in> signers"
    and st1: "(if ka_lamports st me < lamports then Err InsufficientFunds
        else if ka_lamports st me = lamports then ka_set_state c st me (new_current vote_state_default)
        else Ok st) = Ok st1"
    and st2: "debit st1 me lamports = Ok st2" "credit st2 to lamports = Ok st'"
    using assms(4) by (auto simp: vote_withdraw_def Let_def and_then_Ok_iff verify_authorized_signer_Ok)
  define d where "d = (if lamports = ka_lamports st me
       then bincode_serialize c (new_current vote_state_default) @
         drop (length (bincode_serialize c (new_current vote_state_default))) (acc_data (account_ref st me))
       else acc_data (account_ref st me))"
  have le: "lamports \<le> ka_lamports st me" using st1 by (auto split: if_splits)
  have s1: "st1 = set_account st me ((account_ref st me)\<lparr>acc_data := d\<rparr>)"
    using st1 le assms(1)
    by (auto simp: d_def ka_set_state_Ok_iff set_account_def account_ref_def split: if_splits)
  have s2: "st2 = set_account st1 me ((account_ref st1 me)\<lparr>acc_lamports := ka_lamports st1 me - lamports\<rparr>)"
    using st2(1) by (simp add: debit_Ok_iff)
  have s3: "unat (ka_lamports st2 to) + unat lamports < 2 ^ 64"
      "st' = set_account st2 to ((account_ref st2 to)\<lparr>acc_lamports := ka_lamports st2 to + lamports\<rparr>)"
    using st2(2) by (simp_all add: credit_Ok_iff)
  have r1: "account_ref st1 ka = (if ka_account ka = ka_account me then (account_ref st me)\<lparr>acc_data := d\<rparr> else account_ref st ka)" for ka
    unfolding s1 using assms(1) by (simp add: account_ref_set_account)
  have in1: "in_store st1 me" "in_store st2 to" using assms(1,2) by (simp_all add: s1 s2)
  have r2: "account_ref st2 ka = (if ka_account ka = ka_account me
      then (account_ref st me)\<lparr>acc_data := d, acc_lamports := ka_lamports st me - lamports\<rparr> else account_ref st ka)" for ka
    unfolding s2 account_ref_set_account [OF in1(1)] by (simp add: r1 ka_lamports_def)
  have r3: "account_ref st' ka = (if ka_account ka = ka_account to
      then (account_ref st to)\<lparr>acc_lamports := ka_lamports st to + lamports\<rparr> else account_ref st2 ka)" for ka
    unfolding s3(2) account_ref_set_account [OF in1(2)] using assms(3) by (simp add: r2 ka_lamports_def)
  have "unat (ka_lamports st to) + unat lamports < 2 ^ 64"
    using s3(1) assms(3) by (simp add: ka_lamports_def r2)
  then have "unat (ka_lamports st' to) = unat (ka_lamports st to) + unat lamports"
    by (simp add: ka_lamports_def r3 unat_add_less)
  moreover have "unat (ka_lamports st' me) + unat lamports = unat (ka_lamports st me)"
    using le assms(3) by (simp add: ka_lamports_def r3 r2 unat_sub word_le_nat_alt)
  moreover have "acc_data (account_ref st' me) = d" using assms(3) by (simp add: r3 r2)
  moreover have "account_ref st' ka = account_ref st ka"
    if "ka_account ka \<noteq> ka_account me" "ka_account ka \<noteq> ka_account to" for ka
    using that by (simp add: r3 r2)
  ultimately show ?thesis using v unfolding d_def by blast
qed

lemma vote_withdraw_effect_example:
  "\<exists>st'. vote_withdraw (vc_state demo_vote_codecs) demo_store (demo_keyed_accounts ! 0) 100
       (demo_keyed_accounts ! 1) {5} = Ok st' \<and>
     unat (ka_lamports st' (demo_keyed_accounts ! 1)) =
       unat (ka_lamports demo_store (demo_keyed_accounts ! 1)) + unat (100::u64)"
proof -
  let ?me = "demo_keyed_accounts ! 0" and ?to = "demo_keyed_accounts ! 1"
  obtain r where r: "vote_withdraw (vc_state demo_vote_codecs) demo_store ?me 100 ?to {5} = r" by blast
  have "map_ok (map acc_lamports) r = Ok [0, 103]" unfolding r [symmetric] by code_simp
  then obtain st' where st': "r = Ok st'" by (auto simp: map_ok_Ok_iff)
  have p: "in_store demo_store ?me" "in_store demo_store ?to" "ka_account ?me \<noteq> ka_account ?to"
    by (simp_all add: in_store_def demo_defs)
  show ?thesis using vote_withdraw_effect [OF p r [unfolded st']] r st' by blast
qed

end
