(* ===== verification/Vote_Authority.thy ===== *)
theory Vote_Authority
  imports Vote_Program
begin

text \<open>
  Changing the authorized voter: which epochs a change affects, and that the assertions in
  \<open>set_new_authorized_voter\<close> and \<open>purge_authorized_voters\<close> cannot fire on states whose entries
  are not after the target epoch, which the clock guarantees.
\<close>

lemma get_and_update_eq:
  assumes "btree_sorted (authorized_voters vs)"
  shows "get_and_update_authorized_voter vs cur =
    (case btree.in_force (authorized_voters vs) cur of
       None \<Rightarrow> Err InvalidAccountData
     | Some pk \<Rightarrow> Ok (pk, vs\<lparr>authorized_voters := btree_purge cur (btree_insert cur pk (authorized_voters vs))\<rparr>))"
  by (simp add: get_and_update_authorized_voter_def get_and_cache_eq [OF assms] purge_eq
      purge_cached_not_empty split: option.splits)

text \<open>The map after the lookup at the current epoch and the entry for the target epoch.\<close>

lemma in_force_reauthorize:
  assumes s: "btree_sorted av" and f: "btree.in_force av cur = Some pk0"
    and keys: "\<forall>k\<in>fst ` set av. k \<le> target" and ct: "cur \<le> target" and e: "cur \<le> e"
  shows "btree.in_force (btree_insert target pk (btree_purge cur (btree_insert cur pk0 av))) e =
    (if target \<le> e then Some pk else btree.in_force av e)"
proof -
  let ?m = "btree_purge cur (btree_insert cur pk0 av)"
  have sm: "btree_sorted ?m" using s by (simp add: btree_insert_sorted btree_purge_sorted)
  have "btree_get ?m i = None" if "target < i" for i
    using that keys ct by (auto simp: btree_get_purge btree_get_insert btree_get_None_iff)
  then show ?thesis
    using btree.in_force_update [OF sm, of target pk e] btree.in_force_cache [OF s f e] by simp
qed

text \<open>The circular buffer of prior voters: its index stays in range, and the last entry is the one that was appended.\<close>

lemma circ_buf_default_ok: "circ_buf_ok (circ_buf_default dflt)"
  by (simp add: circ_buf_ok_def circ_buf_default_def MAX_ITEMS_def)

lemma circ_buf_append_ok: "circ_buf_ok cb \<Longrightarrow> circ_buf_ok (circ_buf_append cb item)"
  by (simp add: circ_buf_ok_def circ_buf_append_def Let_def MAX_ITEMS_def)

lemma circ_buf_last_ok:
  "circ_buf_ok cb \<Longrightarrow> circ_buf_last cb = Ok (if cb_is_empty cb then None else Some (cb_buf cb ! cb_idx cb))"
  by (simp add: circ_buf_ok_def circ_buf_last_def index_at_def)

lemma circ_buf_last_append: "circ_buf_ok cb \<Longrightarrow> circ_buf_last (circ_buf_append cb item) = Ok (Some item)"
  by (simp add: circ_buf_ok_def circ_buf_last_def circ_buf_append_def Let_def index_at_def MAX_ITEMS_def)

text \<open>
  C31: A new voter takes over at its target epoch and not before. On a state whose voter entries are
  in order and not after the target epoch, and whose prior voters are a buffer with its index in
  range, \<open>set_new_authorized_voter\<close> never panics, and when it succeeds, the verification accepted the
  voter in force at the current epoch, the voters of the epochs from the current one up to the
  target epoch are unchanged, every epoch from the target on has the new voter, the entries are
  again in order and not after the target epoch, and the index of the buffer is in range.
\<close>

theorem set_new_authorized_voter_correct:
  assumes "btree_sorted (authorized_voters vs)" and "\<forall>k\<in>fst ` set (authorized_voters vs). k \<le> target"
    and "cur \<le> target" and "\<And>k. verify k \<noteq> Panic" and "circ_buf_ok (prior_voters vs)"
  shows "set_new_authorized_voter vs pk cur target verify \<noteq> Panic \<and>
    (\<forall>vs'. set_new_authorized_voter vs pk cur target verify = Ok vs' \<longrightarrow>
       (\<exists>voter. get_authorized_voter vs cur = Some voter \<and> verify voter = Ok ()) \<and>
       (\<forall>e\<ge>cur. get_authorized_voter vs' e = (if target \<le> e then Some pk else get_authorized_voter vs e)) \<and>
       btree_sorted (authorized_voters vs') \<and> (\<forall>k\<in>fst ` set (authorized_voters vs'). k \<le> target) \<and>
       circ_buf_ok (prior_voters vs'))"
proof (cases "btree.in_force (authorized_voters vs) cur")
  case None
  then show ?thesis by (simp add: set_new_authorized_voter_def get_and_update_eq [OF assms(1)])
next
  case (Some pk0)
  define av1 where "av1 = btree_purge cur (btree_insert cur pk0 (authorized_voters vs))"
  have s1: "btree_sorted av1" using assms(1) by (simp add: av1_def btree_insert_sorted btree_purge_sorted)
  have ne: "av1 \<noteq> []" unfolding av1_def by (rule purge_cached_not_empty)
  then obtain le lp where last: "av_last av1 = Some (le, lp)"
    by (cases "av_last av1") (auto simp: av_last_def)
  have keys1: "\<forall>k\<in>fst ` set av1. k \<le> target"
  proof -
    have "fst ` set av1 \<subseteq> fst ` set (btree_insert cur pk0 (authorized_voters vs))"
      by (auto simp: av1_def btree_purge_eq)
    then show ?thesis using assms(2,3) unfolding btree_insert_keys by blast
  qed
  have le_in: "le \<in> fst ` set av1"
    using av_last_greatest [OF s1 last] btree_get_None_iff [of av1 le] by simp
  have lt: "le < target" if "\<not> av_contains av1 target"
  proof -
    have "le \<noteq> target" using that le_in by (auto simp: av_contains_def btree_get_None_iff)
    then show ?thesis using keys1 le_in by auto
  qed
  obtain range where range: "circ_buf_last (prior_voters vs) = (Ok range :: (_, instruction_error) result)"
    using circ_buf_last_ok [OF assms(5)] by blast
  have eq: "set_new_authorized_voter vs pk cur target verify =
      and_then (verify pk0) (\<lambda>_.
        if av_contains av1 target then Err (instruction_error_of_vote_error TooSoonToReauthorize)
        else Ok (vs\<lparr>authorized_voters := btree_insert target pk av1,
               prior_voters := (if lp \<noteq> pk then circ_buf_append (prior_voters vs)
                  (lp, case range of None \<Rightarrow> 0 | Some (_, _, e) \<Rightarrow> e, target)
                else prior_voters vs)\<rparr>))"
    using lt
    by (cases "verify pk0")
       (auto simp: set_new_authorized_voter_def get_and_update_eq [OF assms(1)] Some av1_def [symmetric]
        last Let_def av_insert_def range)
  have v: "verify pk0 \<noteq> Panic" by (rule assms(4))
  have f: "btree.in_force (btree_insert target pk av1) e =
      (if target \<le> e then Some pk else btree.in_force (authorized_voters vs) e)" if "cur \<le> e" for e
    unfolding av1_def by (rule in_force_reauthorize [OF assms(1) Some assms(2,3) that])
  have k2: "\<forall>k\<in>fst ` set (btree_insert target pk av1). k \<le> target"
    using keys1 unfolding btree_insert_keys by blast
  show ?thesis
    using v f k2 btree_insert_sorted [OF s1] Some assms(5) circ_buf_append_ok [OF assms(5)]
    by (cases "verify pk0")
       (auto simp: eq get_authorized_voter_def av_get_authorized_voter_in_force split: if_splits)
qed

theorem set_new_authorized_voter_correct_witness:
  "\<exists>vs'. set_new_authorized_voter demo_vote_state 7 2 4 (\<lambda>k. if k = 6 then Ok () else Err MissingRequiredSignature) = Ok vs' \<and>
     get_authorized_voter vs' 3 = Some 6 \<and> get_authorized_voter vs' 4 = Some 7"
proof -
  let ?verify = "\<lambda>k::pubkey. if k = 6 then Ok () else Err MissingRequiredSignature"
  obtain r where r: "set_new_authorized_voter demo_vote_state 7 2 4 ?verify = r" by blast
  have "map_ok node_pubkey r = Ok 0" unfolding r [symmetric] by code_simp
  then obtain vs' where vs': "r = Ok vs'" by (auto simp: map_ok_Ok_iff)
  have av: "authorized_voters demo_vote_state = [(0, 6)]" by (simp add: demo_vote_state_def)
  have prior: "circ_buf_ok (prior_voters demo_vote_state)"
    by (simp add: demo_vote_state_def vote_state_default_def circ_buf_default_ok)
  have "get_authorized_voter vs' e = (if 4 \<le> e then Some 7 else get_authorized_voter demo_vote_state e)"
    if "2 \<le> e" for e
    using set_new_authorized_voter_correct [of demo_vote_state 4 2 ?verify 7] r vs' that prior by (simp add: av)
  then have "get_authorized_voter vs' 3 = get_authorized_voter demo_vote_state 3"
    and "get_authorized_voter vs' 4 = Some 7" by simp_all
  moreover have "get_authorized_voter demo_vote_state 3 = Some 6" by code_simp
  ultimately show ?thesis using r vs' by auto
qed

end
