(* ===== verification/Pubkey_Model.thy ===== *)
theory Pubkey_Model
  imports Program_Error Program_Ids
begin

text \<open>
  Derived addresses (\<open>sdk/program/src/pubkey.rs\<close>, \<open>sdk/program/src/hash.rs\<close>): addresses made of a
  base key and a seed, and program derived addresses with the search for a bump seed. SHA-256 and
  the test for points of the curve come from other packages; they are the fields of \<open>crypto\<close>.
  The theorems hold for any such functions.
\<close>

section \<open>Definitions\<close>

record crypto =
  sha256 :: "u8 list \<Rightarrow> hash"
  bytes_are_curve_point :: "pubkey \<Rightarrow> bool"

definition MAX_SEED_LEN :: nat where
  "MAX_SEED_LEN = 32"

definition MAX_SEEDS :: nat where
  "MAX_SEEDS = 16"

text \<open>The bytes of \<open>ProgramDerivedAddress\<close>.\<close>

definition PDA_MARKER :: "u8 list" where
  "PDA_MARKER = [80, 114, 111, 103, 114, 97, 109, 68, 101, 114, 105, 118, 101, 100, 65, 100, 100, 114, 101, 115, 115]"

text \<open>\<open>as_ref\<close> of a key: its 32 bytes.\<close>

definition pubkey_bytes :: "pubkey \<Rightarrow> u8 list" where
  "pubkey_bytes k = map (\<lambda>i. ucast (drop_bit (8 * (31 - i)) k)) [0..<32]"

text \<open>A \<open>Hasher\<close> digests the concatenation of what it is given.\<close>

definition hashv :: "crypto \<Rightarrow> u8 list list \<Rightarrow> hash" where
  "hashv cr vals = sha256 cr (concat vals)"

definition secp256k1_program_id :: pubkey where
  "secp256k1_program_id = pubkey_of_base58 ''KeccakSecp256k11111111111111111111111111111''"

definition is_native_program_id :: "pubkey \<Rightarrow> bool" where
  "is_native_program_id k \<longleftrightarrow>
     k \<in> set [bpf_loader_id, bpf_loader_deprecated_id, feature_id, config_program_id, stake_program_id,
       stake_config_id, vote_program_id, secp256k1_program_id, system_program_id, sysvar_owner_id]"

definition pubkey_error_from :: "u64 \<Rightarrow> (pubkey_error, 'e) result" where
  "pubkey_error_from e =
     (if e = 0 then Ok PK_MaxSeedLengthExceeded else if e = 1 then Ok PK_InvalidSeeds else Panic)"

definition create_with_seed :: "crypto \<Rightarrow> pubkey \<Rightarrow> u8 list \<Rightarrow> pubkey \<Rightarrow> (pubkey, pubkey_error) result" where
  "create_with_seed cr base seed owner =
     (if length seed > MAX_SEED_LEN then Err PK_MaxSeedLengthExceeded
      else if length (pubkey_bytes owner) \<ge> length PDA_MARKER \<and>
         drop (length (pubkey_bytes owner) - length PDA_MARKER) (pubkey_bytes owner) = PDA_MARKER
      then Err PK_IllegalOwner
      else Ok (hashv cr [pubkey_bytes base, seed, pubkey_bytes owner]))"

definition create_program_address :: "crypto \<Rightarrow> u8 list list \<Rightarrow> pubkey \<Rightarrow> (pubkey, pubkey_error) result" where
  "create_program_address cr seeds program_id =
     (if length seeds > MAX_SEEDS then Err PK_MaxSeedLengthExceeded
      else if list_ex (\<lambda>seed. length seed > MAX_SEED_LEN) seeds then Err PK_MaxSeedLengthExceeded
      else if is_native_program_id program_id then Err PK_IllegalOwner
      else
        let h = hashv cr (seeds @ [pubkey_bytes program_id, PDA_MARKER])
        in if bytes_are_curve_point cr h then Err PK_InvalidSeeds else Ok h)"

text \<open>The loop of \<open>try_find_program_address\<close>, with the number of rounds that are left.\<close>

fun find_bump :: "nat \<Rightarrow> crypto \<Rightarrow> u8 list list \<Rightarrow> pubkey \<Rightarrow> u8 \<Rightarrow> (pubkey \<times> u8) option" where
  "find_bump 0 cr seeds program_id bump_seed = None"
| "find_bump (Suc n) cr seeds program_id bump_seed =
     (case create_program_address cr (seeds @ [[bump_seed]]) program_id of
        Ok address \<Rightarrow> Some (address, bump_seed)
      | Err PK_InvalidSeeds \<Rightarrow> find_bump n cr seeds program_id (bump_seed - 1)
      | _ \<Rightarrow> None)"

definition try_find_program_address :: "crypto \<Rightarrow> u8 list list \<Rightarrow> pubkey \<Rightarrow> (pubkey \<times> u8) option" where
  "try_find_program_address cr seeds program_id = find_bump 255 cr seeds program_id (- 1)"

definition find_program_address :: "crypto \<Rightarrow> u8 list list \<Rightarrow> pubkey \<Rightarrow> (pubkey \<times> u8, 'e) result" where
  "find_program_address cr seeds program_id = unwrap (try_find_program_address cr seeds program_id)"

definition is_on_curve :: "crypto \<Rightarrow> pubkey \<Rightarrow> bool" where
  "is_on_curve cr k = bytes_are_curve_point cr k"

section \<open>Lemmas\<close>

lemma length_pubkey_bytes [simp]: "length (pubkey_bytes k) = 32"
  by (simp add: pubkey_bytes_def)

lemma length_PDA_MARKER [simp]: "length PDA_MARKER = 21"
  by (simp add: PDA_MARKER_def)

text \<open>Seeds and program for which an address may exist, and the address.\<close>

definition seeds_allowed :: "u8 list list \<Rightarrow> pubkey \<Rightarrow> bool" where
  "seeds_allowed seeds program_id \<longleftrightarrow>
     length seeds \<le> MAX_SEEDS \<and> (\<forall>s\<in>set seeds. length s \<le> MAX_SEED_LEN) \<and> \<not> is_native_program_id program_id"

definition address_of :: "crypto \<Rightarrow> u8 list list \<Rightarrow> pubkey \<Rightarrow> pubkey" where
  "address_of cr seeds program_id = sha256 cr (concat seeds @ pubkey_bytes program_id @ PDA_MARKER)"

lemma create_program_address_Ok_iff:
  "create_program_address cr seeds program_id = Ok a \<longleftrightarrow>
     seeds_allowed seeds program_id \<and> a = address_of cr seeds program_id \<and> \<not> bytes_are_curve_point cr a"
  by (auto simp: create_program_address_def seeds_allowed_def address_of_def hashv_def Let_def list_ex_iff not_less)
    (auto simp: not_le)

lemma create_program_address_InvalidSeeds_iff:
  "create_program_address cr seeds program_id = Err PK_InvalidSeeds \<longleftrightarrow>
     seeds_allowed seeds program_id \<and> bytes_are_curve_point cr (address_of cr seeds program_id)"
  by (auto simp: create_program_address_def seeds_allowed_def address_of_def hashv_def Let_def list_ex_iff not_less)
    (auto simp: not_le)

lemma seeds_allowed_bump:
  "seeds_allowed (seeds @ [[b]]) program_id \<longleftrightarrow> seeds_allowed (seeds @ [[c]]) program_id"
  by (auto simp: seeds_allowed_def)

text \<open>A round of the search, by what became of the address.\<close>

lemma find_bump_Suc:
  "find_bump (Suc n) cr seeds program_id b =
     (if \<not> seeds_allowed (seeds @ [[b]]) program_id then None
      else if bytes_are_curve_point cr (address_of cr (seeds @ [[b]]) program_id)
      then find_bump n cr seeds program_id (b - 1)
      else Some (address_of cr (seeds @ [[b]]) program_id, b))"
proof (cases "create_program_address cr (seeds @ [[b]]) program_id")
  case (Ok a)
  then have "seeds_allowed (seeds @ [[b]]) program_id" "a = address_of cr (seeds @ [[b]]) program_id"
      "\<not> bytes_are_curve_point cr a"
    unfolding create_program_address_Ok_iff by blast+
  then show ?thesis using Ok by simp
next
  case (Err e)
  have no: "create_program_address cr (seeds @ [[b]]) program_id \<noteq> Ok a" for a using Err by simp
  show ?thesis
    using Err no create_program_address_Ok_iff [of cr "seeds @ [[b]]" program_id]
      create_program_address_InvalidSeeds_iff [of cr "seeds @ [[b]]" program_id]
    by (cases e) auto
next
  case Panic
  then show ?thesis
    by (auto simp: create_program_address_def Let_def split: if_splits)
qed

lemma find_bump_None_if_not_allowed:
  "\<not> seeds_allowed (seeds @ [[c]]) program_id \<Longrightarrow> find_bump n cr seeds program_id b = None"
proof (cases n)
  case (Suc m)
  assume "\<not> seeds_allowed (seeds @ [[c]]) program_id"
  then have "\<not> seeds_allowed (seeds @ [[b]]) program_id" using seeds_allowed_bump by blast
  then show ?thesis unfolding Suc find_bump_Suc by simp
qed simp

lemma unat_pred: "(b::u8) \<noteq> 0 \<Longrightarrow> unat (b - 1) = unat b - 1"
  by (rule unat_minus_one)

lemma find_bump_Some_iff:
  assumes "seeds_allowed (seeds @ [[c]]) program_id" and "n \<le> unat b"
  shows "find_bump n cr seeds program_id b = Some (a, x) \<longleftrightarrow>
     unat b - n < unat x \<and> x \<le> b \<and> a = address_of cr (seeds @ [[x]]) program_id \<and>
     \<not> bytes_are_curve_point cr a \<and>
     (\<forall>y. x < y \<longrightarrow> y \<le> b \<longrightarrow> bytes_are_curve_point cr (address_of cr (seeds @ [[y]]) program_id))"
  using assms(2)
proof (induction n arbitrary: b)
  case 0
  then show ?case by (auto simp: word_le_nat_alt)
next
  case (Suc n)
  let ?on = "\<lambda>y. bytes_are_curve_point cr (address_of cr (seeds @ [[y]]) program_id)"
  have allowed: "seeds_allowed (seeds @ [[b]]) program_id" using assms(1) seeds_allowed_bump by blast
  have nz: "b \<noteq> 0" using Suc.prems by auto
  have le: "y \<le> b \<longleftrightarrow> y = b \<or> y \<le> b - 1" for y
    using nz unat_pred [OF nz] by (auto simp: word_le_nat_alt word_unat_eq_iff)
  have lt: "x < b \<longleftrightarrow> x \<le> b - 1" for x
    using nz unat_pred [OF nz] by (simp add: word_le_nat_alt word_less_nat_alt unat_gt_0 [symmetric] del: unat_gt_0) arith
  show ?case
  proof (cases "?on b")
    case True
    have IH: "find_bump n cr seeds program_id (b - 1) = Some (a, x) \<longleftrightarrow>
       unat (b - 1) - n < unat x \<and> x \<le> b - 1 \<and> a = address_of cr (seeds @ [[x]]) program_id \<and>
       \<not> bytes_are_curve_point cr a \<and> (\<forall>y. x < y \<longrightarrow> y \<le> b - 1 \<longrightarrow> ?on y)"
      using Suc.prems unat_pred [OF nz] by (intro Suc.IH) simp
    have bnd: "unat (b - 1) - n = unat b - Suc n" using unat_pred [OF nz] by simp
    show ?thesis
      unfolding find_bump_Suc using allowed True IH le bnd by auto
  next
    case False
    have "\<not> (\<forall>y. x < y \<longrightarrow> y \<le> b \<longrightarrow> ?on y)" if "x < b" using False that by auto
    moreover have "x \<le> b \<longleftrightarrow> x = b \<or> x < b" by auto
    ultimately show ?thesis
      unfolding find_bump_Suc using allowed False Suc.prems by auto
  qed
qed

section \<open>Theorems\<close>

text \<open>
  C29: The search for a bump seed finds the canonical one. \<open>try_find_program_address\<close> returns a
  pair exactly when, with the bump appended, the seeds are allowed and their address is off the
  curve, no greater bump gives an address off the curve, and the bump is not zero, which is never
  tried; the address is the one \<open>create_program_address\<close> gives for the seeds with this bump.
\<close>

theorem try_find_program_address_iff:
  "try_find_program_address cr seeds program_id = Some (a, b) \<longleftrightarrow>
     0 < b \<and> create_program_address cr (seeds @ [[b]]) program_id = Ok a \<and>
     (\<forall>c. b < c \<longrightarrow> create_program_address cr (seeds @ [[c]]) program_id = Err PK_InvalidSeeds)"
proof (cases "seeds_allowed (seeds @ [[b]]) program_id")
  case True
  have max: "unat (- 1 :: u8) = 255" by (simp add: unsigned_minus_1_eq_mask mask_eq_exp_minus_1)
  have "try_find_program_address cr seeds program_id = Some (a, b) \<longleftrightarrow>
     unat (- 1 :: u8) - 255 < unat b \<and> b \<le> - 1 \<and> a = address_of cr (seeds @ [[b]]) program_id \<and>
     \<not> bytes_are_curve_point cr a \<and>
     (\<forall>y. b < y \<longrightarrow> y \<le> - 1 \<longrightarrow> bytes_are_curve_point cr (address_of cr (seeds @ [[y]]) program_id))"
    unfolding try_find_program_address_def
    by (rule find_bump_Some_iff [OF True]) (simp only: max order.refl)
  moreover have "create_program_address cr (seeds @ [[c]]) program_id = Err PK_InvalidSeeds \<longleftrightarrow>
      bytes_are_curve_point cr (address_of cr (seeds @ [[c]]) program_id)" for c
    using True seeds_allowed_bump create_program_address_InvalidSeeds_iff by blast
  ultimately show ?thesis
    using True max by (auto simp: create_program_address_Ok_iff word_less_nat_alt)
next
  case False
  then show ?thesis
    by (simp add: try_find_program_address_def find_bump_None_if_not_allowed create_program_address_Ok_iff)
qed

text \<open>
  C30: No address is both derived from a seed and program derived, short of a collision of the hash
  function: if \<open>create_with_seed\<close> and \<open>create_program_address\<close> give the same address, then the two
  byte strings they digest are different strings with the same digest. The refusal of owners that
  end with the marker is what excludes an honest overlap.
\<close>

theorem derived_addresses_disjoint:
  assumes "create_with_seed cr base seed owner = Ok a" and "create_program_address cr seeds program_id = Ok a"
  shows "pubkey_bytes base @ seed @ pubkey_bytes owner \<noteq> concat seeds @ pubkey_bytes program_id @ PDA_MARKER \<and>
    sha256 cr (pubkey_bytes base @ seed @ pubkey_bytes owner) =
    sha256 cr (concat seeds @ pubkey_bytes program_id @ PDA_MARKER)"
proof -
  let ?x = "pubkey_bytes base @ seed @ pubkey_bytes owner"
  let ?y = "concat seeds @ pubkey_bytes program_id @ PDA_MARKER"
  have owner: "drop 11 (pubkey_bytes owner) \<noteq> PDA_MARKER" and a: "a = sha256 cr ?x"
    using assms(1) by (auto simp: create_with_seed_def hashv_def split: if_splits)
  have tail: "drop (length xs - n) xs = drop (length zs - n) zs"
    if "xs = ys @ zs" "n \<le> length zs" for n and xs ys zs :: "u8 list"
    using that by simp
  have "drop (length ?x - 21) ?x = drop 11 (pubkey_bytes owner)"
    using tail [of ?x "pubkey_bytes base @ seed" "pubkey_bytes owner" 21] by simp
  moreover have "drop (length ?y - 21) ?y = PDA_MARKER"
    using tail [of ?y "concat seeds @ pubkey_bytes program_id" PDA_MARKER 21] by simp
  ultimately have "?x \<noteq> ?y" using owner by metis
  then show ?thesis
    using a assms(2) by (simp add: create_program_address_Ok_iff address_of_def)
qed

text \<open>
  For the witnesses: a digest that is the byte before the last 53, which is where the bump stands,
  with the digests from \<open>253\<close> on on the curve; and a constant digest.
\<close>

definition demo_crypto :: crypto where
  "demo_crypto = \<lparr>sha256 = (\<lambda>bs. ucast (bs ! (length bs - 54))), bytes_are_curve_point = (\<lambda>k. 253 \<le> k)\<rparr>"

definition const_crypto :: crypto where
  "const_crypto = \<lparr>sha256 = (\<lambda>_. 5), bytes_are_curve_point = (\<lambda>_. False)\<rparr>"

lemma small_not_native: "uint k < 2 ^ 64 \<Longrightarrow> k \<noteq> 0 \<Longrightarrow> \<not> is_native_program_id k"
  by (auto simp: is_native_program_id_def uint_ids secp256k1_program_id_def uint_pubkey_of_base58
      base58_digit_def system_program_id_def pubkey_of_base58_def)

theorem try_find_program_address_iff_witness:
  "try_find_program_address demo_crypto [] 7 = Some (252, 252) \<and>
     create_program_address demo_crypto ([] @ [[253]]) 7 = Err PK_InvalidSeeds"
proof -
  have allowed: "seeds_allowed ([] @ [[c]]) 7" for c :: u8
    by (simp add: seeds_allowed_def MAX_SEEDS_def MAX_SEED_LEN_def small_not_native)
  have addr: "address_of demo_crypto ([] @ [[c]]) 7 = ucast c" for c
    by (simp add: address_of_def demo_crypto_def)
  have on: "create_program_address demo_crypto ([] @ [[c]]) 7 = Err PK_InvalidSeeds" if "252 < c" for c :: u8
  proof -
    have "(253::pubkey) \<le> ucast c" using that
      by (simp add: word_le_nat_alt word_less_nat_alt unsigned_ucast_eq take_bit_nat_eq_self
          order.strict_trans [OF unat_bound [of c]])
    then show ?thesis
      unfolding create_program_address_InvalidSeeds_iff addr using allowed by (simp add: demo_crypto_def)
  qed
  moreover have "create_program_address demo_crypto ([] @ [[252]]) 7 = Ok 252"
    unfolding create_program_address_Ok_iff addr using allowed by (simp add: demo_crypto_def)
  ultimately have "try_find_program_address demo_crypto [] 7 = Some (252, 252)"
    unfolding try_find_program_address_iff by simp
  then show ?thesis using on by simp
qed

theorem derived_addresses_disjoint_witness:
  "create_with_seed const_crypto 1 [2] 3 = Ok 5 \<and> create_program_address const_crypto [[4]] 7 = Ok 5 \<and>
     pubkey_bytes 1 @ [2] @ pubkey_bytes 3 \<noteq> concat [[4]] @ pubkey_bytes 7 @ PDA_MARKER"
proof -
  have "drop 11 (pubkey_bytes 3) \<noteq> PDA_MARKER"
    by (simp add: pubkey_bytes_def PDA_MARKER_def upt_rec)
  then have a: "create_with_seed const_crypto 1 [2] 3 = Ok 5"
    by (simp add: create_with_seed_def const_crypto_def hashv_def MAX_SEED_LEN_def)
  have b: "create_program_address const_crypto [[4]] 7 = Ok 5"
    unfolding create_program_address_Ok_iff
    by (simp add: seeds_allowed_def MAX_SEEDS_def MAX_SEED_LEN_def small_not_native address_of_def const_crypto_def)
  show ?thesis using a b derived_addresses_disjoint [OF a b] by blast
qed

end
