(* ===== verification/Nonce_Model.thy ===== *)
theory Nonce_Model
  imports Program_Context Rent_Model
begin

text \<open>
  Durable nonces: the state of a nonce account (\<open>sdk/program/src/nonce/state\<close>), the recent
  blockhashes sysvar (\<open>sdk/program/src/sysvar/recent_blockhashes.rs\<close>) and the operations on nonce
  accounts (\<open>sdk/src/nonce_keyed_account.rs\<close>). The theorems: a nonce advances once per blockhash,
  and a withdrawal leaves nothing or the rent-exempt reserve.
\<close>

section \<open>Definitions\<close>

record fee_calculator =
  fc_lamports_per_signature :: u64

record blockhash_entry =
  be_blockhash :: hash
  be_fee_calculator :: fee_calculator

type_synonym recent_blockhashes = "blockhash_entry list"

datatype nonce_error = NoRecentBlockhashes | NotExpired | UnexpectedValue | BadAccountState

fun nonce_error_code :: "nonce_error \<Rightarrow> u64" where
  "nonce_error_code NoRecentBlockhashes = 0"
| "nonce_error_code NotExpired = 1"
| "nonce_error_code UnexpectedValue = 2"
| "nonce_error_code BadAccountState = 3"

definition of_nonce_error :: "nonce_error \<Rightarrow> instruction_error" where
  "of_nonce_error e = instruction_error_of_u64 (nonce_error_code e)"

record nonce_data =
  nd_authority :: pubkey
  nd_blockhash :: hash
  nd_fee_calculator :: fee_calculator

datatype nonce_state = Uninitialized | Initialized nonce_data

datatype nonce_versions = NonceCurrent nonce_state

definition nonce_new_current :: "nonce_state \<Rightarrow> nonce_versions" where
  "nonce_new_current s = NonceCurrent s"

fun nonce_convert_to_current :: "nonce_versions \<Rightarrow> nonce_state" where
  "nonce_convert_to_current (NonceCurrent s) = s"

definition nonce_data_default :: nonce_data where
  "nonce_data_default = \<lparr>nd_authority = 0, nd_blockhash = 0, nd_fee_calculator = \<lparr>fc_lamports_per_signature = 0\<rparr>\<rparr>"

definition nonce_state_size :: "nonce_versions codec \<Rightarrow> nat" where
  "nonce_state_size c = length (bincode_serialize c (nonce_new_current (Initialized nonce_data_default)))"

definition set_lamports :: "store \<Rightarrow> keyed_account \<Rightarrow> u64 \<Rightarrow> store" where
  "set_lamports st ka l = set_account st ka ((account_ref st ka)\<lparr>acc_lamports := l\<rparr>)"

definition advance_nonce_account ::
  "nonce_versions codec \<Rightarrow> store \<Rightarrow> keyed_account \<Rightarrow> recent_blockhashes \<Rightarrow> pubkey set \<Rightarrow>
   (store, instruction_error) result" where
  "advance_nonce_account c st me rbs signers =
     (if rbs = [] then Err (of_nonce_error NoRecentBlockhashes)
      else
        and_then (ka_state c st me) (\<lambda>v.
        case nonce_convert_to_current v of
          Initialized data \<Rightarrow>
            if nd_authority data \<notin> signers then Err MissingRequiredSignature
            else
              and_then (index_at rbs 0) (\<lambda>e.
              if nd_blockhash data = be_blockhash e then Err (of_nonce_error NotExpired)
              else
                ka_set_state c st me (nonce_new_current (Initialized
                  (data\<lparr>nd_blockhash := be_blockhash e, nd_fee_calculator := be_fee_calculator e\<rparr>))))
        | Uninitialized \<Rightarrow> Err (of_nonce_error BadAccountState)))"

definition withdraw_nonce_account ::
  "nonce_versions codec \<Rightarrow> store \<Rightarrow> keyed_account \<Rightarrow> u64 \<Rightarrow> keyed_account \<Rightarrow> recent_blockhashes \<Rightarrow> rent \<Rightarrow>
   pubkey set \<Rightarrow> (store, instruction_error) result" where
  "withdraw_nonce_account c st me lamports to rbs rent signers =
     and_then (ka_state c st me) (\<lambda>v.
     and_then
       (case nonce_convert_to_current v of
          Uninitialized \<Rightarrow>
            if lamports > ka_lamports st me then Err InsufficientFunds else Ok (unsigned_key me, st)
        | Initialized data \<Rightarrow>
            and_then
              (if lamports = ka_lamports st me then
                 and_then (index_at rbs 0) (\<lambda>e.
                 if nd_blockhash data = be_blockhash e then Err (of_nonce_error NotExpired)
                 else ka_set_state c st me (nonce_new_current Uninitialized))
               else
                 let min_balance = minimum_balance rent (ka_data_len st me) in
                 and_then (instruction_checked_add lamports min_balance) (\<lambda>amount.
                 if amount > ka_lamports st me then Err InsufficientFunds else Ok st))
              (\<lambda>st1. Ok (nd_authority data, st1)))
       (\<lambda>(signer, st1).
          if signer \<notin> signers then Err MissingRequiredSignature
          else
            and_then (ok_or (checked_sub (ka_lamports st1 me) lamports) ArithmeticOverflow) (\<lambda>l.
            let st2 = set_lamports st1 me l in
            and_then (ok_or (checked_add (ka_lamports st2 to) lamports) ArithmeticOverflow) (\<lambda>l'.
              Ok (set_lamports st2 to l')))))"

definition initialize_nonce_account ::
  "nonce_versions codec \<Rightarrow> store \<Rightarrow> keyed_account \<Rightarrow> pubkey \<Rightarrow> recent_blockhashes \<Rightarrow> rent \<Rightarrow>
   (store, instruction_error) result" where
  "initialize_nonce_account c st me nonce_authority rbs rent =
     (if rbs = [] then Err (of_nonce_error NoRecentBlockhashes)
      else
        and_then (ka_state c st me) (\<lambda>v.
        case nonce_convert_to_current v of
          Uninitialized \<Rightarrow>
            if ka_lamports st me < minimum_balance rent (ka_data_len st me) then Err InsufficientFunds
            else
              and_then (index_at rbs 0) (\<lambda>e.
                ka_set_state c st me (nonce_new_current (Initialized
                  \<lparr>nd_authority = nonce_authority, nd_blockhash = be_blockhash e,
                   nd_fee_calculator = be_fee_calculator e\<rparr>)))
        | Initialized _ \<Rightarrow> Err (of_nonce_error BadAccountState)))"

definition authorize_nonce_account ::
  "nonce_versions codec \<Rightarrow> store \<Rightarrow> keyed_account \<Rightarrow> pubkey \<Rightarrow> pubkey set \<Rightarrow> (store, instruction_error) result" where
  "authorize_nonce_account c st me nonce_authority signers =
     and_then (ka_state c st me) (\<lambda>v.
     case nonce_convert_to_current v of
       Initialized data \<Rightarrow>
         if nd_authority data \<notin> signers then Err MissingRequiredSignature
         else ka_set_state c st me (nonce_new_current (Initialized (data\<lparr>nd_authority := nonce_authority\<rparr>)))
     | Uninitialized \<Rightarrow> Err (of_nonce_error BadAccountState))"

text \<open>Nonce accounts outside of an instruction (\<open>sdk/src/nonce_account.rs\<close>).\<close>

definition nonce_create_account :: "nonce_versions codec \<Rightarrow> u64 \<Rightarrow> (account, 'e) result" where
  "nonce_create_account c lamports =
     (case shared_new_data_with_space c lamports (nonce_new_current Uninitialized) (nonce_state_size c)
        system_program_id of Ok a \<Rightarrow> Ok a | _ \<Rightarrow> Panic)"

definition verify_nonce_account :: "nonce_versions codec \<Rightarrow> account \<Rightarrow> hash \<Rightarrow> bool" where
  "verify_nonce_account c acc h =
     (if acc_owner acc \<noteq> system_program_id then False
      else case map_ok nonce_convert_to_current (account_state c acc) of
        Ok (Initialized data) \<Rightarrow> h = nd_blockhash data
      | _ \<Rightarrow> False)"

definition fee_calculator_of :: "nonce_versions codec \<Rightarrow> account \<Rightarrow> fee_calculator option" where
  "fee_calculator_of c acc =
     (case account_state c acc of
        Ok v \<Rightarrow> (case nonce_convert_to_current v of
          Initialized data \<Rightarrow> Some (nd_fee_calculator data) | Uninitialized \<Rightarrow> None)
      | _ \<Rightarrow> None)"

section \<open>Lemmas\<close>

lemma set_lamports_move:
  assumes "checked_sub (ka_lamports st me) lamports = Some l"
    and "checked_add (ka_lamports (set_lamports st me l) to) lamports = Some l'"
  shows "and_then (debit st me lamports) (\<lambda>st1. credit st1 to lamports) = Ok (set_lamports (set_lamports st me l) to l')"
  using assms by (auto simp: result_simps checked_add_def set_lamports_def split: if_splits)

lemma conserves_set_lamports_move:
  assumes "in_store st me" and "in_store st to"
  shows "conserves st
    (and_then (ok_or (checked_sub (ka_lamports st me) lamports) e) (\<lambda>l.
     and_then (ok_or (checked_add (ka_lamports (set_lamports st me l) to) lamports) e') (\<lambda>l'.
       Ok (set_lamports (set_lamports st me l) to l'))))"
  using conserves_move [OF assms, of lamports] set_lamports_move [of st me lamports _ to]
  unfolding conserves_def by (auto simp: and_then_Ok_iff ok_or_Ok_iff)

lemma conserves_advance_nonce_account [conserve_intros]:
  "in_store st me \<Longrightarrow> conserves st (advance_nonce_account c st me rbs signers)"
  unfolding advance_nonce_account_def
  by (intro conserve_intros) (auto split: nonce_state.split intro!: conserve_intros)

lemma conserves_initialize_nonce_account [conserve_intros]:
  "in_store st me \<Longrightarrow> conserves st (initialize_nonce_account c st me pk rbs rent)"
  unfolding initialize_nonce_account_def
  by (intro conserve_intros) (auto split: nonce_state.split intro!: conserve_intros)

lemma conserves_authorize_nonce_account [conserve_intros]:
  "in_store st me \<Longrightarrow> conserves st (authorize_nonce_account c st me pk signers)"
  unfolding authorize_nonce_account_def
  by (intro conserve_intros) (auto split: nonce_state.split intro!: conserve_intros)

text \<open>The steps of a successful withdrawal: what was checked, and the store after it.\<close>

fun withdraw_checked ::
  "nonce_versions codec \<Rightarrow> store \<Rightarrow> keyed_account \<Rightarrow> u64 \<Rightarrow> recent_blockhashes \<Rightarrow> rent \<Rightarrow> pubkey set \<Rightarrow>
   nonce_state \<Rightarrow> store \<Rightarrow> bool" where
  "withdraw_checked c st me lamports rbs rent signers Uninitialized st1 \<longleftrightarrow>
     st1 = st \<and> lamports \<le> ka_lamports st me \<and> unsigned_key me \<in> signers"
| "withdraw_checked c st me lamports rbs rent signers (Initialized data) st1 \<longleftrightarrow>
     nd_authority data \<in> signers \<and>
     (if lamports = ka_lamports st me
      then rbs \<noteq> [] \<and> nd_blockhash data \<noteq> be_blockhash (hd rbs) \<and>
        ka_set_state c st me (NonceCurrent Uninitialized) = Ok st1
      else st1 = st \<and> unat lamports + unat (minimum_balance rent (ka_data_len st me)) \<le> unat (ka_lamports st me))"

lemma withdraw_nonce_account_Ok:
  assumes "withdraw_nonce_account c st me lamports to rbs rent signers = Ok st'"
  obtains s st1 l l' where "ka_state c st me = Ok (NonceCurrent s)"
    and "withdraw_checked c st me lamports rbs rent signers s st1"
    and "checked_sub (ka_lamports st1 me) lamports = Some l"
    and "checked_add (ka_lamports (set_lamports st1 me l) to) lamports = Some l'"
    and "st' = set_lamports (set_lamports st1 me l) to l'"
proof -
  obtain s where s: "ka_state c st me = Ok (NonceCurrent s)"
    using assms unfolding withdraw_nonce_account_def and_then_Ok_iff
    by (metis nonce_versions.exhaust)
  show ?thesis
  proof (cases s)
    case Uninitialized
    then show ?thesis using assms s
      by (auto simp: withdraw_nonce_account_def and_then_Ok_iff ok_or_Ok_iff Let_def
          split: if_splits intro!: that [of s st])
  next
    case (Initialized data)
    then show ?thesis using assms s
      by (auto simp: withdraw_nonce_account_def and_then_Ok_iff ok_or_Ok_iff Let_def nonce_new_current_def
          index_at_Ok_iff instruction_checked_add_def checked_add_Some_iff word_le_nat_alt hd_conv_nth
          not_less split: if_splits intro!: that [of s])
  qed
qed

lemma conserves_withdraw_nonce_account [conserve_intros]:
  assumes "in_store st me" and "in_store st to"
  shows "conserves st (withdraw_nonce_account c st me lamports to rbs rent signers)"
  unfolding conserves_def
proof (intro allI impI)
  fix st' assume "withdraw_nonce_account c st me lamports to rbs rent signers = Ok st'"
  then obtain s st1 l l' where st1: "withdraw_checked c st me lamports rbs rent signers s st1"
    and move: "checked_sub (ka_lamports st1 me) lamports = Some l"
      "checked_add (ka_lamports (set_lamports st1 me l) to) lamports = Some l'"
    and st': "st' = set_lamports (set_lamports st1 me l) to l'"
    by (rule withdraw_nonce_account_Ok)
  have 1: "length st1 = length st \<and> total_lamports st1 = total_lamports st"
    using st1 conserves_set_state [OF assms(1), of c "NonceCurrent Uninitialized"]
    by (cases s) (auto simp: conserves_def split: if_splits)
  then have "in_store st1 me" "in_store st1 to" using assms by (simp_all add: in_store_def)
  from conserves_move [OF this, of lamports] show "length st' = length st \<and> total_lamports st' = total_lamports st"
    using set_lamports_move [OF move] 1 st' by (simp add: conserves_def)
qed

section \<open>Theorems\<close>

text \<open>
  C27: A durable nonce is consumed once. When \<open>advance_nonce_account\<close> succeeds, the account held an
  initialized nonce whose authority signed and whose blockhash was not the most recent one;
  afterwards the account verifies for the most recent blockhash and for no other, so not for the
  nonce that was consumed, its lamports are as before, and a second advance with the same
  blockhashes is refused as not expired.
\<close>

theorem advance_nonce_account_once:
  assumes codec: "\<And>s rest. bincode_deserialize c (bincode_serialize c s @ rest) = Some s"
    and "in_store st me" and "ka_owner st me = system_program_id"
    and "advance_nonce_account c st me rbs signers = Ok st'"
  shows "\<exists>data. ka_state c st me = Ok (NonceCurrent (Initialized data)) \<and> nd_authority data \<in> signers \<and>
    nd_blockhash data \<noteq> be_blockhash (hd rbs) \<and>
    (\<forall>h. verify_nonce_account c (account_ref st' me) h \<longleftrightarrow> h = be_blockhash (hd rbs)) \<and>
    fee_calculator_of c (account_ref st' me) = Some (be_fee_calculator (hd rbs)) \<and>
    ka_lamports st' me = ka_lamports st me \<and>
    advance_nonce_account c st' me rbs signers = Err (of_nonce_error NotExpired)"
proof -
  obtain v where v: "ka_state c st me = Ok v" and rbs: "rbs \<noteq> []"
    using assms(4) by (auto simp: advance_nonce_account_def and_then_Ok_iff split: if_splits)
  obtain data where data: "v = NonceCurrent (Initialized data)"
    using assms(4) v rbs
    by (cases v; cases "nonce_convert_to_current v") (auto simp: advance_nonce_account_def)
  define data' where "data' = data\<lparr>nd_blockhash := be_blockhash (hd rbs), nd_fee_calculator := be_fee_calculator (hd rbs)\<rparr>"
  have ok: "nd_authority data \<in> signers" "nd_blockhash data \<noteq> be_blockhash (hd rbs)"
    and set: "ka_set_state c st me (NonceCurrent (Initialized data')) = Ok st'"
    using assms(4) v data rbs
    by (auto simp: advance_nonce_account_def and_then_Ok_iff index_at_Ok_iff hd_conv_nth nonce_new_current_def
        data'_def split: if_splits)
  have ref: "account_ref st' me = (account_ref st me)\<lparr>acc_data := acc_data (account_ref st' me)\<rparr>"
    and data'': "bincode_deserialize c (acc_data (account_ref st' me)) = Some (NonceCurrent (Initialized data'))"
    using set assms(2) codec
    by (auto simp: ka_set_state_Ok_iff account_ref_set_account)
  have state': "account_state c (account_ref st' me) = Ok (NonceCurrent (Initialized data'))"
    using data'' by (simp add: account_state_def shared_deserialize_data_def)
  have "acc_owner (account_ref st' me) = system_program_id" "ka_lamports st' me = ka_lamports st me"
    using ref assms(3) by (metis account.select_convs(3) account.surjective account.update_convs(2) ka_owner_def,
      metis account.select_convs(1) account.surjective account.update_convs(2) ka_lamports_def)
  moreover have "advance_nonce_account c st' me rbs signers = Err (of_nonce_error NotExpired)"
    using rbs ok(1) state'
    by (simp add: advance_nonce_account_def ka_state_def index_at_def hd_conv_nth data'_def)
  ultimately show ?thesis
    using v data ok state' by (simp add: verify_nonce_account_def fee_calculator_of_def data'_def)
qed

text \<open>
  C28: A nonce account is never left below the rent-exempt reserve. When \<open>withdraw_nonce_account\<close>
  moves lamports of an initialized nonce account to another account, the authority has signed
  and the account is left either with at least the reserve, its state as it was, or empty; it may
  be emptied only when the stored nonce is not the most recent blockhash, and is then marked
  uninitialized. The recipient gains what the account loses.
\<close>

theorem withdraw_nonce_account_reserve:
  assumes "in_store st me" and "in_store st to" and "ka_account me \<noteq> ka_account to"
    and "ka_state c st me = Ok (NonceCurrent (Initialized data))"
    and "withdraw_nonce_account c st me lamports to rbs rent signers = Ok st'"
  shows "nd_authority data \<in> signers \<and>
    unat (ka_lamports st' me) + unat lamports = unat (ka_lamports st me) \<and>
    unat (ka_lamports st' to) = unat (ka_lamports st to) + unat lamports \<and>
    (if ka_lamports st' me = 0
     then be_blockhash (hd rbs) \<noteq> nd_blockhash data \<and>
       take (length (bincode_serialize c (NonceCurrent Uninitialized))) (acc_data (account_ref st' me)) =
         bincode_serialize c (NonceCurrent Uninitialized)
     else minimum_balance rent (ka_data_len st me) \<le> ka_lamports st' me \<and>
       acc_data (account_ref st' me) = acc_data (account_ref st me))"
proof -
  let ?B = "bincode_serialize c (NonceCurrent Uninitialized)"
  obtain s st1 l l' where s: "ka_state c st me = Ok (NonceCurrent s)"
    and check: "withdraw_checked c st me lamports rbs rent signers s st1"
    and l: "checked_sub (ka_lamports st1 me) lamports = Some l"
    and l': "checked_add (ka_lamports (set_lamports st1 me l) to) lamports = Some l'"
    and st': "st' = set_lamports (set_lamports st1 me l) to l'"
    using assms(5) by (rule withdraw_nonce_account_Ok)
  have auth: "nd_authority data \<in> signers"
    and st1: "if lamports = ka_lamports st me
          then nd_blockhash data \<noteq> be_blockhash (hd rbs) \<and> ka_set_state c st me (NonceCurrent Uninitialized) = Ok st1
          else st1 = st \<and> unat lamports + unat (minimum_balance rent (ka_data_len st me)) \<le> unat (ka_lamports st me)"
    using s check assms(4) by (auto split: if_splits)
  define d where "d = (if lamports = ka_lamports st me then ?B @ drop (length ?B) (acc_data (account_ref st me))
      else acc_data (account_ref st me))"
  have r1: "account_ref st1 ka = (if ka_account ka = ka_account me then (account_ref st me)\<lparr>acc_data := d\<rparr>
      else account_ref st ka)" for ka
    using st1 assms(1)
    by (auto simp: ka_set_state_Ok_iff set_account_def in_store_def nth_list_update d_def account_ref_def split: if_splits)
  have len: "length st1 = length st" using st1 by (auto simp: ka_set_state_Ok_iff split: if_splits)
  have in1: "in_store st1 me" "in_store (set_lamports st1 me l) to"
    using assms(1,2) len by (simp_all add: in_store_def set_lamports_def)
  have r2: "account_ref (set_lamports st1 me l) ka = (if ka_account ka = ka_account me
      then (account_ref st me)\<lparr>acc_data := d, acc_lamports := l\<rparr> else account_ref st ka)" for ka
    unfolding set_lamports_def account_ref_set_account [OF in1(1)] by (simp add: r1)
  have r3: "account_ref st' ka = (if ka_account ka = ka_account to
      then (account_ref st to)\<lparr>acc_lamports := l'\<rparr> else account_ref (set_lamports st1 me l) ka)" for ka
    unfolding st' set_lamports_def [of "set_lamports st1 me l"] account_ref_set_account [OF in1(2)]
    using assms(3) by (simp add: r2)
  have me: "account_ref st' me = (account_ref st me)\<lparr>acc_data := d, acc_lamports := l\<rparr>"
    and to: "account_ref st' to = (account_ref st to)\<lparr>acc_lamports := l'\<rparr>"
    using assms(3) by (simp_all add: r3 r2)
  have le: "lamports \<le> ka_lamports st me" and l_eq: "l = ka_lamports st me - lamports"
    using l by (simp_all add: checked_sub_Some_iff ka_lamports_def r1)
  have diff: "unat l + unat lamports = unat (ka_lamports st me)"
    using le l_eq by (simp add: unat_sub word_le_nat_alt)
  have "unat l' = unat (ka_lamports st to) + unat lamports"
    using l' assms(3) by (auto simp: checked_add_Some_iff ka_lamports_def r2)
  moreover have "ka_lamports st' me = l" "ka_lamports st' to = l'" by (simp_all add: ka_lamports_def me to)
  moreover have "l = 0 \<longleftrightarrow> lamports = ka_lamports st me" using l_eq by auto
  moreover have "minimum_balance rent (ka_data_len st me) \<le> l" if "lamports \<noteq> ka_lamports st me"
    using st1 that diff by (simp add: word_le_nat_alt)
  ultimately show ?thesis
    using auth diff st1 me by (auto simp: d_def split: if_splits)
qed

section \<open>Witnesses\<close>

text \<open>A codec that reads back every state: a tag, then the fields as little-endian bytes.\<close>

fun nat_bytes :: "nat \<Rightarrow> nat \<Rightarrow> u8 list" where
  "nat_bytes 0 n = []"
| "nat_bytes (Suc k) n = word_of_nat (n mod 256) # nat_bytes k (n div 256)"

fun bytes_nat :: "u8 list \<Rightarrow> nat" where
  "bytes_nat [] = 0"
| "bytes_nat (b # bs) = unat b + 256 * bytes_nat bs"

lemma length_nat_bytes [simp]: "length (nat_bytes k n) = k"
  by (induction k arbitrary: n) auto

lemma bytes_nat_nat_bytes: "bytes_nat (nat_bytes k n) = n mod 256 ^ k"
proof (induction k arbitrary: n)
  case (Suc k)
  have "unat (word_of_nat (n mod 256) :: u8) = n mod 256" by (simp add: unat_simps)
  then show ?case using Suc by (simp add: mod_mult2_eq)
qed simp

lemma word_bytes_roundtrip:
  "LENGTH('a) = 8 * k \<Longrightarrow> word_of_nat (bytes_nat (nat_bytes k (unat w))) = (w :: 'a::len word)"
  using unat_bound [of w] by (simp add: bytes_nat_nat_bytes power_mult)

definition nonce_codec :: "nonce_versions codec" where
  "nonce_codec =
     \<lparr>bincode_serialize = (\<lambda>v. case nonce_convert_to_current v of
        Uninitialized \<Rightarrow> [0]
      | Initialized data \<Rightarrow> 1 # nat_bytes 32 (unat (nd_authority data)) @ nat_bytes 32 (unat (nd_blockhash data)) @
          nat_bytes 8 (unat (fc_lamports_per_signature (nd_fee_calculator data)))),
      bincode_deserialize = (\<lambda>bs. if bs \<noteq> [] \<and> hd bs = 0 then Some (NonceCurrent Uninitialized)
        else if bs \<noteq> [] \<and> hd bs = 1 \<and> 73 \<le> length bs then
          Some (NonceCurrent (Initialized
            \<lparr>nd_authority = word_of_nat (bytes_nat (take 32 (drop 1 bs))),
             nd_blockhash = word_of_nat (bytes_nat (take 32 (drop 33 bs))),
             nd_fee_calculator = \<lparr>fc_lamports_per_signature = word_of_nat (bytes_nat (take 8 (drop 65 bs)))\<rparr>\<rparr>))
        else None)\<rparr>"

lemma nonce_codec_roundtrip:
  "bincode_deserialize nonce_codec (bincode_serialize nonce_codec v @ rest) = Some v"
proof (cases v)
  case (NonceCurrent s)
  then show ?thesis
    by (cases s) (simp_all add: nonce_codec_def word_bytes_roundtrip)
qed

definition demo_nonce :: nonce_versions where
  "demo_nonce = NonceCurrent (Initialized \<lparr>nd_authority = 5, nd_blockhash = 6, nd_fee_calculator = \<lparr>fc_lamports_per_signature = 7\<rparr>\<rparr>)"

definition demo_nonce_store :: store where
  "demo_nonce_store = [shared_new_data nonce_codec 100 demo_nonce 0, shared_new 3 0 1]"

definition demo_nonce_account :: "nat \<Rightarrow> keyed_account" where
  "demo_nonce_account i = \<lparr>ka_is_signer = False, ka_is_writable = True, ka_key = 9, ka_account = i\<rparr>"

definition demo_blockhashes :: recent_blockhashes where
  "demo_blockhashes = [\<lparr>be_blockhash = 8, be_fee_calculator = \<lparr>fc_lamports_per_signature = 1\<rparr>\<rparr>]"

lemmas demo_nonce_defs = demo_nonce_store_def demo_nonce_account_def demo_blockhashes_def
  in_store_def account_ref_def shared_new_data_def

lemma demo_nonce_state: "ka_state nonce_codec demo_nonce_store (demo_nonce_account 0) = Ok demo_nonce"
  using nonce_codec_roundtrip [of demo_nonce "[]"]
  by (simp add: ka_state_def account_state_def shared_deserialize_data_def demo_nonce_defs)

theorem advance_nonce_account_once_witness:
  "\<exists>st'. advance_nonce_account nonce_codec demo_nonce_store (demo_nonce_account 0) demo_blockhashes {5} = Ok st' \<and>
     verify_nonce_account nonce_codec (account_ref st' (demo_nonce_account 0)) 8 \<and>
     advance_nonce_account nonce_codec st' (demo_nonce_account 0) demo_blockhashes {5} = Err (of_nonce_error NotExpired)"
proof -
  let ?me = "demo_nonce_account 0"
  have in_st: "in_store demo_nonce_store ?me" and owner: "ka_owner demo_nonce_store ?me = system_program_id"
    by (simp_all add: demo_nonce_defs ka_owner_def system_program_id_def pubkey_of_base58_def base58_digit_def)
  have "\<exists>st'. ka_set_state nonce_codec demo_nonce_store ?me (NonceCurrent (Initialized d)) = Ok st'" for d
    by (simp add: ka_set_state_Ok_iff ka_data_len_def demo_nonce_defs nonce_codec_def demo_nonce_def)
  then obtain st' where st': "advance_nonce_account nonce_codec demo_nonce_store ?me demo_blockhashes {5} = Ok st'"
    using demo_nonce_state
    by (auto simp: advance_nonce_account_def demo_blockhashes_def demo_nonce_def index_at_def nonce_new_current_def)
  show ?thesis
    using advance_nonce_account_once [OF nonce_codec_roundtrip in_st owner st'] st'
    by (auto simp: demo_blockhashes_def)
qed

theorem withdraw_nonce_account_reserve_witness:
  "\<exists>st'. withdraw_nonce_account nonce_codec demo_nonce_store (demo_nonce_account 0) 100 (demo_nonce_account 1)
       demo_blockhashes rent_default {5} = Ok st' \<and>
     unat (ka_lamports st' (demo_nonce_account 0)) + unat (100::u64) = unat (ka_lamports demo_nonce_store (demo_nonce_account 0))"
proof -
  let ?me = "demo_nonce_account 0" and ?to = "demo_nonce_account 1"
  have p: "in_store demo_nonce_store ?me" "in_store demo_nonce_store ?to" "ka_account ?me \<noteq> ka_account ?to"
    by (simp_all add: demo_nonce_defs)
  obtain r where r: "withdraw_nonce_account nonce_codec demo_nonce_store ?me 100 ?to demo_blockhashes rent_default {5} = r"
    by blast
  have "map_ok (map acc_lamports) r = Ok [0, 103]" unfolding r [symmetric] by code_simp
  then obtain st' where st': "r = Ok st'" by (auto simp: map_ok_Ok_iff)
  show ?thesis
    using withdraw_nonce_account_reserve [OF p demo_nonce_state [unfolded demo_nonce_def] r [unfolded st']] r st' by blast
qed

end
