(* ===== verification/System_Program.thy ===== *)
theory System_Program
  imports Pubkey_Model Nonce_Model
begin

text \<open>
  The system program (\<open>runtime/src/system_instruction_processor.rs\<close>, the instruction type in
  \<open>sdk/program/src/system_instruction.rs\<close>): creating, allocating, assigning and funding accounts,
  and the nonce instructions. The theorems: lamports are conserved, who has to sign for what, and
  exactly when an account is created and what it then holds.
\<close>

section \<open>Definitions\<close>

datatype system_error =
  SE_AccountAlreadyInUse
| SE_ResultWithNegativeLamports
| SE_InvalidProgramId
| SE_InvalidAccountDataLength
| SE_MaxSeedLengthExceeded
| SE_AddressWithSeedMismatch

fun system_error_code :: "system_error \<Rightarrow> u64" where
  "system_error_code SE_AccountAlreadyInUse = 0"
| "system_error_code SE_ResultWithNegativeLamports = 1"
| "system_error_code SE_InvalidProgramId = 2"
| "system_error_code SE_InvalidAccountDataLength = 3"
| "system_error_code SE_MaxSeedLengthExceeded = 4"
| "system_error_code SE_AddressWithSeedMismatch = 5"

definition of_system_error :: "system_error \<Rightarrow> instruction_error" where
  "of_system_error e = instruction_error_of_u64 (system_error_code e)"

text \<open>
  \<open>create_with_seed(..)?\<close> converts a \<open>PubkeyError\<close> through \<open>ToPrimitive\<close> as well, that is to a custom
  error with its position, not to the instruction error of the same name.
\<close>

definition of_pubkey_error :: "pubkey_error \<Rightarrow> instruction_error" where
  "of_pubkey_error e = instruction_error_of_u64 (pubkey_error_code e)"

definition MAX_PERMITTED_DATA_LENGTH :: u64 where
  "MAX_PERMITTED_DATA_LENGTH = 10 * 1024 * 1024"

datatype system_instruction =
  CreateAccount u64 u64 pubkey
| Assign pubkey
| Transfer u64
| CreateAccountWithSeed pubkey "u8 list" u64 u64 pubkey
| AdvanceNonceAccount
| WithdrawNonceAccount u64
| InitializeNonceAccount pubkey
| AuthorizeNonceAccount pubkey
| Allocate u64
| AllocateWithSeed pubkey "u8 list" u64 pubkey
| AssignWithSeed pubkey "u8 list" pubkey
| TransferWithSeed u64 "u8 list" pubkey

record address =
  addr_address :: pubkey
  addr_base :: "pubkey option"

definition address_is_signer :: "address \<Rightarrow> pubkey set \<Rightarrow> bool" where
  "address_is_signer a signers =
     (case addr_base a of Some base \<Rightarrow> base \<in> signers | None \<Rightarrow> addr_address a \<in> signers)"

definition address_create ::
  "crypto \<Rightarrow> pubkey \<Rightarrow> (pubkey \<times> u8 list \<times> pubkey) option \<Rightarrow> (address, instruction_error) result" where
  "address_create cr addr with_seed =
     and_then
       (case with_seed of
          Some (base, seed, owner) \<Rightarrow>
            and_then (map_err of_pubkey_error (create_with_seed cr base seed owner)) (\<lambda>address_with_seed.
            if addr \<noteq> address_with_seed then Err (of_system_error SE_AddressWithSeedMismatch)
            else Ok (Some base))
        | None \<Rightarrow> Ok None)
       (\<lambda>base. Ok \<lparr>addr_address = addr, addr_base = base\<rparr>)"

definition allocate :: "account \<Rightarrow> address \<Rightarrow> u64 \<Rightarrow> pubkey set \<Rightarrow> (account, instruction_error) result" where
  "allocate a addr space signers =
     (if \<not> address_is_signer addr signers then Err MissingRequiredSignature
      else if acc_data a \<noteq> [] \<or> acc_owner a \<noteq> system_program_id then Err (of_system_error SE_AccountAlreadyInUse)
      else if space > MAX_PERMITTED_DATA_LENGTH then Err (of_system_error SE_InvalidAccountDataLength)
      else Ok (a\<lparr>acc_data := replicate (unat space) 0\<rparr>))"

definition assign ::
  "account \<Rightarrow> address \<Rightarrow> pubkey \<Rightarrow> pubkey set \<Rightarrow> invoke_context \<Rightarrow> (account, instruction_error) result" where
  "assign a addr owner signers ic =
     (if acc_owner a = owner then Ok a
      else if \<not> address_is_signer addr signers then Err MissingRequiredSignature
      else if \<not> ic_feature_active ic Feature_rent_for_sysvars \<and> owner = sysvar_owner_id
      then Err (of_system_error SE_InvalidProgramId)
      else Ok (a\<lparr>acc_owner := owner\<rparr>))"

definition allocate_and_assign ::
  "account \<Rightarrow> address \<Rightarrow> u64 \<Rightarrow> pubkey \<Rightarrow> pubkey set \<Rightarrow> invoke_context \<Rightarrow> (account, instruction_error) result" where
  "allocate_and_assign to to_address space owner signers ic =
     and_then (allocate to to_address space signers) (\<lambda>a. assign a to_address owner signers ic)"

definition transfer_verified ::
  "store \<Rightarrow> keyed_account \<Rightarrow> keyed_account \<Rightarrow> u64 \<Rightarrow> (store, instruction_error) result" where
  "transfer_verified st from to lamports =
     (if \<not> ka_data_is_empty st from then Err InvalidArgument
      else if lamports > ka_lamports st from then Err (of_system_error SE_ResultWithNegativeLamports)
      else and_then (debit st from lamports) (\<lambda>st1. credit st1 to lamports))"

definition transfer ::
  "store \<Rightarrow> keyed_account \<Rightarrow> keyed_account \<Rightarrow> u64 \<Rightarrow> invoke_context \<Rightarrow> (store, instruction_error) result" where
  "transfer st from to lamports ic =
     (if \<not> ic_feature_active ic Feature_system_transfer_zero_check \<and> lamports = 0 then Ok st
      else if signer_key from = None then Err MissingRequiredSignature
      else transfer_verified st from to lamports)"

definition create_account ::
  "store \<Rightarrow> keyed_account \<Rightarrow> keyed_account \<Rightarrow> address \<Rightarrow> u64 \<Rightarrow> u64 \<Rightarrow> pubkey \<Rightarrow> pubkey set \<Rightarrow> invoke_context \<Rightarrow>
   (store, instruction_error) result" where
  "create_account st from to to_address lamports space owner signers ic =
     (if ka_lamports st to > 0 then Err (of_system_error SE_AccountAlreadyInUse)
      else
        and_then (allocate_and_assign (account_ref st to) to_address space owner signers ic) (\<lambda>a.
          transfer (set_account st to a) from to lamports ic))"

definition transfer_with_seed ::
  "crypto \<Rightarrow> store \<Rightarrow> keyed_account \<Rightarrow> keyed_account \<Rightarrow> u8 list \<Rightarrow> pubkey \<Rightarrow> keyed_account \<Rightarrow> u64 \<Rightarrow>
   invoke_context \<Rightarrow> (store, instruction_error) result" where
  "transfer_with_seed cr st from from_base from_seed from_owner to lamports ic =
     (if \<not> ic_feature_active ic Feature_system_transfer_zero_check \<and> lamports = 0 then Ok st
      else if signer_key from_base = None then Err MissingRequiredSignature
      else
        and_then (map_err of_pubkey_error (create_with_seed cr (unsigned_key from_base) from_seed from_owner))
          (\<lambda>address_from_seed.
          if unsigned_key from \<noteq> address_from_seed then Err (of_system_error SE_AddressWithSeedMismatch)
          else transfer_verified st from to lamports))"

record system_codecs =
  sc_crypto :: crypto
  sc_instruction :: "system_instruction codec"
  sc_nonce :: "nonce_versions codec"
  sc_recent_blockhashes :: "recent_blockhashes codec"
  sc_rent :: "rent codec"

definition system_dispatch ::
  "system_codecs \<Rightarrow> invoke_context \<Rightarrow> store \<Rightarrow> pubkey set \<Rightarrow> system_instruction \<Rightarrow>
   (store, instruction_error) result" where
  "system_dispatch sc ic st signers i =
     (let keyed_accounts = ic_keyed_accounts ic;
          ka_at = keyed_account_at_index keyed_accounts;
          recent_blockhashes = from_keyed_account recent_blockhashes_id (sc_recent_blockhashes sc) st;
          rent_sysvar = from_keyed_account rent_id (sc_rent sc) st
      in case i of
        CreateAccount lamports space owner \<Rightarrow>
          and_then (ka_at 0) (\<lambda>from.
          and_then (ka_at 1) (\<lambda>to.
          and_then (address_create (sc_crypto sc) (unsigned_key to) None) (\<lambda>to_address.
            create_account st from to to_address lamports space owner signers ic)))
      | CreateAccountWithSeed base seed lamports space owner \<Rightarrow>
          and_then (ka_at 0) (\<lambda>from.
          and_then (ka_at 1) (\<lambda>to.
          and_then (address_create (sc_crypto sc) (unsigned_key to) (Some (base, seed, owner))) (\<lambda>to_address.
            create_account st from to to_address lamports space owner signers ic)))
      | Assign owner \<Rightarrow>
          and_then (ka_at 0) (\<lambda>ka.
          and_then (address_create (sc_crypto sc) (unsigned_key ka) None) (\<lambda>addr.
          and_then (assign (account_ref st ka) addr owner signers ic) (\<lambda>a.
            Ok (set_account st ka a))))
      | Transfer lamports \<Rightarrow>
          and_then (ka_at 0) (\<lambda>from.
          and_then (ka_at 1) (\<lambda>to.
            transfer st from to lamports ic))
      | TransferWithSeed lamports from_seed from_owner \<Rightarrow>
          and_then (ka_at 0) (\<lambda>from.
          and_then (ka_at 1) (\<lambda>base.
          and_then (ka_at 2) (\<lambda>to.
            transfer_with_seed (sc_crypto sc) st from base from_seed from_owner to lamports ic)))
      | AdvanceNonceAccount \<Rightarrow>
          and_then (ka_at 0) (\<lambda>me.
          and_then (ka_at 1) (\<lambda>ra.
          and_then (recent_blockhashes ra) (\<lambda>rbs.
            advance_nonce_account (sc_nonce sc) st me rbs signers)))
      | WithdrawNonceAccount lamports \<Rightarrow>
          and_then (ka_at 0) (\<lambda>me.
          and_then (ka_at 1) (\<lambda>to.
          and_then (ka_at 2) (\<lambda>ra.
          and_then (recent_blockhashes ra) (\<lambda>rbs.
          and_then (ka_at 3) (\<lambda>rent_account.
          and_then (rent_sysvar rent_account) (\<lambda>r.
            withdraw_nonce_account (sc_nonce sc) st me lamports to rbs r signers))))))
      | InitializeNonceAccount authorized \<Rightarrow>
          and_then (ka_at 0) (\<lambda>me.
          and_then (ka_at 1) (\<lambda>ra.
          and_then (recent_blockhashes ra) (\<lambda>rbs.
          and_then (ka_at 2) (\<lambda>rent_account.
          and_then (rent_sysvar rent_account) (\<lambda>r.
            initialize_nonce_account (sc_nonce sc) st me authorized rbs r)))))
      | AuthorizeNonceAccount nonce_authority \<Rightarrow>
          and_then (ka_at 0) (\<lambda>me.
            authorize_nonce_account (sc_nonce sc) st me nonce_authority signers)
      | Allocate space \<Rightarrow>
          and_then (ka_at 0) (\<lambda>ka.
          and_then (address_create (sc_crypto sc) (unsigned_key ka) None) (\<lambda>addr.
          and_then (allocate (account_ref st ka) addr space signers) (\<lambda>a.
            Ok (set_account st ka a))))
      | AllocateWithSeed base seed space owner \<Rightarrow>
          and_then (ka_at 0) (\<lambda>ka.
          and_then (address_create (sc_crypto sc) (unsigned_key ka) (Some (base, seed, owner))) (\<lambda>addr.
          and_then (allocate_and_assign (account_ref st ka) addr space owner signers ic) (\<lambda>a.
            Ok (set_account st ka a))))
      | AssignWithSeed base seed owner \<Rightarrow>
          and_then (ka_at 0) (\<lambda>ka.
          and_then (address_create (sc_crypto sc) (unsigned_key ka) (Some (base, seed, owner))) (\<lambda>addr.
          and_then (assign (account_ref st ka) addr owner signers ic) (\<lambda>a.
            Ok (set_account st ka a)))))"

definition system_process_instruction ::
  "system_codecs \<Rightarrow> invoke_context \<Rightarrow> store \<Rightarrow> u8 list \<Rightarrow> (store, instruction_error) result" where
  "system_process_instruction sc ic st data =
     and_then (limited_deserialize (sc_instruction sc) data) (\<lambda>i.
       system_dispatch sc ic st (get_signers (ic_keyed_accounts ic)) i)"

datatype system_account_kind = System | Nonce

definition get_system_account_kind :: "nonce_versions codec \<Rightarrow> account \<Rightarrow> system_account_kind option" where
  "get_system_account_kind c a =
     (if acc_owner a = system_program_id then
        if acc_data a = [] then Some System
        else if length (acc_data a) = nonce_state_size c then
          (case account_state c a of
             Ok (NonceCurrent (Initialized _)) \<Rightarrow> Some Nonce
           | _ \<Rightarrow> None)
        else None
      else None)"

section \<open>Conservation\<close>

lemma allocate_Ok_iff [result_simps]:
  "allocate a addr space signers = Ok a' \<longleftrightarrow>
     address_is_signer addr signers \<and> acc_data a = [] \<and> acc_owner a = system_program_id \<and>
     space \<le> MAX_PERMITTED_DATA_LENGTH \<and> a' = a\<lparr>acc_data := replicate (unat space) 0\<rparr>"
  by (auto simp: allocate_def)

lemma assign_Ok_iff [result_simps]:
  "assign a addr owner signers ic = Ok a' \<longleftrightarrow>
     (acc_owner a = owner \<or>
        address_is_signer addr signers \<and> (ic_feature_active ic Feature_rent_for_sysvars \<or> owner \<noteq> sysvar_owner_id)) \<and>
     a' = a\<lparr>acc_owner := owner\<rparr>"
  by (auto simp: assign_def)

lemma allocate_and_assign_Ok_iff [result_simps]:
  "allocate_and_assign a addr space owner signers ic = Ok a' \<longleftrightarrow>
     address_is_signer addr signers \<and> acc_data a = [] \<and> acc_owner a = system_program_id \<and>
     space \<le> MAX_PERMITTED_DATA_LENGTH \<and>
     (owner = system_program_id \<or> ic_feature_active ic Feature_rent_for_sysvars \<or> owner \<noteq> sysvar_owner_id) \<and>
     a' = a\<lparr>acc_data := replicate (unat space) 0, acc_owner := owner\<rparr>"
  by (auto simp: allocate_and_assign_def and_then_Ok_iff allocate_Ok_iff assign_Ok_iff)

lemma conserves_transfer_verified [conserve_intros]:
  "in_store st from \<Longrightarrow> in_store st to \<Longrightarrow> conserves st (transfer_verified st from to lamports)"
  unfolding transfer_verified_def by (intro conserve_intros)

lemma conserves_transfer [conserve_intros]:
  "in_store st from \<Longrightarrow> in_store st to \<Longrightarrow> conserves st (transfer st from to lamports ic)"
  unfolding transfer_def by (intro conserve_intros)

lemma conserves_transfer_with_seed [conserve_intros]:
  "in_store st from \<Longrightarrow> in_store st to \<Longrightarrow> conserves st (transfer_with_seed cr st from base seed owner to lamports ic)"
  unfolding transfer_with_seed_def by (intro conserve_intros)

lemma conserves_create_account [conserve_intros]:
  assumes "in_store st from" and "in_store st to"
  shows "conserves st (create_account st from to addr lamports space owner signers ic)"
  unfolding create_account_def
proof (intro conserves_if conserves_Err conserves_and_then)
  fix a assume a: "allocate_and_assign (account_ref st to) addr space owner signers ic = Ok a"
  have "conserves st (Ok (set_account st to a))"
    using a assms(2) by (intro conserves_set_account) (auto simp: allocate_and_assign_Ok_iff)
  then show "conserves st (transfer (set_account st to a) from to lamports ic)"
    by (rule conserves_trans [OF _ refl]) (use assms in \<open>simp add: conserves_transfer\<close>)
qed

lemma conserves_assign [conserve_intros]:
  "in_store st ka \<Longrightarrow> assign (account_ref st ka) addr owner signers ic = Ok a \<Longrightarrow> conserves st (Ok (set_account st ka a))"
  by (rule conserves_set_account) (auto simp: assign_Ok_iff)

lemma conserves_allocate [conserve_intros]:
  "in_store st ka \<Longrightarrow> allocate (account_ref st ka) addr space signers = Ok a \<Longrightarrow> conserves st (Ok (set_account st ka a))"
  by (rule conserves_set_account) (auto simp: allocate_Ok_iff)

lemma conserves_allocate_and_assign [conserve_intros]:
  "in_store st ka \<Longrightarrow> allocate_and_assign (account_ref st ka) addr space owner signers ic = Ok a \<Longrightarrow>
   conserves st (Ok (set_account st ka a))"
  by (rule conserves_set_account) (auto simp: allocate_and_assign_Ok_iff)

lemma conserves_system_dispatch:
  assumes "accounts_present ic st"
  shows "conserves st (system_dispatch sc ic st signers i)"
  unfolding system_dispatch_def Let_def
  using keyed_account_present [OF assms]
  by (cases i) (simp, intro conserves_and_then;
      (rule conserve_intros conserves_assign conserves_allocate conserves_allocate_and_assign; assumption?)+)+

lemma conserves_system_process_instruction:
  "accounts_present ic st \<Longrightarrow> conserves st (system_process_instruction sc ic st data)"
  unfolding system_process_instruction_def
  by (intro conserves_and_then conserves_system_dispatch)

interpretation system_program: conserving_machine "system_process_instruction sc ic" "accounts_present ic" total_lamports
  for sc ic
proof
  fix st data st'
  assume st: "accounts_present ic st" and ok: "system_process_instruction sc ic st data = Ok st'"
  have "length st' = length st \<and> total_lamports st' = total_lamports st"
    using conserves_system_process_instruction [OF st] ok by (simp add: conserves_def)
  then show "accounts_present ic st'" and "total_lamports st' = total_lamports st"
    using accounts_present_length [OF st] by auto
qed

text \<open>
  C12: The system program conserves lamports: any sequence of instructions that all succeed,
  creations, transfers and nonce withdrawals included, with any accounts, also one account at
  several positions, leaves the sum of the lamports of all accounts as it was.
\<close>

theorem system_program_conserves:
  assumes "accounts_present ic st" and "fold_res (system_process_instruction sc ic) st datas = Ok st'"
  shows "total_lamports st' = total_lamports st"
  using assms by (rule system_program.run_total)

section \<open>Authority\<close>

lemma address_create_None [simp]: "address_create cr k None = Ok \<lparr>addr_address = k, addr_base = None\<rparr>"
  by (simp add: address_create_def)

lemma address_create_Some [result_simps]:
  "address_create cr k (Some (base, seed, owner)) = Ok addr \<longleftrightarrow>
     create_with_seed cr base seed owner = Ok k \<and> addr = \<lparr>addr_address = k, addr_base = Some base\<rparr>"
  by (auto simp: address_create_def result_simps)

lemma address_is_signer_simps [simp]:
  "address_is_signer \<lparr>addr_address = k, addr_base = None\<rparr> signers \<longleftrightarrow> k \<in> signers"
  "address_is_signer \<lparr>addr_address = k, addr_base = Some base\<rparr> signers \<longleftrightarrow> base \<in> signers"
  by (simp_all add: address_is_signer_def)

text \<open>An account that may be taken into use, and a payer that may be charged.\<close>

definition unused :: "store \<Rightarrow> keyed_account \<Rightarrow> bool" where
  "unused st ka \<longleftrightarrow> ka_data_is_empty st ka \<and> ka_owner st ka = system_program_id"

definition payer_signed :: "invoke_context \<Rightarrow> keyed_account \<Rightarrow> u64 \<Rightarrow> bool" where
  "payer_signed ic payer lamports \<longleftrightarrow>
     ka_is_signer payer \<or> lamports = 0 \<and> \<not> ic_feature_active ic Feature_system_transfer_zero_check"

definition nonce_authority_signed :: "nonce_versions codec \<Rightarrow> store \<Rightarrow> keyed_account \<Rightarrow> pubkey set \<Rightarrow> bool" where
  "nonce_authority_signed c st me signers \<longleftrightarrow>
     (\<exists>data. ka_state c st me = Ok (NonceCurrent (Initialized data)) \<and> nd_authority data \<in> signers)"

text \<open>Who has to sign for an instruction, with the accounts it names in order.\<close>

fun system_authority ::
  "system_codecs \<Rightarrow> invoke_context \<Rightarrow> store \<Rightarrow> pubkey set \<Rightarrow> keyed_account list \<Rightarrow> system_instruction \<Rightarrow> bool" where
  "system_authority sc ic st signers kas (CreateAccount lamports space owner) \<longleftrightarrow>
     payer_signed ic (kas ! 0) lamports \<and> unused st (kas ! 1) \<and> ka_lamports st (kas ! 1) = 0 \<and> ka_key (kas ! 1) \<in> signers"
| "system_authority sc ic st signers kas (CreateAccountWithSeed base seed lamports space owner) \<longleftrightarrow>
     payer_signed ic (kas ! 0) lamports \<and> unused st (kas ! 1) \<and> ka_lamports st (kas ! 1) = 0 \<and> base \<in> signers \<and>
     create_with_seed (sc_crypto sc) base seed owner = Ok (ka_key (kas ! 1))"
| "system_authority sc ic st signers kas (Assign owner) \<longleftrightarrow>
     ka_owner st (kas ! 0) = owner \<or> ka_key (kas ! 0) \<in> signers"
| "system_authority sc ic st signers kas (Transfer lamports) \<longleftrightarrow> payer_signed ic (kas ! 0) lamports"
| "system_authority sc ic st signers kas (TransferWithSeed lamports seed owner) \<longleftrightarrow>
     payer_signed ic (kas ! 1) lamports \<and>
     (lamports \<noteq> 0 \<longrightarrow> create_with_seed (sc_crypto sc) (ka_key (kas ! 1)) seed owner = Ok (ka_key (kas ! 0)))"
| "system_authority sc ic st signers kas AdvanceNonceAccount \<longleftrightarrow> nonce_authority_signed (sc_nonce sc) st (kas ! 0) signers"
| "system_authority sc ic st signers kas (WithdrawNonceAccount lamports) \<longleftrightarrow>
     nonce_authority_signed (sc_nonce sc) st (kas ! 0) signers \<or>
     ka_state (sc_nonce sc) st (kas ! 0) = Ok (NonceCurrent Uninitialized) \<and> ka_key (kas ! 0) \<in> signers"
| "system_authority sc ic st signers kas (InitializeNonceAccount _) \<longleftrightarrow>
     ka_state (sc_nonce sc) st (kas ! 0) = Ok (NonceCurrent Uninitialized)"
| "system_authority sc ic st signers kas (AuthorizeNonceAccount _) \<longleftrightarrow>
     nonce_authority_signed (sc_nonce sc) st (kas ! 0) signers"
| "system_authority sc ic st signers kas (Allocate space) \<longleftrightarrow> unused st (kas ! 0) \<and> ka_key (kas ! 0) \<in> signers"
| "system_authority sc ic st signers kas (AllocateWithSeed base seed space owner) \<longleftrightarrow>
     unused st (kas ! 0) \<and> base \<in> signers \<and> create_with_seed (sc_crypto sc) base seed owner = Ok (ka_key (kas ! 0))"
| "system_authority sc ic st signers kas (AssignWithSeed base seed owner) \<longleftrightarrow>
     create_with_seed (sc_crypto sc) base seed owner = Ok (ka_key (kas ! 0)) \<and>
     (ka_owner st (kas ! 0) = owner \<or> base \<in> signers)"

lemma transfer_signed: "transfer st from to lamports ic = Ok st' \<Longrightarrow> payer_signed ic from lamports"
  by (auto simp: transfer_def payer_signed_def signer_key_def split: if_splits)

lemma transfer_with_seed_signed:
  "transfer_with_seed cr st from base seed owner to lamports ic = Ok st' \<Longrightarrow>
   payer_signed ic base lamports \<and> (lamports \<noteq> 0 \<longrightarrow> create_with_seed cr (ka_key base) seed owner = Ok (ka_key from))"
  by (auto simp: transfer_with_seed_def payer_signed_def signer_key_def result_simps split: if_splits)

lemma create_account_signed:
  "create_account st from to addr lamports space owner signers ic = Ok st' \<Longrightarrow>
   payer_signed ic from lamports \<and> unused st to \<and> ka_lamports st to = 0 \<and> address_is_signer addr signers"
  by (auto simp: create_account_def unused_def ka_data_is_empty_def ka_owner_def result_simps word_gt_0
      split: if_splits dest!: transfer_signed)

lemma advance_nonce_signed:
  "advance_nonce_account c st me rbs signers = Ok st' \<Longrightarrow> nonce_authority_signed c st me signers"
proof -
  assume ok: "advance_nonce_account c st me rbs signers = Ok st'"
  then obtain v where "ka_state c st me = Ok v"
    by (auto simp: advance_nonce_account_def and_then_Ok_iff split: if_splits)
  then show ?thesis using ok
    by (cases v; cases "nonce_convert_to_current v")
      (auto simp: advance_nonce_account_def nonce_authority_signed_def split: if_splits)
qed

lemma authorize_nonce_signed:
  "authorize_nonce_account c st me pk signers = Ok st' \<Longrightarrow> nonce_authority_signed c st me signers"
proof -
  assume ok: "authorize_nonce_account c st me pk signers = Ok st'"
  then obtain v where "ka_state c st me = Ok v"
    by (auto simp: authorize_nonce_account_def and_then_Ok_iff)
  then show ?thesis using ok
    by (cases v; cases "nonce_convert_to_current v")
      (auto simp: authorize_nonce_account_def nonce_authority_signed_def split: if_splits)
qed

lemma initialize_nonce_uninitialized:
  "initialize_nonce_account c st me pk rbs rent = Ok st' \<Longrightarrow> ka_state c st me = Ok (NonceCurrent Uninitialized)"
proof -
  assume ok: "initialize_nonce_account c st me pk rbs rent = Ok st'"
  then obtain v where "ka_state c st me = Ok v"
    by (auto simp: initialize_nonce_account_def and_then_Ok_iff split: if_splits)
  then show ?thesis using ok
    by (cases v; cases "nonce_convert_to_current v") (auto simp: initialize_nonce_account_def split: if_splits)
qed

lemma withdraw_nonce_signed:
  assumes "withdraw_nonce_account c st me lamports to rbs rent signers = Ok st'"
  shows "nonce_authority_signed c st me signers \<or>
    ka_state c st me = Ok (NonceCurrent Uninitialized) \<and> ka_key me \<in> signers"
proof -
  from assms obtain s st1 where "ka_state c st me = Ok (NonceCurrent s)"
      "withdraw_checked c st me lamports rbs rent signers s st1"
    by (rule withdraw_nonce_account_Ok)
  then show ?thesis by (cases s) (auto simp: nonce_authority_signed_def)
qed

lemmas system_signed = transfer_signed transfer_with_seed_signed create_account_signed advance_nonce_signed
  authorize_nonce_signed initialize_nonce_uninitialized withdraw_nonce_signed

text \<open>
  C13: The system program changes an account only on the word of its holder. Whenever an instruction
  succeeds, the account it takes into use carries no data and belongs to the system program, and
  its key, or the base key from which its address really derives, has signed; who pays has
  signed, directly or as the base of the paying address; a nonce is advanced, withdrawn from or
  handed over by its authority; and an owner changes only with the signature of the account. The
  exceptions are the ones of the code: a transfer of nothing before the zero check is active,
  assigning to the present owner, and initializing a nonce.
\<close>

theorem system_instruction_authorized:
  assumes "system_dispatch sc ic st signers i = Ok st'"
  shows "system_authority sc ic st signers (ic_keyed_accounts ic) i"
  using assms
  by (cases i)
    (auto simp: system_dispatch_def Let_def and_then_Ok_iff keyed_account_at_index_Ok address_create_Some
      allocate_Ok_iff assign_Ok_iff allocate_and_assign_Ok_iff unused_def ka_data_is_empty_def ka_owner_def
      dest!: system_signed)

section \<open>Creating accounts\<close>

lemma set_account_same: "set_account st ka (account_ref st ka) = st"
  by (simp add: set_account_def account_ref_def)

lemma set_account_twice: "set_account (set_account st ka a) ka b = set_account st ka b"
  by (simp add: set_account_def)

lemma set_account_swap:
  "ka_account ka \<noteq> ka_account kb \<Longrightarrow> set_account (set_account st ka a) kb b = set_account (set_account st kb b) ka a"
  by (simp add: set_account_def list_update_swap)

text \<open>A transfer to another account that is still empty.\<close>

lemma transfer_to_empty_iff:
  assumes "in_store st from" and "in_store st to" and "ka_account from \<noteq> ka_account to" and "ka_lamports st to = 0"
  shows "transfer st from to lamports ic = Ok st' \<longleftrightarrow>
    payer_signed ic from lamports \<and>
    (lamports = 0 \<and> \<not> ic_feature_active ic Feature_system_transfer_zero_check \<or>
       ka_data_is_empty st from \<and> lamports \<le> ka_lamports st from) \<and>
    st' = set_account (set_account st from ((account_ref st from)\<lparr>acc_lamports := ka_lamports st from - lamports\<rparr>))
      to ((account_ref st to)\<lparr>acc_lamports := lamports\<rparr>)"
proof -
  let ?st = "set_account st from ((account_ref st from)\<lparr>acc_lamports := ka_lamports st from - lamports\<rparr>)"
  have to: "account_ref ?st to = account_ref st to" "ka_lamports ?st to = 0"
    using assms by (simp_all add: account_ref_set_account ka_lamports_def)
  have id: "set_account ?st to ((account_ref st to)\<lparr>acc_lamports := lamports\<rparr>) = st" if "lamports = 0"
  proof -
    have "(account_ref st from)\<lparr>acc_lamports := ka_lamports st from - lamports\<rparr> = account_ref st from"
      and "(account_ref st to)\<lparr>acc_lamports := lamports\<rparr> = account_ref st to"
      using that assms(4) by (simp_all add: ka_lamports_def)
    then show ?thesis by (metis set_account_same)
  qed
  have move: "and_then (debit st from lamports) (\<lambda>st1. credit st1 to lamports) = Ok st' \<longleftrightarrow>
      lamports \<le> ka_lamports st from \<and> st' = set_account ?st to ((account_ref st to)\<lparr>acc_lamports := lamports\<rparr>)"
    using to unat_u64_bound [of lamports]
    by (simp add: and_then_Ok_iff debit_Ok_iff credit_Ok_iff)
  show ?thesis
  proof (cases "\<not> ic_feature_active ic Feature_system_transfer_zero_check \<and> lamports = 0")
    case True
    then show ?thesis using id by (auto simp: transfer_def payer_signed_def)
  next
    case False
    then show ?thesis
      using move by (auto simp: transfer_def transfer_verified_def payer_signed_def signer_key_def not_less)
  qed
qed

text \<open>
  C15: Exactly when an account is created and what it then holds. With funding and new account
  distinct, \<open>create_account\<close> succeeds if and only if the new account has no lamports and no data and
  belongs to the system program, its address has signed, the space is at most
  \<open>MAX_PERMITTED_DATA_LENGTH\<close>, the owner is permitted, and the payer has signed, carries no data and
  has the lamports; then the new account holds these lamports, that many zero bytes and that
  owner, the payer has paid them, and every other account is as before.
\<close>

theorem create_account_iff:
  assumes "in_store st from" and "in_store st to" and "ka_account from \<noteq> ka_account to"
  shows "create_account st from to addr lamports space owner signers ic = Ok st' \<longleftrightarrow>
    ka_lamports st to = 0 \<and> unused st to \<and> address_is_signer addr signers \<and> space \<le> MAX_PERMITTED_DATA_LENGTH \<and>
    (owner = system_program_id \<or> ic_feature_active ic Feature_rent_for_sysvars \<or> owner \<noteq> sysvar_owner_id) \<and>
    payer_signed ic from lamports \<and>
    (lamports = 0 \<and> \<not> ic_feature_active ic Feature_system_transfer_zero_check \<or>
       ka_data_is_empty st from \<and> lamports \<le> ka_lamports st from) \<and>
    st' = set_account
      (set_account st from ((account_ref st from)\<lparr>acc_lamports := ka_lamports st from - lamports\<rparr>))
      to ((account_ref st to)\<lparr>acc_data := replicate (unat space) 0, acc_owner := owner, acc_lamports := lamports\<rparr>)"
proof -
  define a where "a = (account_ref st to)\<lparr>acc_data := replicate (unat space) 0, acc_owner := owner\<rparr>"
  define st1 where "st1 = set_account st to a"
  have from1: "account_ref st1 from = account_ref st from" and to1: "account_ref st1 to = a"
    using assms by (simp_all add: st1_def account_ref_set_account)
  have in1: "in_store st1 from" "in_store st1 to" using assms by (simp_all add: st1_def)
  have swap: "set_account (set_account st1 from b) to c = set_account (set_account st from b) to c" for b c
    using assms(3) by (simp add: st1_def set_account_swap [of to "from"] set_account_twice)
  have empty: "ka_lamports st1 to = 0" if "ka_lamports st to = 0"
    using that to1 by (simp add: ka_lamports_def a_def)
  have tr: "transfer st1 from to lamports ic = Ok st' \<longleftrightarrow>
    payer_signed ic from lamports \<and>
    (lamports = 0 \<and> \<not> ic_feature_active ic Feature_system_transfer_zero_check \<or>
       ka_data_is_empty st from \<and> lamports \<le> ka_lamports st from) \<and>
    st' = set_account (set_account st from ((account_ref st from)\<lparr>acc_lamports := ka_lamports st from - lamports\<rparr>))
      to (a\<lparr>acc_lamports := lamports\<rparr>)" if "ka_lamports st to = 0"
    unfolding transfer_to_empty_iff [OF in1 assms(3) empty [OF that]] swap
    by (simp add: from1 to1 ka_data_is_empty_def ka_lamports_def)
  have "create_account st from to addr lamports space owner signers ic = Ok st' \<longleftrightarrow>
      ka_lamports st to = 0 \<and> unused st to \<and> address_is_signer addr signers \<and> space \<le> MAX_PERMITTED_DATA_LENGTH \<and>
      (owner = system_program_id \<or> ic_feature_active ic Feature_rent_for_sysvars \<or> owner \<noteq> sysvar_owner_id) \<and>
      transfer st1 from to lamports ic = Ok st'"
    by (auto simp: create_account_def and_then_Ok_iff allocate_and_assign_Ok_iff unused_def ka_data_is_empty_def
        ka_owner_def word_gt_0 st1_def a_def)
  then show ?thesis using tr by (auto simp: a_def)
qed

section \<open>Witnesses\<close>

definition demo_system_codecs :: system_codecs where
  "demo_system_codecs =
     \<lparr>sc_crypto = const_crypto,
      sc_instruction = \<lparr>bincode_serialize = (\<lambda>_. []), bincode_deserialize = (\<lambda>d.
          if length d = 3 \<and> d ! 0 = 0 then Some (CreateAccount (ucast (d ! 1)) (ucast (d ! 2)) 3)
          else if length d = 2 \<and> d ! 0 = 1 then Some (Transfer (ucast (d ! 1))) else None)\<rparr>,
      sc_nonce = \<lparr>bincode_serialize = (\<lambda>_. []), bincode_deserialize = (\<lambda>_. None)\<rparr>,
      sc_recent_blockhashes = \<lparr>bincode_serialize = (\<lambda>_. []), bincode_deserialize = (\<lambda>_. None)\<rparr>,
      sc_rent = \<lparr>bincode_serialize = (\<lambda>_. []), bincode_deserialize = (\<lambda>_. None)\<rparr>\<rparr>"

definition demo_system_context :: invoke_context where
  "demo_system_context = \<lparr>ic_feature_active = (\<lambda>_. True),
     ic_keyed_accounts = create_keyed_accounts_unified [(True, True, 9, 0), (True, True, 8, 1)],
     ic_sysvar_data = (\<lambda>_. None)\<rparr>"

definition demo_system_store :: store where
  "demo_system_store = [shared_new 100 0 0, shared_new 0 0 0]"

theorem system_program_conserves_witness:
  "\<exists>st'. fold_res (system_process_instruction demo_system_codecs demo_system_context) demo_system_store
       [[0, 30, 0], [1, 20]] = Ok st' \<and> map acc_lamports st' = [50, 50] \<and>
     total_lamports st' = total_lamports demo_system_store"
proof -
  obtain r where r: "fold_res (system_process_instruction demo_system_codecs demo_system_context) demo_system_store
      [[0, 30, 0], [1, 20]] = r" by blast
  have "map_ok (map acc_lamports) r = Ok [50, 50]" unfolding r [symmetric] by code_simp
  then obtain st' where st': "r = Ok st'" "map acc_lamports st' = [50, 50]" by (auto simp: map_ok_Ok_iff)
  have "accounts_present demo_system_context demo_system_store"
    by (simp add: accounts_present_def in_store_def demo_system_context_def demo_system_store_def
        create_keyed_accounts_unified_def)
  from system_program_conserves [OF this r [unfolded st'(1)]] have "total_lamports st' = total_lamports demo_system_store" .
  with r st' show ?thesis by (intro exI [of _ st'] conjI) simp_all
qed

theorem system_instruction_authorized_witness:
  "\<exists>st'. system_dispatch demo_system_codecs demo_system_context demo_system_store {9, 8} (CreateAccount 30 2 3) = Ok st' \<and>
     system_authority demo_system_codecs demo_system_context demo_system_store {9, 8}
       (ic_keyed_accounts demo_system_context) (CreateAccount 30 2 3)"
proof -
  obtain r where r: "system_dispatch demo_system_codecs demo_system_context demo_system_store {9, 8} (CreateAccount 30 2 3) = r"
    by blast
  have "map_ok (map acc_lamports) r = Ok [70, 30]" unfolding r [symmetric] by code_simp
  then obtain st' where st': "r = Ok st'" by (auto simp: map_ok_Ok_iff)
  show ?thesis using system_instruction_authorized [OF r [unfolded st']] r st' by blast
qed

theorem create_account_iff_witness:
  "\<exists>st'. create_account demo_system_store (ic_keyed_accounts demo_system_context ! 0)
       (ic_keyed_accounts demo_system_context ! 1) \<lparr>addr_address = 8, addr_base = None\<rparr> 30 2 3 {8} demo_system_context = Ok st' \<and>
     unused demo_system_store (ic_keyed_accounts demo_system_context ! 1)"
proof -
  let ?from = "ic_keyed_accounts demo_system_context ! 0" and ?to = "ic_keyed_accounts demo_system_context ! 1"
  obtain r where r: "create_account demo_system_store ?from ?to \<lparr>addr_address = 8, addr_base = None\<rparr> 30 2 3 {8}
      demo_system_context = r" by blast
  have "map_ok (map acc_lamports) r = Ok [70, 30]" unfolding r [symmetric] by code_simp
  then obtain st' where st': "r = Ok st'" by (auto simp: map_ok_Ok_iff)
  have p: "in_store demo_system_store ?from" "in_store demo_system_store ?to" "ka_account ?from \<noteq> ka_account ?to"
    by (simp_all add: in_store_def demo_system_context_def demo_system_store_def create_keyed_accounts_unified_def)
  show ?thesis
    using r st' create_account_iff [OF p, of "\<lparr>addr_address = 8, addr_base = None\<rparr>" 30 2 3 "{8}" demo_system_context st']
    by blast
qed

end
