(* ===== verification/Message_Model.thy ===== *)
theory Message_Model
  imports Pubkey_Model Account_Model
begin

text \<open>
  Instructions and messages (\<open>sdk/program/src/instruction.rs\<close>, \<open>sdk/program/src/message.rs\<close>): how
  the instructions of a transaction are compiled to a message with one table of keys, which
  keys of a message sign and may be written, and the checks of an untrusted message. The theorems:
  compiling loses nothing, the privileges of a compiled message are the ones that the
  instructions ask for (with the exception that the code has), and sanitized messages have no
  index out of range.
\<close>

section \<open>Instructions\<close>

record account_meta =
  am_pubkey :: pubkey
  am_is_signer :: bool
  am_is_writable :: bool

definition account_meta_new :: "pubkey \<Rightarrow> bool \<Rightarrow> account_meta" where
  "account_meta_new k signer = \<lparr>am_pubkey = k, am_is_signer = signer, am_is_writable = True\<rparr>"

definition account_meta_new_readonly :: "pubkey \<Rightarrow> bool \<Rightarrow> account_meta" where
  "account_meta_new_readonly k signer = \<lparr>am_pubkey = k, am_is_signer = signer, am_is_writable = False\<rparr>"

record instruction =
  ix_program_id :: pubkey
  ix_accounts :: "account_meta list"
  ix_data :: "u8 list"

definition instruction_new_with_bincode :: "'t codec \<Rightarrow> pubkey \<Rightarrow> 't \<Rightarrow> account_meta list \<Rightarrow> instruction" where
  "instruction_new_with_bincode c program_id data accounts =
     \<lparr>ix_program_id = program_id, ix_accounts = accounts, ix_data = bincode_serialize c data\<rparr>"

definition instruction_new_with_bytes :: "pubkey \<Rightarrow> u8 list \<Rightarrow> account_meta list \<Rightarrow> instruction" where
  "instruction_new_with_bytes program_id data accounts =
     \<lparr>ix_program_id = program_id, ix_accounts = accounts, ix_data = data\<rparr>"

record compiled_instruction =
  ci_program_id_index :: u8
  ci_accounts :: "u8 list"
  ci_data :: "u8 list"

definition compiled_instruction_new :: "'t codec \<Rightarrow> u8 \<Rightarrow> 't \<Rightarrow> u8 list \<Rightarrow> compiled_instruction" where
  "compiled_instruction_new c program_ids_index data accounts =
     \<lparr>ci_program_id_index = program_ids_index, ci_accounts = accounts, ci_data = bincode_serialize c data\<rparr>"

definition ci_program_id :: "compiled_instruction \<Rightarrow> pubkey list \<Rightarrow> (pubkey, 'e) result" where
  "ci_program_id ci program_ids = index_at program_ids (unat (ci_program_id_index ci))"

text \<open>
  \<open>visit_each_account\<close>: the state that the closure \<open>work\<close> changes is passed along. When the closure
  fails, its error \<open>'e\<close> holds what the caller still uses of that state. \<open>before\<close> are the indices of
  the instruction that were passed over already.
\<close>

fun visit_loop ::
  "('s \<Rightarrow> nat \<Rightarrow> nat \<Rightarrow> ('s, 'e) result) \<Rightarrow> u8 list \<Rightarrow> nat \<Rightarrow> 's \<Rightarrow> u8 list \<Rightarrow> ('s, 'e) result" where
  "visit_loop work before unique_index s [] = Ok s"
| "visit_loop work before unique_index s (account_index # rest) =
     (if account_index \<in> set before then visit_loop work (before @ [account_index]) unique_index s rest
      else
        and_then (work s unique_index (unat account_index)) (\<lambda>s'.
          visit_loop work (before @ [account_index]) (unique_index + 1) s' rest))"

definition visit_each_account ::
  "compiled_instruction \<Rightarrow> ('s \<Rightarrow> nat \<Rightarrow> nat \<Rightarrow> ('s, 'e) result) \<Rightarrow> 's \<Rightarrow> ('s, 'e) result" where
  "visit_each_account ci work s = visit_loop work [] 0 s (ci_accounts ci)"

section \<open>Messages\<close>

record message_header =
  mh_num_required_signatures :: u8
  mh_num_readonly_signed_accounts :: u8
  mh_num_readonly_unsigned_accounts :: u8

record message =
  msg_header :: message_header
  msg_account_keys :: "pubkey list"
  msg_recent_blockhash :: hash
  msg_instructions :: "compiled_instruction list"

definition msg_position :: "pubkey list \<Rightarrow> pubkey \<Rightarrow> (u8, 'e) result" where
  "msg_position keys key = and_then (unwrap (position (\<lambda>k. k = key) keys)) (\<lambda>i. Ok (word_of_nat i))"

definition compile_instruction :: "instruction \<Rightarrow> pubkey list \<Rightarrow> (compiled_instruction, 'e) result" where
  "compile_instruction ix keys =
     and_then (map_res (\<lambda>m. msg_position keys (am_pubkey m)) (ix_accounts ix)) (\<lambda>accounts.
     and_then (msg_position keys (ix_program_id ix)) (\<lambda>program_id_index.
       Ok \<lparr>ci_program_id_index = program_id_index, ci_accounts = accounts, ci_data = ix_data ix\<rparr>))"

definition compile_instructions :: "instruction list \<Rightarrow> pubkey list \<Rightarrow> (compiled_instruction list, 'e) result" where
  "compile_instructions ixs keys = map_res (\<lambda>ix. compile_instruction ix keys) ixs"

record instruction_keys =
  ik_signed_keys :: "pubkey list"
  ik_unsigned_keys :: "pubkey list"
  ik_num_readonly_signed_accounts :: u8
  ik_num_readonly_unsigned_accounts :: u8

definition get_program_ids :: "instruction list \<Rightarrow> pubkey list" where
  "get_program_ids ixs = unique (map ix_program_id ixs)"

text \<open>The order of the stable sort: signers first, and writable keys first among each.\<close>

definition meta_rank :: "account_meta \<Rightarrow> nat" where
  "meta_rank m = (if am_is_signer m then 0 else 2) + (if am_is_writable m then 0 else 1)"

text \<open>The loop over \<open>keys_and_signed\<close>: a key that is known already is promoted to writable.\<close>

definition add_meta :: "account_meta list \<Rightarrow> account_meta \<Rightarrow> account_meta list" where
  "add_meta metas m =
     (case position (\<lambda>x. am_pubkey x = am_pubkey m) metas of
        Some i \<Rightarrow> metas[i := (metas ! i)\<lparr>am_is_writable := am_is_writable (metas ! i) \<or> am_is_writable m\<rparr>]
      | None \<Rightarrow> metas @ [m])"

definition instruction_metas :: "instruction list \<Rightarrow> account_meta list" where
  "instruction_metas ixs =
     concat (map ix_accounts ixs) @ map (\<lambda>k. account_meta_new_readonly k False) (get_program_ids ixs)"

definition payer_metas :: "pubkey option \<Rightarrow> account_meta list" where
  "payer_metas payer = (case payer of Some k \<Rightarrow> [account_meta_new k True] | None \<Rightarrow> [])"

definition unique_metas :: "instruction list \<Rightarrow> pubkey option \<Rightarrow> account_meta list" where
  "unique_metas ixs payer = foldl add_meta [] (payer_metas payer @ sort_key meta_rank (instruction_metas ixs))"

text \<open>The counters are \<open>u8\<close> and wrap.\<close>

definition get_keys :: "instruction list \<Rightarrow> pubkey option \<Rightarrow> instruction_keys" where
  "get_keys ixs payer =
     (let metas = unique_metas ixs payer;
          signed = filter am_is_signer metas;
          unsigned = filter (\<lambda>m. \<not> am_is_signer m) metas
      in \<lparr>ik_signed_keys = map am_pubkey signed,
          ik_unsigned_keys = map am_pubkey unsigned,
          ik_num_readonly_signed_accounts = word_of_nat (length (filter (\<lambda>m. \<not> am_is_writable m) signed)),
          ik_num_readonly_unsigned_accounts = word_of_nat (length (filter (\<lambda>m. \<not> am_is_writable m) unsigned))\<rparr>)"

definition new_with_compiled_instructions ::
  "u8 \<Rightarrow> u8 \<Rightarrow> u8 \<Rightarrow> pubkey list \<Rightarrow> hash \<Rightarrow> compiled_instruction list \<Rightarrow> message" where
  "new_with_compiled_instructions num_required_signatures num_readonly_signed num_readonly_unsigned keys blockhash compiled =
     \<lparr>msg_header = \<lparr>mh_num_required_signatures = num_required_signatures,
        mh_num_readonly_signed_accounts = num_readonly_signed,
        mh_num_readonly_unsigned_accounts = num_readonly_unsigned\<rparr>,
      msg_account_keys = keys, msg_recent_blockhash = blockhash, msg_instructions = compiled\<rparr>"

definition message_new :: "instruction list \<Rightarrow> pubkey option \<Rightarrow> (message, 'e) result" where
  "message_new ixs payer =
     (let ik = get_keys ixs payer;
          num_required_signatures = word_of_nat (length (ik_signed_keys ik));
          keys = ik_signed_keys ik @ ik_unsigned_keys ik
      in and_then (compile_instructions ixs keys) (\<lambda>compiled.
           Ok (new_with_compiled_instructions num_required_signatures (ik_num_readonly_signed_accounts ik)
             (ik_num_readonly_unsigned_accounts ik) keys 0 compiled)))"

datatype sanitize_error = IndexOutOfBounds | ValueOutOfBounds | InvalidValue

text \<open>
  \<open>sanitize\<close> of a message. The keys, the blockhash and the compiled instructions have the default
  \<open>sanitize\<close>, which accepts everything.
\<close>

definition sanitize_instruction :: "message \<Rightarrow> compiled_instruction \<Rightarrow> (unit, sanitize_error) result" where
  "sanitize_instruction msg ci =
     (if unat (ci_program_id_index ci) \<ge> length (msg_account_keys msg) then Err IndexOutOfBounds
      else if ci_program_id_index ci = 0 then Err IndexOutOfBounds
      else fold_res (\<lambda>_ ai. if unat ai \<ge> length (msg_account_keys msg) then Err IndexOutOfBounds else Ok ())
        () (ci_accounts ci))"

definition message_sanitize :: "message \<Rightarrow> (unit, sanitize_error) result" where
  "message_sanitize msg =
     (let h = msg_header msg in
      if unat (mh_num_required_signatures h) + unat (mh_num_readonly_unsigned_accounts h) > length (msg_account_keys msg)
      then Err IndexOutOfBounds
      else if mh_num_readonly_signed_accounts h \<ge> mh_num_required_signatures h then Err IndexOutOfBounds
      else fold_res (\<lambda>_ ci. sanitize_instruction msg ci) () (msg_instructions msg))"

definition msg_program_id :: "message \<Rightarrow> nat \<Rightarrow> (pubkey option, 'e) result" where
  "msg_program_id msg instruction_index =
     (case get_at (msg_instructions msg) instruction_index of
        None \<Rightarrow> Ok None
      | Some ci \<Rightarrow> map_ok Some (index_at (msg_account_keys msg) (unat (ci_program_id_index ci))))"

definition msg_program_index :: "message \<Rightarrow> nat \<Rightarrow> nat option" where
  "msg_program_index msg instruction_index =
     map_option (\<lambda>ci. unat (ci_program_id_index ci)) (get_at (msg_instructions msg) instruction_index)"

definition msg_program_ids :: "message \<Rightarrow> (pubkey list, 'e) result" where
  "msg_program_ids msg =
     map_res (\<lambda>ci. index_at (msg_account_keys msg) (unat (ci_program_id_index ci))) (msg_instructions msg)"

definition is_key_passed_to_program :: "message \<Rightarrow> nat \<Rightarrow> bool" where
  "is_key_passed_to_program msg key_index \<longleftrightarrow>
     key_index < 256 \<and> list_ex (\<lambda>ci. word_of_nat key_index \<in> set (ci_accounts ci)) (msg_instructions msg)"

definition is_key_called_as_program :: "message \<Rightarrow> nat \<Rightarrow> bool" where
  "is_key_called_as_program msg key_index \<longleftrightarrow>
     key_index < 256 \<and> list_ex (\<lambda>ci. ci_program_id_index ci = word_of_nat key_index) (msg_instructions msg)"

definition is_non_loader_key :: "message \<Rightarrow> nat \<Rightarrow> bool" where
  "is_non_loader_key msg key_index \<longleftrightarrow>
     \<not> is_key_called_as_program msg key_index \<or> is_key_passed_to_program msg key_index"

definition msg_program_position :: "message \<Rightarrow> nat \<Rightarrow> (nat option, 'e) result" where
  "msg_program_position msg index =
     and_then (msg_program_ids msg) (\<lambda>program_ids.
     if program_ids = [] then Ok None
     else and_then (index_at (msg_account_keys msg) index) (\<lambda>key. Ok (position (\<lambda>k. k = key) program_ids)))"

definition maybe_executable :: "message \<Rightarrow> nat \<Rightarrow> (bool, 'e) result" where
  "maybe_executable msg i = map_ok (\<lambda>p. p \<noteq> None) (msg_program_position msg i)"

text \<open>
  \<open>is_writable\<close>: the subtractions wrap, of \<open>u8\<close> values in the first and of \<open>usize\<close> values in the
  second bound; the key is looked up only when the index is in one of the ranges.
\<close>

definition writable_range :: "message \<Rightarrow> nat \<Rightarrow> bool" where
  "writable_range msg i \<longleftrightarrow>
     (let h = msg_header msg; len = length (msg_account_keys msg);
          readonly = unat (mh_num_readonly_unsigned_accounts h)
      in i < unat (mh_num_required_signatures h - mh_num_readonly_signed_accounts h) \<or>
         unat (mh_num_required_signatures h) \<le> i \<and>
           (if readonly \<le> len then i < len - readonly else i < len + 2 ^ 64 - readonly))"

definition msg_is_writable :: "message \<Rightarrow> nat \<Rightarrow> (bool, 'e) result" where
  "msg_is_writable msg i =
     (if writable_range msg i then
        and_then (index_at (msg_account_keys msg) i) (\<lambda>key.
          Ok (\<not> (is_sysvar_id key \<or> key \<in> set BUILTIN_PROGRAMS_KEYS)))
      else Ok False)"

definition msg_is_signer :: "message \<Rightarrow> nat \<Rightarrow> bool" where
  "msg_is_signer msg i \<longleftrightarrow> i < unat (mh_num_required_signatures (msg_header msg))"

definition get_account_keys_by_lock_type :: "message \<Rightarrow> (pubkey list \<times> pubkey list, 'e) result" where
  "get_account_keys_by_lock_type msg =
     fold_res (\<lambda>(ws, rs) i.
       and_then (msg_is_writable msg i) (\<lambda>w.
       and_then (index_at (msg_account_keys msg) i) (\<lambda>key.
         Ok (if w then (ws @ [key], rs) else (ws, rs @ [key])))))
       ([], []) [0..<length (msg_account_keys msg)]"

definition msg_signer_keys :: "message \<Rightarrow> pubkey list" where
  "msg_signer_keys msg =
     (let last_key = min (length (msg_account_keys msg)) (unat (mh_num_required_signatures (msg_header msg)))
      in take last_key (msg_account_keys msg))"

section \<open>The table of keys\<close>

text \<open>
  The metas of a message in a closed form: the first occurrence of every key, made writable when
  any occurrence is.
\<close>

definition all_metas :: "instruction list \<Rightarrow> pubkey option \<Rightarrow> account_meta list" where
  "all_metas ixs payer = payer_metas payer @ instruction_metas ixs"

definition firsts :: "account_meta list \<Rightarrow> account_meta list" where
  "firsts ms = foldl (\<lambda>fs m. if am_pubkey m \<in> am_pubkey ` set fs then fs else fs @ [m]) [] ms"

definition wants_write :: "account_meta list \<Rightarrow> pubkey \<Rightarrow> bool" where
  "wants_write ms k \<longleftrightarrow> (\<exists>m\<in>set ms. am_pubkey m = k \<and> am_is_writable m)"

definition promote :: "account_meta list \<Rightarrow> account_meta \<Rightarrow> account_meta" where
  "promote ms u = u\<lparr>am_is_writable := wants_write ms (am_pubkey u)\<rparr>"

lemma promote_simps [simp]:
  "am_pubkey (promote ms u) = am_pubkey u" "am_is_signer (promote ms u) = am_is_signer u"
  "am_is_writable (promote ms u) = wants_write ms (am_pubkey u)"
  by (simp_all add: promote_def)

lemma wants_write_snoc [simp]:
  "wants_write (ms @ [m]) k \<longleftrightarrow> wants_write ms k \<or> am_pubkey m = k \<and> am_is_writable m"
  by (auto simp: wants_write_def)

lemma firsts_simps [simp]:
  "firsts [] = []"
  "firsts (ms @ [m]) = (if am_pubkey m \<in> am_pubkey ` set (firsts ms) then firsts ms else firsts ms @ [m])"
  by (simp_all add: firsts_def)

lemma set_firsts: "set (firsts ms) \<subseteq> set ms"
  by (induction ms rule: rev_induct) auto

lemma keys_firsts: "am_pubkey ` set (firsts ms) = am_pubkey ` set ms"
  by (induction ms rule: rev_induct) auto

lemma distinct_firsts: "distinct (map am_pubkey (firsts ms))"
  by (induction ms rule: rev_induct) auto

lemma sorted_wrt_firsts: "sorted_wrt P ms \<Longrightarrow> sorted_wrt P (firsts ms)"
proof (induction ms rule: rev_induct)
  case (snoc m ms)
  then show ?case using set_firsts [of ms] by (auto simp: sorted_wrt_append)
qed simp

lemma firsts_le:
  assumes "sorted_wrt P ms" and "\<And>x. P x x" and "f \<in> set (firsts ms)" and "m \<in> set ms" and "am_pubkey m = am_pubkey f"
  shows "P f m"
  using assms(1,3-)
proof (induction ms rule: rev_induct)
  case Nil
  then show ?case by simp
next
  case (snoc x ms)
  have old: "P f m" if "f \<in> set (firsts ms)" "m \<in> set ms"
    using snoc that by (simp add: sorted_wrt_append)
  have new: "P f x" if "f \<in> set (firsts ms)"
    using snoc.prems(1) that set_firsts [of ms] by (auto simp: sorted_wrt_append)
  show ?case
  proof (cases "f \<in> set (firsts ms)")
    case True
    then show ?thesis using old new snoc.prems(3) by auto
  next
    case False
    then have f: "f = x" "am_pubkey x \<notin> am_pubkey ` set (firsts ms)"
      using snoc.prems(2) by (auto split: if_splits)
    then have "m \<notin> set ms" using snoc.prems(4) keys_firsts [of ms] by (metis image_eqI)
    then have "m = x" using snoc.prems(3) by simp
    then show ?thesis using assms(2) f(1) by simp
  qed
qed

lemma list_update_promote:
  assumes "distinct (map am_pubkey fs)" and "i < length fs" and "am_pubkey (fs ! i) = am_pubkey m"
  shows "(map (promote ms) fs)[i := (promote ms (fs ! i))
           \<lparr>am_is_writable := am_is_writable (promote ms (fs ! i)) \<or> am_is_writable m\<rparr>] =
         map (promote (ms @ [m])) fs"
proof (rule nth_equalityI)
  fix j assume j: "j < length ((map (promote ms) fs)[i := (promote ms (fs ! i))
      \<lparr>am_is_writable := am_is_writable (promote ms (fs ! i)) \<or> am_is_writable m\<rparr>])"
  show "(map (promote ms) fs)[i := (promote ms (fs ! i))
      \<lparr>am_is_writable := am_is_writable (promote ms (fs ! i)) \<or> am_is_writable m\<rparr>] ! j = map (promote (ms @ [m])) fs ! j"
  proof (cases "j = i")
    case True
    then show ?thesis using assms by (simp add: promote_def)
  next
    case False
    then have "am_pubkey (fs ! j) \<noteq> am_pubkey m"
      using assms j by (metis distinct_map inj_onD length_list_update length_map nth_eq_iff_index_eq nth_mem)
    then show ?thesis using False j by (auto simp: promote_def)
  qed
qed simp

lemma map_promote_other:
  assumes "am_pubkey m \<notin> am_pubkey ` set fs"
  shows "map (promote (ms @ [m])) fs = map (promote ms) fs"
proof (rule map_cong [OF refl])
  fix x assume "x \<in> set fs"
  then have "am_pubkey m \<noteq> am_pubkey x" using assms by (metis image_eqI)
  then show "promote (ms @ [m]) x = promote ms x" by (simp add: promote_def)
qed

lemma foldl_add_meta: "foldl add_meta [] ms = map (promote ms) (firsts ms)"
proof (induction ms rule: rev_induct)
  case Nil
  then show ?case by simp
next
  case (snoc m ms)
  let ?us = "map (promote ms) (firsts ms)"
  show ?case
  proof (cases "am_pubkey m \<in> am_pubkey ` set (firsts ms)")
    case True
    then obtain u where "u \<in> set ?us" "am_pubkey u = am_pubkey m" by force
    then obtain i where i: "position (\<lambda>x. am_pubkey x = am_pubkey m) ?us = Some i"
      using position_ex [of u ?us "\<lambda>x. am_pubkey x = am_pubkey m"] by auto
    from position_Some [OF i] have "i < length (firsts ms)" "am_pubkey (firsts ms ! i) = am_pubkey m" by auto
    then show ?thesis
      using snoc i True list_update_promote [OF distinct_firsts, of i ms m ms] by (simp add: add_meta_def)
  next
    case False
    then have "position (\<lambda>x. am_pubkey x = am_pubkey m) ?us = None"
      by (auto simp: position_None) (metis image_eqI)
    moreover have "\<not> wants_write ms (am_pubkey m)"
      using False unfolding keys_firsts wants_write_def by (metis image_eqI)
    then have "promote (ms @ [m]) m = m" by (simp add: promote_def)
    ultimately show ?thesis
      using snoc False map_promote_other [OF False, of ms] by (simp add: add_meta_def)
  qed
qed

text \<open>What \<open>get_keys\<close> computes.\<close>

lemma sorted_wrt_metas:
  "sorted_wrt (\<lambda>a b. meta_rank a \<le> meta_rank b) (payer_metas payer @ sort_key meta_rank (instruction_metas ixs))"
proof -
  have "sorted_wrt (\<lambda>a b. meta_rank a \<le> meta_rank b) (sort_key meta_rank (instruction_metas ixs))"
    using sorted_sort_key [of meta_rank "instruction_metas ixs"] by (simp add: sorted_wrt_map)
  then show ?thesis
    by (cases payer) (simp_all add: payer_metas_def meta_rank_def account_meta_new_def)
qed

text \<open>
  A key that is asked for as a read-only signer and as a writable account without signature has to
  be asked for as a writable signer as well.
\<close>

definition write_promotable :: "account_meta list \<Rightarrow> bool" where
  "write_promotable ms \<longleftrightarrow>
     (\<forall>m\<in>set ms. \<forall>m'\<in>set ms. am_pubkey m = am_pubkey m' \<longrightarrow> am_is_signer m \<longrightarrow> am_is_writable m' \<longrightarrow>
        (\<exists>n\<in>set ms. am_pubkey n = am_pubkey m \<and> am_is_signer n \<and> am_is_writable n))"

definition wants_sign :: "account_meta list \<Rightarrow> pubkey \<Rightarrow> bool" where
  "wants_sign ms k \<longleftrightarrow> (\<exists>m\<in>set ms. am_pubkey m = k \<and> am_is_signer m)"

lemma first_signer:
  assumes "sorted_wrt (\<lambda>a b. meta_rank a \<le> meta_rank b) ms" and "f \<in> set (firsts ms)"
  shows "am_is_signer f \<longleftrightarrow> wants_sign ms (am_pubkey f)"
proof
  show "wants_sign ms (am_pubkey f)" if "am_is_signer f"
    using that assms(2) set_firsts [of ms] by (auto simp: wants_sign_def)
  assume "wants_sign ms (am_pubkey f)"
  then obtain m where m: "m \<in> set ms" "am_pubkey m = am_pubkey f" "am_is_signer m" by (auto simp: wants_sign_def)
  have "meta_rank f \<le> meta_rank m" using firsts_le [OF assms(1) _ assms(2) m(1,2)] by simp
  with m(3) show "am_is_signer f" by (auto simp: meta_rank_def split: if_splits)
qed

lemma first_writable:
  assumes "sorted_wrt (\<lambda>a b. meta_rank a \<le> meta_rank b) ms" and "write_promotable ms" and "f \<in> set (firsts ms)"
  shows "am_is_writable f \<longleftrightarrow> wants_write ms (am_pubkey f)"
proof
  show "wants_write ms (am_pubkey f)" if "am_is_writable f"
    using that assms(3) set_firsts [of ms] by (auto simp: wants_write_def)
  assume "wants_write ms (am_pubkey f)"
  then obtain m where m: "m \<in> set ms" "am_pubkey m = am_pubkey f" "am_is_writable m" by (auto simp: wants_write_def)
  have le: "meta_rank f \<le> meta_rank n" if "n \<in> set ms" "am_pubkey n = am_pubkey f" for n
    using firsts_le [OF assms(1) _ assms(3) that] by simp
  have f: "f \<in> set ms" using assms(3) set_firsts by blast
  show "am_is_writable f"
  proof (rule ccontr)
    assume ro: "\<not> am_is_writable f"
    with le [OF m(1,2)] m(3) have "am_is_signer f" by (auto simp: meta_rank_def split: if_splits)
    then obtain n where n: "n \<in> set ms" "am_pubkey n = am_pubkey f" "am_is_signer n" "am_is_writable n"
      using assms(2) f m unfolding write_promotable_def by metis
    from le [OF n(1,2)] n(3,4) ro show False by (auto simp: meta_rank_def split: if_splits)
  qed
qed

lemma set_all_metas:
  "set (payer_metas payer @ sort_key meta_rank (instruction_metas ixs)) = set (all_metas ixs payer)"
  by (simp add: all_metas_def)

lemma write_promotable_cong: "set ms = set ms' \<Longrightarrow> write_promotable ms = write_promotable ms'"
  by (simp add: write_promotable_def)

lemma wants_cong:
  "set ms = set ms' \<Longrightarrow> wants_write ms k = wants_write ms' k"
  "set ms = set ms' \<Longrightarrow> wants_sign ms k = wants_sign ms' k"
  by (simp_all add: wants_write_def wants_sign_def)

text \<open>The metas of the message: one for each key, with what the key is wanted for.\<close>

lemma unique_metas_facts:
  fixes ixs :: "instruction list" and payer :: "pubkey option"
  defines "us \<equiv> unique_metas ixs payer" and "ms \<equiv> all_metas ixs payer"
  shows "distinct (map am_pubkey us)" and "am_pubkey ` set us = am_pubkey ` set ms"
    and "u \<in> set us \<Longrightarrow> am_is_signer u \<longleftrightarrow> wants_sign ms (am_pubkey u)"
    and "u \<in> set us \<Longrightarrow> am_is_writable u \<longleftrightarrow> wants_write ms (am_pubkey u)"
    and "write_promotable ms \<Longrightarrow> sorted_wrt (\<lambda>a b. meta_rank a \<le> meta_rank b) us"
proof -
  let ?l = "payer_metas payer @ sort_key meta_rank (instruction_metas ixs)"
  have us: "us = map (promote ?l) (firsts ?l)" unfolding us_def unique_metas_def by (rule foldl_add_meta)
  have set_l: "set ?l = set ms" unfolding ms_def by (rule set_all_metas)
  show "distinct (map am_pubkey us)" unfolding us using distinct_firsts [of ?l] by (simp add: comp_def)
  show "am_pubkey ` set us = am_pubkey ` set ms"
    unfolding us using keys_firsts [of ?l] set_l by (auto simp: image_image)
  show "am_is_signer u \<longleftrightarrow> wants_sign ms (am_pubkey u)" if "u \<in> set us"
  proof -
    obtain f where "f \<in> set (firsts ?l)" "u = promote ?l f" using \<open>u \<in> set us\<close> unfolding us by auto
    then show ?thesis using first_signer [OF sorted_wrt_metas] wants_cong(2) [OF set_l] by simp
  qed
  show "am_is_writable u \<longleftrightarrow> wants_write ms (am_pubkey u)" if "u \<in> set us"
  proof -
    obtain f where "u = promote ?l f" using \<open>u \<in> set us\<close> unfolding us by auto
    then show ?thesis using wants_cong(1) [OF set_l] by simp
  qed
  assume wp: "write_promotable ms"
  then have "promote ?l f = f" if "f \<in> set (firsts ?l)" for f
    using first_writable [OF sorted_wrt_metas _ that] write_promotable_cong [OF set_l] by (simp add: promote_def)
  then have "us = firsts ?l" unfolding us by (simp add: map_idI)
  then show "sorted_wrt (\<lambda>a b. meta_rank a \<le> meta_rank b) us"
    using sorted_wrt_firsts [OF sorted_wrt_metas] by simp
qed

text \<open>The keys of the message and how often each kind of key occurs.\<close>

definition message_keys :: "instruction list \<Rightarrow> pubkey option \<Rightarrow> pubkey list" where
  "message_keys ixs payer = ik_signed_keys (get_keys ixs payer) @ ik_unsigned_keys (get_keys ixs payer)"

lemma message_keys_eq:
  "message_keys ixs payer =
     map am_pubkey (filter am_is_signer (unique_metas ixs payer) @ filter (\<lambda>m. \<not> am_is_signer m) (unique_metas ixs payer))"
  by (simp add: message_keys_def get_keys_def Let_def)

lemma set_message_keys: "set (message_keys ixs payer) = am_pubkey ` set (all_metas ixs payer)"
  unfolding message_keys_eq unique_metas_facts(2) [symmetric] by auto

lemma distinct_message_keys: "distinct (message_keys ixs payer)"
proof -
  have inj: "inj_on am_pubkey (set (unique_metas ixs payer))" and "distinct (unique_metas ixs payer)"
    using unique_metas_facts(1) [where ixs = ixs and payer = payer] by (simp_all add: distinct_map)
  then show ?thesis
    unfolding message_keys_eq distinct_map by (auto intro: inj_on_subset [OF inj])
qed

lemma length_message_keys: "length (message_keys ixs payer) = card (am_pubkey ` set (all_metas ixs payer))"
  using distinct_card [OF distinct_message_keys [of ixs payer]] set_message_keys by metis

lemma message_new_eq:
  "message_new ixs payer =
     and_then (compile_instructions ixs (message_keys ixs payer)) (\<lambda>compiled.
       Ok (new_with_compiled_instructions (word_of_nat (length (ik_signed_keys (get_keys ixs payer))))
         (ik_num_readonly_signed_accounts (get_keys ixs payer)) (ik_num_readonly_unsigned_accounts (get_keys ixs payer))
         (message_keys ixs payer) 0 compiled))"
  by (simp add: message_new_def message_keys_def Let_def)

lemma msg_position_Ok:
  assumes "distinct keys" and "length keys \<le> 256" and "k \<in> set keys"
  shows "\<exists>i. msg_position keys k = Ok i \<and> keys ! unat i = k"
proof -
  obtain i where i: "i < length keys" "keys ! i = k" using assms(3) by (auto simp: in_set_conv_nth)
  then have "position (\<lambda>x. x = k) keys = Some i" using position_distinct [OF assms(1) i(1)] by simp
  moreover have "unat (word_of_nat i :: u8) = i" using i(1) assms(2) by (simp add: unat_simps)
  ultimately show ?thesis using i(2) by (simp add: msg_position_def)
qed

definition decompile :: "message \<Rightarrow> compiled_instruction \<Rightarrow> pubkey \<times> pubkey list \<times> u8 list" where
  "decompile msg ci =
     (msg_account_keys msg ! unat (ci_program_id_index ci),
      map (\<lambda>a. msg_account_keys msg ! unat a) (ci_accounts ci), ci_data ci)"

lemma compile_instruction_Ok:
  assumes "distinct keys" and "length keys \<le> 256" and "ix_program_id ix \<in> set keys"
    and "am_pubkey ` set (ix_accounts ix) \<subseteq> set keys"
  shows "\<exists>ci. compile_instruction ix keys = (Ok ci :: (compiled_instruction, 'e) result) \<and>
    keys ! unat (ci_program_id_index ci) = ix_program_id ix \<and>
    map (\<lambda>a. keys ! unat a) (ci_accounts ci) = map am_pubkey (ix_accounts ix) \<and> ci_data ci = ix_data ix"
proof -
  define pos where "pos k = (SOME i. (msg_position keys k :: (u8, 'e) result) = Ok i \<and> keys ! unat i = k)" for k
  have pos: "(msg_position keys k :: (u8, 'e) result) = Ok (pos k) \<and> keys ! unat (pos k) = k" if "k \<in> set keys" for k
    unfolding pos_def by (rule someI_ex) (rule msg_position_Ok [OF assms(1,2) that])
  have "map_res (\<lambda>m. msg_position keys (am_pubkey m) :: (u8, 'e) result) (ix_accounts ix) =
      Ok (map (\<lambda>m. pos (am_pubkey m)) (ix_accounts ix))"
    using pos assms(4) by (intro map_res_Ok) blast
  moreover have "map (\<lambda>a. keys ! unat a) (map (\<lambda>m. pos (am_pubkey m)) (ix_accounts ix)) = map am_pubkey (ix_accounts ix)"
    using pos assms(4) by auto
  ultimately show ?thesis using pos [OF assms(3)] by (simp add: compile_instruction_def)
qed

section \<open>Theorems\<close>

text \<open>
  C25: Compiling a message loses nothing. When the instructions and the payer name at most 256
  keys, \<open>Message::new\<close> succeeds, its table holds exactly these keys without duplicates, and reading
  every compiled instruction back through the table gives the program, the accounts in order
  and the data of the instruction it came from.
\<close>

theorem message_new_roundtrip:
  assumes "card (am_pubkey ` set (all_metas ixs payer)) \<le> 256"
  shows "\<exists>msg. message_new ixs payer = (Ok msg :: (message, 'e) result) \<and>
    distinct (msg_account_keys msg) \<and> set (msg_account_keys msg) = am_pubkey ` set (all_metas ixs payer) \<and>
    map (decompile msg) (msg_instructions msg) =
      map (\<lambda>ix. (ix_program_id ix, map am_pubkey (ix_accounts ix), ix_data ix)) ixs"
proof -
  let ?keys = "message_keys ixs payer"
  let ?ok = "\<lambda>ix ci. (compile_instruction ix ?keys :: (compiled_instruction, 'e) result) = Ok ci \<and>
    ?keys ! unat (ci_program_id_index ci) = ix_program_id ix \<and>
    map (\<lambda>a. ?keys ! unat a) (ci_accounts ci) = map am_pubkey (ix_accounts ix) \<and> ci_data ci = ix_data ix"
  have "\<exists>ci. ?ok ix ci" if "ix \<in> set ixs" for ix
  proof (rule compile_instruction_Ok)
    show "distinct ?keys" by (rule distinct_message_keys)
    show "length ?keys \<le> 256" using assms length_message_keys by metis
    show "ix_program_id ix \<in> set ?keys" and "am_pubkey ` set (ix_accounts ix) \<subseteq> set ?keys"
      using that unfolding set_message_keys all_metas_def instruction_metas_def get_program_ids_def
      by (force simp: account_meta_new_readonly_def)+
  qed
  then obtain g where g: "\<And>ix. ix \<in> set ixs \<Longrightarrow> ?ok ix (g ix)" by metis
  have compiled: "(compile_instructions ixs ?keys :: (_, 'e) result) = Ok (map g ixs)"
    unfolding compile_instructions_def using g by (intro map_res_Ok) blast
  define msg where "msg = new_with_compiled_instructions (word_of_nat (length (ik_signed_keys (get_keys ixs payer))))
         (ik_num_readonly_signed_accounts (get_keys ixs payer)) (ik_num_readonly_unsigned_accounts (get_keys ixs payer))
         ?keys 0 (map g ixs)"
  have "message_new ixs payer = (Ok msg :: (message, 'e) result)"
    by (simp add: message_new_eq compiled msg_def)
  moreover have "msg_account_keys msg = ?keys" "msg_instructions msg = map g ixs"
    by (simp_all add: msg_def new_with_compiled_instructions_def)
  moreover have "map (decompile msg) (map g ixs) =
      map (\<lambda>ix. (ix_program_id ix, map am_pubkey (ix_accounts ix), ix_data ix)) ixs"
    using g by (simp add: decompile_def \<open>msg_account_keys msg = ?keys\<close>)
  ultimately show ?thesis using distinct_message_keys set_message_keys by metis
qed

text \<open>A list in which the elements that satisfy \<open>W\<close> come first.\<close>

lemma nth_filter_first:
  "sorted_wrt (\<lambda>a b. W b \<longrightarrow> W a) xs \<Longrightarrow> i < length xs \<Longrightarrow> W (xs ! i) \<longleftrightarrow> i < length (filter W xs)"
proof (induction xs arbitrary: i)
  case (Cons x xs)
  show ?case
  proof (cases "W x")
    case True
    then show ?thesis using Cons by (cases i) auto
  next
    case False
    then have "filter W (x # xs) = []" using Cons.prems(1) by auto
    moreover have "\<not> W ((x # xs) ! i)" using False Cons.prems by (cases i) auto
    ultimately show ?thesis by simp
  qed
qed simp

lemma writable_range_iff:
  assumes "msg_header msg = \<lparr>mh_num_required_signatures = ns, mh_num_readonly_signed_accounts = ros,
      mh_num_readonly_unsigned_accounts = rou\<rparr>"
    and "unat ros \<le> unat ns" and "unat rou \<le> length (msg_account_keys msg)"
  shows "writable_range msg j \<longleftrightarrow>
    j < unat ns - unat ros \<or> unat ns \<le> j \<and> j < length (msg_account_keys msg) - unat rou"
proof -
  have "unat (ns - ros) = unat ns - unat ros" using assms(2) by (intro unat_sub_le) (simp add: word_le_nat_alt)
  then show ?thesis using assms(1,3) by (simp add: writable_range_def Let_def)
qed

lemma length_filter_W: "length (filter W xs) = length xs - length (filter (\<lambda>x. \<not> W x) xs)"
  using sum_length_filter_compl [of W xs] by simp

lemma new_privileges:
  assumes "card (am_pubkey ` set (all_metas ixs payer)) \<le> 255" and "write_promotable (all_metas ixs payer)"
    and "message_new ixs payer = Ok msg" and "i < length (msg_account_keys msg)"
  shows "(msg_is_signer msg i \<longleftrightarrow> wants_sign (all_metas ixs payer) (msg_account_keys msg ! i)) \<and>
    (writable_range msg i \<longleftrightarrow> wants_write (all_metas ixs payer) (msg_account_keys msg ! i)) \<and>
    msg_is_writable msg i = (Ok (wants_write (all_metas ixs payer) (msg_account_keys msg ! i) \<and>
      \<not> is_sysvar_id (msg_account_keys msg ! i) \<and> msg_account_keys msg ! i \<notin> set BUILTIN_PROGRAMS_KEYS) :: (bool, 'e) result)"
proof -
  let ?ms = "all_metas ixs payer"
  define us where "us = unique_metas ixs payer"
  define S where "S = filter am_is_signer us"
  define U where "U = filter (\<lambda>m. \<not> am_is_signer m) us"
  let ?ro = "\<lambda>l. length (filter (\<lambda>m. \<not> am_is_writable m) l)"
  have keys: "msg_account_keys msg = map am_pubkey (S @ U)"
    and h: "msg_header msg = \<lparr>mh_num_required_signatures = word_of_nat (length S),
      mh_num_readonly_signed_accounts = word_of_nat (?ro S), mh_num_readonly_unsigned_accounts = word_of_nat (?ro U)\<rparr>"
    using assms(3) by (auto simp: message_new_eq message_keys_eq and_then_Ok_iff new_with_compiled_instructions_def
        get_keys_def Let_def S_def U_def us_def)
  have len: "length S + length U \<le> 255"
    using assms(1) length_message_keys [of ixs payer] by (simp add: message_keys_eq S_def U_def us_def)
  have ro: "?ro S \<le> length S" "?ro U \<le> length U" by simp_all
  have small: "n \<le> 255 \<Longrightarrow> unat (word_of_nat n :: u8) = n" for n by (simp add: unat_simps)
  have unats: "unat (word_of_nat (length S) :: u8) = length S" "unat (word_of_nat (?ro S) :: u8) = ?ro S"
      "unat (word_of_nat (?ro U) :: u8) = ?ro U"
    by (rule small, use len ro in linarith)+
  have fw: "length (filter am_is_writable l) = length l - ?ro l" for l by (rule length_filter_W)
  have "writable_range msg j \<longleftrightarrow> j < length S - ?ro S \<or> length S \<le> j \<and> j < length (msg_account_keys msg) - ?ro U" for j
  proof -
    have "?ro U \<le> length (msg_account_keys msg)" using ro by (simp only: keys length_map length_append)
    then show ?thesis using writable_range_iff [OF h, of j] ro(1) by (simp only: unats)
  qed
  then have range: "writable_range msg j \<longleftrightarrow>
      j < length (filter am_is_writable S) \<or> length S \<le> j \<and> j < length S + length (filter am_is_writable U)" for j
    unfolding fw keys length_map length_append using ro by (auto simp del: length_filter_le)
  have sorted: "sorted_wrt (\<lambda>a b. meta_rank a \<le> meta_rank b) us"
    unfolding us_def using assms(2) by (rule unique_metas_facts(5))
  have W: "sorted_wrt (\<lambda>a b. am_is_writable b \<longrightarrow> am_is_writable a) S" "sorted_wrt (\<lambda>a b. am_is_writable b \<longrightarrow> am_is_writable a) U"
    using sorted_wrt_filter [OF sorted] unfolding S_def U_def
    by (rule sorted_wrt_mono_rel [rotated], auto simp: meta_rank_def split: if_splits)+
  define m where "m = (S @ U) ! i"
  have i: "i < length (S @ U)" and key: "msg_account_keys msg ! i = am_pubkey m"
    using assms(4) by (simp_all add: keys m_def del: map_append)
  then have "m \<in> set (S @ U)" unfolding m_def using nth_mem by blast
  then have m: "m \<in> set us" by (auto simp: S_def U_def)
  have side: "am_is_signer m \<longleftrightarrow> i < length S"
    using i nth_mem [of i S] nth_mem [of "i - length S" U] by (auto simp: m_def nth_append S_def U_def)
  have sign: "msg_is_signer msg i \<longleftrightarrow> wants_sign ?ms (am_pubkey m)"
    using side unats(1) unique_metas_facts(3) [OF m [unfolded us_def]] by (simp add: msg_is_signer_def h)
  have "am_is_writable m \<longleftrightarrow> writable_range msg i"
  proof (cases "i < length S")
    case True
    then show ?thesis using nth_filter_first [OF W(1) True] by (simp add: range m_def nth_append)
  next
    case False
    then have "\<not> i < length (filter am_is_writable S)" using length_filter_le [of am_is_writable S] by linarith
    moreover have "i - length S < length U" using i False by simp
    ultimately show ?thesis using nth_filter_first [OF W(2)] False by (auto simp: range m_def nth_append)
  qed
  then have wr: "writable_range msg i \<longleftrightarrow> wants_write ?ms (am_pubkey m)"
    using unique_metas_facts(4) [OF m [unfolded us_def]] by simp
  show ?thesis
    using sign wr assms(4) by (auto simp: key msg_is_writable_def index_at_def)
qed

text \<open>
  C14: A compiled message asks for the privileges of its instructions, no more and no less. With at
  most 255 keys, a key of the message is a signer exactly when it is the payer or some account
  entry of an instruction asks for its signature, and it is in the writable ranges exactly when it
  is the payer or some entry asks to write it; \<open>is_writable\<close> then only takes out sysvars and builtin
  programs. This needs that no key is asked for as a read-only signer and as a writable
  non-signer without being asked for as a writable signer.
\<close>

theorem message_new_privileges:
  assumes "card (am_pubkey ` set (all_metas ixs payer)) \<le> 255" and "write_promotable (all_metas ixs payer)"
    and "message_new ixs payer = Ok msg" and "i < length (msg_account_keys msg)"
  shows "(msg_is_signer msg i \<longleftrightarrow> wants_sign (all_metas ixs payer) (msg_account_keys msg ! i)) \<and>
    (writable_range msg i \<longleftrightarrow> wants_write (all_metas ixs payer) (msg_account_keys msg ! i)) \<and>
    msg_is_writable msg i = (Ok (wants_write (all_metas ixs payer) (msg_account_keys msg ! i) \<and>
      \<not> is_sysvar_id (msg_account_keys msg ! i) \<and> msg_account_keys msg ! i \<notin> set BUILTIN_PROGRAMS_KEYS) :: (bool, 'e) result)"
  by (rule new_privileges [OF assms])

text \<open>
  Without the condition the privileges are mixed up. A key that is a read-only signer and, in
  another entry, a writable non-signer is promoted to writable where it stands, behind the other
  read-only signers; the header then gives the write privilege to the key before it.
\<close>

definition swapped_instruction :: instruction where
  "swapped_instruction = \<lparr>ix_program_id = 30,
     ix_accounts = [account_meta_new_readonly 10 True, account_meta_new_readonly 20 True, account_meta_new 20 False],
     ix_data = []\<rparr>"

lemma message_new_swaps_privileges:
  "\<exists>msg. message_new [swapped_instruction] None = (Ok msg :: (message, unit) result) \<and>
     msg_account_keys msg = [10, 20, 30] \<and>
     msg_is_writable msg 0 = (Ok True :: (bool, unit) result) \<and> msg_is_writable msg 1 = (Ok False :: (bool, unit) result) \<and>
     \<not> wants_write (all_metas [swapped_instruction] None) 10 \<and> wants_write (all_metas [swapped_instruction] None) 20"
proof -
  define msg where "msg = \<lparr>msg_header = \<lparr>mh_num_required_signatures = 2, mh_num_readonly_signed_accounts = 1,
      mh_num_readonly_unsigned_accounts = 1\<rparr>, msg_account_keys = [10, 20, 30], msg_recent_blockhash = 0,
      msg_instructions = [\<lparr>ci_program_id_index = 2, ci_accounts = [0, 1, 1], ci_data = []\<rparr>]\<rparr>"
  have "message_new [swapped_instruction] None = (Ok msg :: (message, unit) result)"
    unfolding msg_def by code_simp
  moreover have "msg_is_writable msg 0 = (Ok True :: (bool, unit) result)"
    using small_not_reserved [of "10 :: pubkey"]
    by (simp add: msg_is_writable_def msg_def writable_range_def index_at_def)
  moreover have "msg_is_writable msg 1 = (Ok False :: (bool, unit) result)"
    by (simp add: msg_is_writable_def msg_def writable_range_def)
  moreover have "\<not> wants_write (all_metas [swapped_instruction] None) 10" "wants_write (all_metas [swapped_instruction] None) 20"
    by (simp_all add: wants_write_def all_metas_def payer_metas_def instruction_metas_def get_program_ids_def
        swapped_instruction_def account_meta_new_readonly_def account_meta_new_def)
  ultimately show ?thesis by (intro exI [of _ msg]) (simp add: msg_def)
qed

text \<open>
  C26: A sanitized message cannot make the runtime index out of range: its program and account
  indices point into the table of keys, a program is never the fee payer, the payer (the first key)
  signs and is in the writable range, every \<open>is_writable\<close> lookup of a key returns, and no
  subtraction of the header fields wraps.
\<close>

theorem message_sanitize_safe:
  assumes "message_sanitize msg = Ok u"
  shows "(\<forall>ci\<in>set (msg_instructions msg). 0 < unat (ci_program_id_index ci) \<and>
      unat (ci_program_id_index ci) < length (msg_account_keys msg) \<and>
      (\<forall>a\<in>set (ci_accounts ci). unat a < length (msg_account_keys msg))) \<and>
    msg_is_signer msg 0 \<and> writable_range msg 0 \<and> 0 < length (msg_account_keys msg) \<and>
    (\<forall>i<length (msg_account_keys msg). msg_is_writable msg i \<noteq> (Panic :: (bool, 'e) result)) \<and>
    mh_num_readonly_signed_accounts (msg_header msg) < mh_num_required_signatures (msg_header msg) \<and>
    unat (mh_num_readonly_unsigned_accounts (msg_header msg)) \<le> length (msg_account_keys msg)"
proof -
  have fold_unit: "fold_res (\<lambda>_ x. f x) () xs = Ok u \<Longrightarrow> x \<in> set xs \<Longrightarrow> f x = Ok ()"
    for f :: "'x \<Rightarrow> (unit, sanitize_error) result" and xs x u
    by (induction xs) (auto simp: and_then_Ok_iff)
  define h where "h = msg_header msg"
  have h: "unat (mh_num_required_signatures h) + unat (mh_num_readonly_unsigned_accounts h) \<le> length (msg_account_keys msg)"
      "mh_num_readonly_signed_accounts h < mh_num_required_signatures h"
    and ok: "\<And>ci. ci \<in> set (msg_instructions msg) \<Longrightarrow> sanitize_instruction msg ci = Ok ()"
    using assms by (auto simp: message_sanitize_def Let_def h_def split: if_splits dest: fold_unit)
  have "0 < unat (ci_program_id_index ci) \<and> unat (ci_program_id_index ci) < length (msg_account_keys msg) \<and>
      (\<forall>a\<in>set (ci_accounts ci). unat a < length (msg_account_keys msg))" if "ci \<in> set (msg_instructions msg)" for ci
    using ok [OF that] by (auto simp: sanitize_instruction_def unat_gt_0 dest!: fold_unit split: if_splits)
  moreover have "msg_is_writable msg i \<noteq> (Panic :: (bool, 'e) result)" if "i < length (msg_account_keys msg)" for i
    using that by (simp add: msg_is_writable_def index_at_def)
  moreover have req: "0 < unat (mh_num_required_signatures h)"
    using h(2) by (simp add: word_less_nat_alt)
  moreover have "0 < unat (mh_num_required_signatures h - mh_num_readonly_signed_accounts h)"
    using h(2) by (simp add: unat_sub_le order.strict_implies_order word_less_nat_alt)
  then have "writable_range msg 0" by (simp add: writable_range_def Let_def h_def)
  ultimately show ?thesis using h by (auto simp: msg_is_signer_def h_def)
qed

section \<open>Witnesses\<close>

definition demo_instruction :: instruction where
  "demo_instruction = \<lparr>ix_program_id = 30, ix_accounts = [account_meta_new 20 False, account_meta_new_readonly 10 True],
     ix_data = [7]\<rparr>"

lemma demo_metas:
  "all_metas [demo_instruction] (Some 5) =
     [account_meta_new 5 True, account_meta_new 20 False, account_meta_new_readonly 10 True, account_meta_new_readonly 30 False]"
  by (simp add: all_metas_def payer_metas_def instruction_metas_def get_program_ids_def demo_instruction_def)

lemma demo_metas_facts:
  "card (am_pubkey ` set (all_metas [demo_instruction] (Some 5))) \<le> 255"
  "write_promotable (all_metas [demo_instruction] (Some 5))"
  by (simp_all add: demo_metas card_insert_if write_promotable_def account_meta_new_def account_meta_new_readonly_def)

theorem message_new_roundtrip_witness:
  "\<exists>msg. message_new [demo_instruction] (Some 5) = (Ok msg :: (message, unit) result) \<and>
     map (decompile msg) (msg_instructions msg) = [(30, [20, 10], [7])]"
  using message_new_roundtrip [where ixs = "[demo_instruction]" and payer = "Some 5" and 'e = unit] demo_metas_facts(1)
  by (auto simp: demo_instruction_def account_meta_new_def account_meta_new_readonly_def)

definition demo_message :: message where
  "demo_message = \<lparr>msg_header = \<lparr>mh_num_required_signatures = 2, mh_num_readonly_signed_accounts = 1,
      mh_num_readonly_unsigned_accounts = 1\<rparr>, msg_account_keys = [5, 10, 20, 30], msg_recent_blockhash = 0,
      msg_instructions = [\<lparr>ci_program_id_index = 3, ci_accounts = [2, 1], ci_data = [7]\<rparr>]\<rparr>"

theorem message_new_privileges_witness:
  "message_new [demo_instruction] (Some 5) = (Ok demo_message :: (message, unit) result) \<and>
     (msg_is_signer demo_message 1 \<longleftrightarrow> wants_sign (all_metas [demo_instruction] (Some 5)) 10) \<and>
     (writable_range demo_message 1 \<longleftrightarrow> wants_write (all_metas [demo_instruction] (Some 5)) 10)"
proof -
  have new: "message_new [demo_instruction] (Some 5) = (Ok demo_message :: (message, unit) result)" by code_simp
  have "1 < length (msg_account_keys demo_message)" "msg_account_keys demo_message ! 1 = 10"
    by (simp_all add: demo_message_def)
  then show ?thesis using new message_new_privileges [OF demo_metas_facts new] by metis
qed

theorem message_sanitize_safe_witness:
  "message_sanitize demo_message = Ok () \<and> msg_is_signer demo_message 0 \<and> writable_range demo_message 0"
proof -
  have "message_sanitize demo_message = Ok ()" by code_simp
  then show ?thesis using message_sanitize_safe by blast
qed

end
