(* ===== verification/Instruction_Bytes.thy ===== *)
theory Instruction_Bytes
  imports Message_Model
begin

text \<open>
  The instructions sysvar (\<open>sdk/program/src/sysvar/instructions.rs\<close>): the instructions of a message
  as bytes, written by \<open>serialize_instructions\<close> and read by \<open>deserialize_instruction\<close>
  (\<open>sdk/program/src/message.rs\<close>) with the readers and writers of
  \<open>sdk/program/src/serialize_utils.rs\<close>. A program that inspects the sysvar sees the instructions of
  the transaction.
\<close>

section \<open>Readers and writers\<close>

definition u16_to_le_bytes :: "u16 \<Rightarrow> u8 list" where
  "u16_to_le_bytes w = [ucast w, ucast (drop_bit 8 w)]"

fun u16_from_le_bytes :: "u8 list \<Rightarrow> u16" where
  "u16_from_le_bytes [a, b] = push_bit 8 (ucast b) + ucast a"
| "u16_from_le_bytes _ = 0"

text \<open>\<open>Pubkey::new\<close> on 32 bytes.\<close>

definition pubkey_new :: "u8 list \<Rightarrow> pubkey" where
  "pubkey_new bs = foldl (\<lambda>k b. push_bit 8 k + ucast b) 0 bs"

definition append_u16 :: "u8 list \<Rightarrow> u16 \<Rightarrow> u8 list" where
  "append_u16 buf data = buf @ u16_to_le_bytes data"

definition append_u8 :: "u8 list \<Rightarrow> u8 \<Rightarrow> u8 list" where
  "append_u8 buf data = buf @ [data]"

definition append_slice :: "u8 list \<Rightarrow> u8 list \<Rightarrow> u8 list" where
  "append_slice buf data = buf @ data"

text \<open>The readers advance the cursor.\<close>

definition read_u8 :: "nat \<Rightarrow> u8 list \<Rightarrow> (u8 \<times> nat, sanitize_error) result" where
  "read_u8 current data =
     (if length data < current + 1 then Err IndexOutOfBounds else Ok (data ! current, current + 1))"

definition read_pubkey :: "nat \<Rightarrow> u8 list \<Rightarrow> (pubkey \<times> nat, sanitize_error) result" where
  "read_pubkey current data =
     (if length data < current + 32 then Err IndexOutOfBounds
      else Ok (pubkey_new (take 32 (drop current data)), current + 32))"

definition read_u16 :: "nat \<Rightarrow> u8 list \<Rightarrow> (u16 \<times> nat, sanitize_error) result" where
  "read_u16 current data =
     (if length data < current + 2 then Err IndexOutOfBounds
      else Ok (u16_from_le_bytes (take 2 (drop current data)), current + 2))"

definition read_slice :: "nat \<Rightarrow> u8 list \<Rightarrow> nat \<Rightarrow> (u8 list \<times> nat, sanitize_error) result" where
  "read_slice current data data_len =
     (if length data < current + data_len then Err IndexOutOfBounds
      else Ok (take data_len (drop current data), current + data_len))"

text \<open>\<open>copy_from_slice\<close> into a range of the buffer, which panics when the range is not there.\<close>

definition copy_into :: "u8 list \<Rightarrow> nat \<Rightarrow> u8 list \<Rightarrow> (u8 list, 'e) result" where
  "copy_into buf start bytes =
     (if start + length bytes \<le> length buf
      then Ok (take start buf @ bytes @ drop (start + length bytes) buf) else Panic)"

section \<open>The sysvar\<close>

definition IS_SIGNER_BIT :: nat where "IS_SIGNER_BIT = 0"

definition IS_WRITABLE_BIT :: nat where "IS_WRITABLE_BIT = 1"

definition meta_byte :: "bool \<Rightarrow> bool \<Rightarrow> u8" where
  "meta_byte is_signer is_writable =
     (let b = if is_signer then push_bit IS_SIGNER_BIT 1 else 0
      in if is_writable then or b (push_bit IS_WRITABLE_BIT 1) else b)"

definition serialize_account :: "message \<Rightarrow> u8 list \<Rightarrow> u8 \<Rightarrow> (u8 list, 'e) result" where
  "serialize_account msg data account_index =
     and_then (msg_is_writable msg (unat account_index)) (\<lambda>is_writable.
     and_then (index_at (msg_account_keys msg) (unat account_index)) (\<lambda>key.
       Ok (append_slice (append_u8 data (meta_byte (msg_is_signer msg (unat account_index)) is_writable))
         (pubkey_bytes key))))"

definition serialize_instruction :: "message \<Rightarrow> u8 list \<Rightarrow> nat \<times> compiled_instruction \<Rightarrow> (u8 list, 'e) result" where
  "serialize_instruction msg data = (\<lambda>(i, ci).
     and_then (copy_into data (2 + 2 * i) (u16_to_le_bytes (word_of_nat (length data)))) (\<lambda>data.
     and_then (fold_res (serialize_account msg) (append_u16 data (word_of_nat (length (ci_accounts ci)))) (ci_accounts ci))
       (\<lambda>data.
     and_then (index_at (msg_account_keys msg) (unat (ci_program_id_index ci))) (\<lambda>program_id.
       Ok (append_slice (append_u16 (append_slice data (pubkey_bytes program_id)) (word_of_nat (length (ci_data ci))))
         (ci_data ci))))))"

definition serialize_instructions :: "message \<Rightarrow> (u8 list, 'e) result" where
  "serialize_instructions msg =
     (let n = length (msg_instructions msg);
          table = foldl (\<lambda>data _. append_u16 data 0) (append_u16 [] (word_of_nat n)) [0..<n]
      in fold_res (serialize_instruction msg) table (List.enumerate 0 (msg_instructions msg)))"

fun read_accounts :: "nat \<Rightarrow> nat \<Rightarrow> u8 list \<Rightarrow> (account_meta list \<times> nat, sanitize_error) result" where
  "read_accounts 0 current data = Ok ([], current)"
| "read_accounts (Suc n) current data =
     and_then (read_u8 current data) (\<lambda>(b, current).
     and_then (read_pubkey current data) (\<lambda>(k, current).
     and_then (read_accounts n current data) (\<lambda>(accounts, current).
       Ok (\<lparr>am_pubkey = k, am_is_signer = bit b IS_SIGNER_BIT, am_is_writable = bit b IS_WRITABLE_BIT\<rparr> # accounts,
           current))))"

definition deserialize_instruction :: "nat \<Rightarrow> u8 list \<Rightarrow> (instruction, sanitize_error) result" where
  "deserialize_instruction index data =
     and_then (read_u16 0 data) (\<lambda>(num_instructions, current).
     if index \<ge> unat num_instructions then Err IndexOutOfBounds
     else
       and_then (read_u16 (current + index * 2) data) (\<lambda>(start, _).
       and_then (read_u16 (unat start) data) (\<lambda>(num_accounts, current).
       and_then (read_accounts (unat num_accounts) current data) (\<lambda>(accounts, current).
       and_then (read_pubkey current data) (\<lambda>(program_id, current).
       and_then (read_u16 current data) (\<lambda>(data_len, current).
       and_then (read_slice current data (unat data_len)) (\<lambda>(bytes, _).
         Ok \<lparr>ix_program_id = program_id, ix_accounts = accounts, ix_data = bytes\<rparr>)))))))"

text \<open>The last two bytes of the sysvar hold the index of the instruction that is executed.\<close>

definition load_current_index :: "u8 list \<Rightarrow> (u16, 'e) result" where
  "load_current_index data =
     (if length data < 2 then Panic else Ok (u16_from_le_bytes (drop (length data - 2) data)))"

definition store_current_index :: "u8 list \<Rightarrow> u16 \<Rightarrow> (u8 list, 'e) result" where
  "store_current_index data instruction_index =
     (if length data < 2 then Panic else copy_into data (length data - 2) (u16_to_le_bytes instruction_index))"

definition load_instruction_at :: "nat \<Rightarrow> u8 list \<Rightarrow> (instruction, sanitize_error) result" where
  "load_instruction_at index data = deserialize_instruction index data"

section \<open>Round trips of the parts\<close>

lemma length_u16_to_le_bytes [simp]: "length (u16_to_le_bytes w) = 2"
  by (simp add: u16_to_le_bytes_def)

lemma ucast_byte: "ucast (ucast (x :: 'a::len word) :: u8) = (take_bit 8 x :: 'a word)" if "8 \<le> LENGTH('a)"
  using that by (intro bit_word_eqI) (auto simp: bit_simps)

lemma u16_le_roundtrip [simp]: "u16_from_le_bytes (u16_to_le_bytes w) = w"
proof -
  have "push_bit 8 (ucast (ucast (drop_bit 8 w) :: u8)) = (push_bit 8 (drop_bit 8 w) :: u16)"
    by (rule bit_word_eqI) (auto simp: bit_simps)
  then show ?thesis
    using bits_ident [of 8 w] by (simp add: u16_to_le_bytes_def ucast_byte)
qed

lemma pubkey_new_prefix:
  "j \<le> 32 \<Longrightarrow> foldl (\<lambda>k b. push_bit 8 k + ucast b) 0 (map (\<lambda>i. ucast (drop_bit (8 * (31 - i)) k) :: u8) [0..<j]) =
     drop_bit (8 * (32 - j)) (k :: pubkey)"
proof (induction j)
  case 0
  have "drop_bit 256 k = 0" by (rule bit_word_eqI) (auto simp: bit_simps dest: bit_imp_le_length)
  then show ?case by simp
next
  case (Suc j)
  let ?x = "drop_bit (8 * (31 - j)) k"
  have "8 * (32 - j) = 8 * (31 - j) + 8" using Suc.prems by simp
  then have "drop_bit (8 * (32 - j)) k = drop_bit 8 ?x" by (simp add: add.commute)
  moreover have "push_bit 8 (drop_bit 8 ?x) + ucast (ucast ?x :: u8) = ?x"
    using bits_ident [of 8 ?x] by (simp add: ucast_byte)
  ultimately show ?case using Suc by simp
qed

lemma pubkey_roundtrip [simp]: "pubkey_new (pubkey_bytes k) = k"
  using pubkey_new_prefix [of 32 k] by (simp add: pubkey_new_def pubkey_bytes_def)

lemma meta_byte_bits [simp]:
  "bit (meta_byte s w) IS_SIGNER_BIT = s" "bit (meta_byte s w) IS_WRITABLE_BIT = w"
  by (cases s; cases w; simp add: meta_byte_def IS_SIGNER_BIT_def IS_WRITABLE_BIT_def bit_simps)+

text \<open>Reading what starts at the cursor.\<close>

lemma drop_append_rest: "drop current data = xs @ rest \<Longrightarrow> drop (current + length xs) data = rest"
  by (metis add.commute append_eq_conv_conj drop_drop)

lemma length_at_cursor: "drop current data = xs @ rest \<Longrightarrow> xs \<noteq> [] \<Longrightarrow> current + length xs \<le> length data"
  by (metis add.commute append_is_Nil_conv drop_eq_Nil le_add_diff_inverse2 length_append length_drop linear nat_add_left_cancel_le trans_le_add1)

lemma read_u8_at: "drop current data = b # rest \<Longrightarrow> read_u8 current data = Ok (b, current + 1)"
  using length_at_cursor [of current data "[b]" rest] by (auto simp: read_u8_def dest: nth_via_drop)

lemma read_u16_at:
  assumes "drop current data = u16_to_le_bytes w @ rest"
  shows "read_u16 current data = Ok (w, current + 2)"
proof -
  have "take 2 (drop current data) = u16_to_le_bytes w" using assms by simp
  moreover have "current + 2 \<le> length data"
    using length_at_cursor [OF assms] length_u16_to_le_bytes [of w] by fastforce
  ultimately show ?thesis by (simp add: read_u16_def)
qed

lemma read_pubkey_at:
  assumes "drop current data = pubkey_bytes k @ rest"
  shows "read_pubkey current data = Ok (k, current + 32)"
proof -
  have "take 32 (drop current data) = pubkey_bytes k" using assms by simp
  moreover have "current + 32 \<le> length data"
    using length_at_cursor [OF assms] length_pubkey_bytes [of k] by fastforce
  ultimately show ?thesis by (simp add: read_pubkey_def)
qed

lemma read_slice_at:
  assumes "drop current data = xs @ rest" and "current \<le> length data"
  shows "read_slice current data (length xs) = Ok (xs, current + length xs)"
proof -
  have "length data - current = length xs + length rest" using assms(1) by (metis length_append length_drop)
  then show ?thesis using assms by (simp add: read_slice_def)
qed

section \<open>The bytes of an instruction\<close>

text \<open>What the message grants to a key, and the bytes that an instruction contributes.\<close>

definition granted_write :: "message \<Rightarrow> nat \<Rightarrow> bool" where
  "granted_write msg i \<longleftrightarrow> writable_range msg i \<and>
     \<not> is_sysvar_id (msg_account_keys msg ! i) \<and> msg_account_keys msg ! i \<notin> set BUILTIN_PROGRAMS_KEYS"

definition granted_meta :: "message \<Rightarrow> u8 \<Rightarrow> account_meta" where
  "granted_meta msg a =
     \<lparr>am_pubkey = msg_account_keys msg ! unat a, am_is_signer = msg_is_signer msg (unat a),
      am_is_writable = granted_write msg (unat a)\<rparr>"

definition granted_instruction :: "message \<Rightarrow> compiled_instruction \<Rightarrow> instruction" where
  "granted_instruction msg ci =
     \<lparr>ix_program_id = msg_account_keys msg ! unat (ci_program_id_index ci),
      ix_accounts = map (granted_meta msg) (ci_accounts ci), ix_data = ci_data ci\<rparr>"

definition meta_bytes :: "account_meta \<Rightarrow> u8 list" where
  "meta_bytes m = meta_byte (am_is_signer m) (am_is_writable m) # pubkey_bytes (am_pubkey m)"

definition instruction_bytes :: "instruction \<Rightarrow> u8 list" where
  "instruction_bytes ix =
     u16_to_le_bytes (word_of_nat (length (ix_accounts ix))) @ concat (map meta_bytes (ix_accounts ix)) @
     pubkey_bytes (ix_program_id ix) @ u16_to_le_bytes (word_of_nat (length (ix_data ix))) @ ix_data ix"

lemma length_meta_bytes [simp]: "length (meta_bytes m) = 33"
  by (simp add: meta_bytes_def)

lemma serialize_account_Ok:
  assumes "serialize_account msg data a = Ok data'"
  shows "data' = data @ meta_bytes (granted_meta msg a)"
  using assms
  by (auto simp: serialize_account_def msg_is_writable_def result_simps append_u8_def append_slice_def
      meta_bytes_def granted_meta_def granted_write_def split: if_splits)

lemma serialize_accounts_Ok:
  "fold_res (serialize_account msg) data as = (Ok data' :: (u8 list, 'e) result) \<Longrightarrow>
   data' = data @ concat (map (meta_bytes \<circ> granted_meta msg) as)"
proof (induction "as" arbitrary: data)
  case (Cons a "as")
  from Cons.prems obtain data1 where "serialize_account msg data a = (Ok data1 :: (u8 list, 'e) result)"
      and rest: "fold_res (serialize_account msg) data1 as = (Ok data' :: (u8 list, 'e) result)"
    by (auto simp: and_then_Ok_iff)
  then show ?case using Cons.IH [OF rest] serialize_account_Ok by fastforce
qed simp

lemma serialize_instruction_Ok:
  assumes "serialize_instruction msg data (i, ci) = Ok data'"
  shows "2 + 2 * i + 2 \<le> length data \<and>
    data' = take (2 + 2 * i) data @ u16_to_le_bytes (word_of_nat (length data)) @ drop (2 + 2 * i + 2) data @
      instruction_bytes (granted_instruction msg ci)"
  using assms
  by (auto simp: serialize_instruction_def result_simps copy_into_def append_u16_def append_slice_def
      instruction_bytes_def granted_instruction_def comp_def split: if_splits dest!: serialize_accounts_Ok)

text \<open>Where the instructions start, and the whole buffer when the first \<open>k\<close> of them are written.\<close>

definition instruction_offset :: "message \<Rightarrow> nat \<Rightarrow> nat" where
  "instruction_offset msg k =
     2 + 2 * length (msg_instructions msg) +
     length (concat (map (instruction_bytes \<circ> granted_instruction msg) (take k (msg_instructions msg))))"

definition buffer_at :: "message \<Rightarrow> nat \<Rightarrow> u8 list" where
  "buffer_at msg k =
     u16_to_le_bytes (word_of_nat (length (msg_instructions msg))) @
     concat (map (\<lambda>i. u16_to_le_bytes (word_of_nat (instruction_offset msg i))) [0..<k]) @
     replicate (2 * (length (msg_instructions msg) - k)) 0 @
     concat (map (instruction_bytes \<circ> granted_instruction msg) (take k (msg_instructions msg)))"

lemma length_concat_const: "(\<And>x. x \<in> set xs \<Longrightarrow> length (f x) = c) \<Longrightarrow> length (concat (map f xs)) = c * length xs"
  by (induction xs) auto

lemma length_buffer_at:
  assumes "k \<le> length (msg_instructions msg)"
  shows "length (buffer_at msg k) = instruction_offset msg k"
  using assms by (simp add: buffer_at_def instruction_offset_def length_concat_const)

lemma table_eq:
  "foldl (\<lambda>data _. append_u16 data 0) (append_u16 [] w) [0..<n] = u16_to_le_bytes w @ replicate (2 * n) 0"
  by (induction n) (auto simp: append_u16_def u16_to_le_bytes_def replicate_append_same [symmetric])

lemma serialize_step:
  assumes "serialize_instruction msg (buffer_at msg k) (k, msg_instructions msg ! k) = Ok data'"
    and k: "k < length (msg_instructions msg)"
  shows "data' = buffer_at msg (Suc k)"
proof -
  let ?n = "length (msg_instructions msg)"
  let ?head = "u16_to_le_bytes (word_of_nat ?n) @ concat (map (\<lambda>i. u16_to_le_bytes (word_of_nat (instruction_offset msg i))) [0..<k])"
  let ?body = "concat (map (instruction_bytes \<circ> granted_instruction msg) (take k (msg_instructions msg)))"
  have head: "length ?head = 2 + 2 * k" by (simp add: length_concat_const)
  have buf: "buffer_at msg k = ?head @ [0, 0] @ replicate (2 * (?n - Suc k)) 0 @ ?body"
  proof -
    have "2 * (?n - k) = Suc (Suc (2 * (?n - Suc k)))" using k by linarith
    then show ?thesis by (simp add: buffer_at_def)
  qed
  have "take (2 + 2 * k) (buffer_at msg k) = ?head" "drop (2 + 2 * k + 2) (buffer_at msg k) = replicate (2 * (?n - Suc k)) 0 @ ?body"
    unfolding buf using head by simp_all
  then have "data' = ?head @ u16_to_le_bytes (word_of_nat (instruction_offset msg k)) @ (replicate (2 * (?n - Suc k)) 0 @ ?body) @
      instruction_bytes (granted_instruction msg (msg_instructions msg ! k))"
    using serialize_instruction_Ok [OF assms(1)] length_buffer_at [of k msg] k by simp
  then show ?thesis
    using k by (simp add: buffer_at_def take_Suc_conv_app_nth)
qed

lemma serialize_instructions_Ok:
  assumes "serialize_instructions msg = (Ok data :: (u8 list, 'e) result)"
  shows "data = buffer_at msg (length (msg_instructions msg))"
proof -
  let ?n = "length (msg_instructions msg)"
  have run: "fold_res (serialize_instruction msg) (buffer_at msg k) (List.enumerate k (drop k (msg_instructions msg))) = (Ok data :: (u8 list, 'e) result) \<Longrightarrow>
      data = buffer_at msg ?n" if "k \<le> ?n" for k
    using that
  proof (induction "?n - k" arbitrary: k)
    case 0
    then show ?case by simp
  next
    case (Suc d)
    then have k: "k < ?n" by simp
    then have "drop k (msg_instructions msg) = msg_instructions msg ! k # drop (Suc k) (msg_instructions msg)"
      by (simp add: Cons_nth_drop_Suc)
    then obtain data1 where step: "serialize_instruction msg (buffer_at msg k) (k, msg_instructions msg ! k) = (Ok data1 :: (u8 list, 'e) result)"
        and rest: "fold_res (serialize_instruction msg) data1 (List.enumerate (Suc k) (drop (Suc k) (msg_instructions msg))) = (Ok data :: (u8 list, 'e) result)"
      using Suc.prems(1) by (auto simp: and_then_Ok_iff)
    have "data1 = buffer_at msg (Suc k)" using step k by (rule serialize_step)
    then show ?case using rest Suc.hyps(1) [of "Suc k"] Suc.hyps(2) k by simp
  qed
  show ?thesis
    by (rule run [of 0])
      (use assms in \<open>simp_all add: serialize_instructions_def table_eq buffer_at_def Let_def\<close>)
qed

section \<open>Reading it back\<close>

lemma read_accounts_at:
  "drop current data = concat (map meta_bytes ms) @ rest \<Longrightarrow>
   read_accounts (length ms) current data = Ok (ms, current + 33 * length ms)"
proof (induction ms arbitrary: current)
  case (Cons m ms)
  have at0: "drop current data = meta_byte (am_is_signer m) (am_is_writable m) # (pubkey_bytes (am_pubkey m) @ concat (map meta_bytes ms) @ rest)"
    using Cons.prems by (simp add: meta_bytes_def [of m])
  have at1: "drop (current + 1) data = pubkey_bytes (am_pubkey m) @ concat (map meta_bytes ms) @ rest"
    using drop_append_rest [of current data "[_]"] at0 by simp
  have "drop (current + 1 + 32) data = concat (map meta_bytes ms) @ rest"
    using drop_append_rest [OF at1] by simp
  from Cons.IH [OF this]
  show ?case using read_u8_at [OF at0] read_pubkey_at [OF at1] by (simp add: add.commute add.left_commute)
qed simp

lemma read_instruction_at:
  assumes "drop off data = instruction_bytes ix @ rest"
  defines "n \<equiv> length (ix_accounts ix)"
  shows "read_u16 off data = Ok (word_of_nat n, off + 2)"
    and "read_accounts n (off + 2) data = Ok (ix_accounts ix, off + 2 + 33 * n)"
    and "read_pubkey (off + 2 + 33 * n) data = Ok (ix_program_id ix, off + 2 + 33 * n + 32)"
    and "read_u16 (off + 2 + 33 * n + 32) data = Ok (word_of_nat (length (ix_data ix)), off + 2 + 33 * n + 32 + 2)"
    and "read_slice (off + 2 + 33 * n + 32 + 2) data (length (ix_data ix)) =
      Ok (ix_data ix, off + 2 + 33 * n + 32 + 2 + length (ix_data ix))"
proof -
  have len: "length (concat (map meta_bytes (ix_accounts ix))) = 33 * n" by (simp add: length_concat_const n_def)
  have 1: "drop off data = u16_to_le_bytes (word_of_nat n) @ (concat (map meta_bytes (ix_accounts ix)) @
      pubkey_bytes (ix_program_id ix) @ u16_to_le_bytes (word_of_nat (length (ix_data ix))) @ ix_data ix @ rest)"
    using assms(1) by (simp add: instruction_bytes_def n_def)
  have 2: "drop (off + 2) data = concat (map meta_bytes (ix_accounts ix)) @
      pubkey_bytes (ix_program_id ix) @ u16_to_le_bytes (word_of_nat (length (ix_data ix))) @ ix_data ix @ rest"
    using drop_append_rest [OF 1] by simp
  have 3: "drop (off + 2 + 33 * n) data =
      pubkey_bytes (ix_program_id ix) @ u16_to_le_bytes (word_of_nat (length (ix_data ix))) @ ix_data ix @ rest"
    using drop_append_rest [OF 2] len by simp
  have 4: "drop (off + 2 + 33 * n + 32) data = u16_to_le_bytes (word_of_nat (length (ix_data ix))) @ ix_data ix @ rest"
    using drop_append_rest [OF 3] by simp
  have 5: "drop (off + 2 + 33 * n + 32 + 2) data = ix_data ix @ rest"
    using drop_append_rest [OF 4] by simp
  show "read_u16 off data = Ok (word_of_nat n, off + 2)" using 1 by (rule read_u16_at)
  show "read_accounts n (off + 2) data = Ok (ix_accounts ix, off + 2 + 33 * n)"
    using read_accounts_at [OF 2] by (simp add: n_def)
  show "read_pubkey (off + 2 + 33 * n) data = Ok (ix_program_id ix, off + 2 + 33 * n + 32)" using 3 by (rule read_pubkey_at)
  show "read_u16 (off + 2 + 33 * n + 32) data = Ok (word_of_nat (length (ix_data ix)), off + 2 + 33 * n + 32 + 2)"
    using 4 by (rule read_u16_at)
  have "off + 2 + 33 * n + 32 + 2 \<le> length data"
    using length_at_cursor [OF 4] length_u16_to_le_bytes [of "word_of_nat (length (ix_data ix))"] by fastforce
  with 5 show "read_slice (off + 2 + 33 * n + 32 + 2) data (length (ix_data ix)) =
      Ok (ix_data ix, off + 2 + 33 * n + 32 + 2 + length (ix_data ix))"
    by (rule read_slice_at)
qed

text \<open>
  C39: A program reads from the instructions sysvar exactly the instructions of the transaction.
  Whatever the message, when \<open>serialize_instructions\<close> returns a buffer that fits the 16-bit offsets,
  \<open>deserialize_instruction\<close> gives for every index the program, the data and the accounts of that
  instruction with the privileges that the message grants them, also when bytes follow the buffer,
  and an index past the last instruction is an error.
\<close>

theorem instructions_sysvar_roundtrip:
  assumes "serialize_instructions msg = (Ok data :: (u8 list, 'e) result)" and "length data < 65536"
  shows "deserialize_instruction index (data @ rest) =
    (if index < length (msg_instructions msg) then Ok (granted_instruction msg (msg_instructions msg ! index))
     else Err IndexOutOfBounds)"
proof -
  let ?n = "length (msg_instructions msg)"
  let ?enc = "instruction_bytes \<circ> granted_instruction msg"
  let ?table = "concat (map (\<lambda>i. u16_to_le_bytes (word_of_nat (instruction_offset msg i))) [0..<?n])"
  have data: "data = u16_to_le_bytes (word_of_nat ?n) @ ?table @ concat (map ?enc (msg_instructions msg))"
    using serialize_instructions_Ok [OF assms(1)] by (simp add: buffer_at_def)
  have len: "length data = 2 + 2 * ?n + length (concat (map ?enc (msg_instructions msg)))"
    unfolding data by (simp add: length_concat_const)
  have small: "unat (word_of_nat m :: u16) = m" if "m < 65536" for m using that by (simp add: unat_simps)
  have n: "unat (word_of_nat ?n :: u16) = ?n" using len assms(2) by (intro small) linarith
  have "drop 0 (data @ rest) = u16_to_le_bytes (word_of_nat ?n) @ (?table @ concat (map ?enc (msg_instructions msg)) @ rest)"
    by (simp add: data)
  then have count: "read_u16 0 (data @ rest) = Ok (word_of_nat ?n, 2)" using read_u16_at by fastforce
  show ?thesis
  proof (cases "index < ?n")
    case False
    then show ?thesis using count n by (simp add: deserialize_instruction_def)
  next
    case True
    define ix where "ix = granted_instruction msg (msg_instructions msg ! index)"
    have split_l: "[0..<?n] = [0..<index] @ index # [Suc index..<?n]"
      proof -
      have "[0..<?n] = [0..<index] @ [index..<?n]"
        using upt_add_eq_append [of 0 index "?n - index"] True by simp
      then show ?thesis using True by (simp add: upt_conv_Cons)
    qed
    have split_i: "msg_instructions msg = take index (msg_instructions msg) @ msg_instructions msg ! index # drop (Suc index) (msg_instructions msg)"
      using True by (simp add: id_take_nth_drop)
    obtain r1 where d1: "data @ rest = (u16_to_le_bytes (word_of_nat ?n) @
        concat (map (\<lambda>i. u16_to_le_bytes (word_of_nat (instruction_offset msg i))) [0..<index])) @
        u16_to_le_bytes (word_of_nat (instruction_offset msg index)) @ r1"
      unfolding data split_l by simp
    have "drop (2 + index * 2) (data @ rest) = u16_to_le_bytes (word_of_nat (instruction_offset msg index)) @ r1"
      unfolding d1 by (simp add: length_concat_const)
    then have start: "read_u16 (2 + index * 2) (data @ rest) = Ok (word_of_nat (instruction_offset msg index), 2 + index * 2 + 2)"
      by (rule read_u16_at)
    obtain r2 where d2: "data @ rest = (u16_to_le_bytes (word_of_nat ?n) @ ?table @ concat (map ?enc (take index (msg_instructions msg)))) @
        instruction_bytes ix @ r2"
    proof -
      have "concat (map ?enc (msg_instructions msg)) = concat (map ?enc (take index (msg_instructions msg))) @ instruction_bytes ix @
          concat (map ?enc (drop (Suc index) (msg_instructions msg)))"
        by (subst split_i) (simp add: ix_def)
      then show ?thesis using that unfolding data by simp
    qed
    have pos: "length (u16_to_le_bytes (word_of_nat ?n) @ ?table @ concat (map ?enc (take index (msg_instructions msg)))) =
        instruction_offset msg index"
      by (simp add: instruction_offset_def length_concat_const)
    have drop_off: "drop (instruction_offset msg index) (data @ rest) = instruction_bytes ix @ r2"
      unfolding d2 pos [symmetric] by simp
    have "instruction_offset msg index + length (instruction_bytes ix) \<le> length data"
    proof -
      have "length (concat (map ?enc (msg_instructions msg))) = length (concat (map ?enc (take index (msg_instructions msg)))) +
          length (instruction_bytes ix) + length (concat (map ?enc (drop (Suc index) (msg_instructions msg))))"
        by (subst split_i) (simp add: ix_def)
      then show ?thesis unfolding len instruction_offset_def by simp
    qed
    then have bound: "instruction_offset msg index + (2 + 33 * length (ix_accounts ix) + 32 + 2 + length (ix_data ix)) < 65536"
      using assms(2) by (simp add: instruction_bytes_def length_concat_const)
    then have unats: "unat (word_of_nat (instruction_offset msg index) :: u16) = instruction_offset msg index"
        "unat (word_of_nat (length (ix_accounts ix)) :: u16) = length (ix_accounts ix)"
        "unat (word_of_nat (length (ix_data ix)) :: u16) = length (ix_data ix)"
      by (intro small; linarith)+
    show ?thesis
      unfolding deserialize_instruction_def count
      using True n start unats read_instruction_at [OF drop_off] bound by (simp add: ix_def)
  qed
qed

lemma length_instruction_bytes:
  "length (instruction_bytes ix) = 36 + 33 * length (ix_accounts ix) + length (ix_data ix)"
  by (simp add: instruction_bytes_def length_concat_const)

theorem instructions_sysvar_roundtrip_witness:
  "\<exists>data. serialize_instructions demo_message = (Ok data :: (u8 list, unit) result) \<and> length data = 107 \<and>
     deserialize_instruction 0 (data @ [0, 0]) = Ok (granted_instruction demo_message (msg_instructions demo_message ! 0)) \<and>
     deserialize_instruction 1 (data @ [0, 0]) = Err IndexOutOfBounds"
proof -
  have ok: "msg_is_writable demo_message 1 = (Ok False :: (bool, unit) result)"
      "\<exists>w. msg_is_writable demo_message 2 = (Ok w :: (bool, unit) result)"
    by (simp_all add: msg_is_writable_def writable_range_def demo_message_def index_at_def)
  then obtain data where data: "serialize_instructions demo_message = (Ok data :: (u8 list, unit) result)"
    by (auto simp: serialize_instructions_def serialize_instruction_def serialize_account_def demo_message_def
        index_at_def copy_into_def append_u16_def append_u8_def append_slice_def u16_to_le_bytes_def)
  have "length data = 107"
    using serialize_instructions_Ok [OF data] length_buffer_at [of 1 demo_message]
    by (simp add: instruction_offset_def demo_message_def length_instruction_bytes granted_instruction_def)
  then show ?thesis
    using data instructions_sysvar_roundtrip [OF data, of 0 "[0, 0]"] instructions_sysvar_roundtrip [OF data, of 1 "[0, 0]"]
    by (simp add: demo_message_def)
qed

end
