(* ===== verification/Account_Verify.thy ===== *)
theory Account_Verify
  imports Message_Model Rent_Model
begin

text \<open>
  The checks that the runtime makes after a program has run (\<open>runtime/src/message_processor.rs\<close>):
  the state of the accounts before an instruction (\<open>PreAccount\<close>), which changes of an account are
  allowed (\<open>PreAccount::verify\<close>), and the verification of all accounts of an instruction with the
  sum of the lamports (\<open>verify\<close>, \<open>verify_and_update\<close>). The borrows of the accounts are over when
  they are verified, so the checks for outstanding references succeed. The timings of an instruction
  that fails at its final verification are dropped with the rest of the message's state. The theorems: the checks
  decide a declarative policy, and a verified instruction conserves lamports.
\<close>

section \<open>Timings\<close>

record program_timing =
  pt_accumulated_us :: u64
  pt_accumulated_units :: u64
  pt_count :: u32

record execute_timings =
  et_serialize_us :: u64
  et_create_vm_us :: u64
  et_execute_us :: u64
  et_deserialize_us :: u64
  et_changed_account_count :: u64
  et_total_account_count :: u64
  et_total_data_size :: u64
  et_data_size_changed :: u64
  et_per_program_timings :: "pubkey \<rightharpoonup> program_timing"

definition program_timing_default :: program_timing where
  "program_timing_default = \<lparr>pt_accumulated_us = 0, pt_accumulated_units = 0, pt_count = 0\<rparr>"

definition execute_timings_default :: execute_timings where
  "execute_timings_default =
     \<lparr>et_serialize_us = 0, et_create_vm_us = 0, et_execute_us = 0, et_deserialize_us = 0,
      et_changed_account_count = 0, et_total_account_count = 0, et_total_data_size = 0, et_data_size_changed = 0,
      et_per_program_timings = Map.empty\<rparr>"

definition entry_or_default :: "(pubkey \<rightharpoonup> program_timing) \<Rightarrow> pubkey \<Rightarrow> program_timing" where
  "entry_or_default m k = (case m k of Some t \<Rightarrow> t | None \<Rightarrow> program_timing_default)"

definition add_program_timing :: "program_timing \<Rightarrow> program_timing \<Rightarrow> program_timing" where
  "add_program_timing t other =
     \<lparr>pt_accumulated_us = saturating_add (pt_accumulated_us t) (pt_accumulated_us other),
      pt_accumulated_units = saturating_add (pt_accumulated_units t) (pt_accumulated_units other),
      pt_count = saturating_add (pt_count t) (pt_count other)\<rparr>"

text \<open>The loop over the other's programs updates each entry once.\<close>

definition timings_accumulate :: "execute_timings \<Rightarrow> execute_timings \<Rightarrow> execute_timings" where
  "timings_accumulate t other =
     \<lparr>et_serialize_us = et_serialize_us t + et_serialize_us other,
      et_create_vm_us = et_create_vm_us t + et_create_vm_us other,
      et_execute_us = et_execute_us t + et_execute_us other,
      et_deserialize_us = et_deserialize_us t + et_deserialize_us other,
      et_changed_account_count = et_changed_account_count t + et_changed_account_count other,
      et_total_account_count = et_total_account_count t + et_total_account_count other,
      et_total_data_size = et_total_data_size t + et_total_data_size other,
      et_data_size_changed = et_data_size_changed t + et_data_size_changed other,
      et_per_program_timings = (\<lambda>k. case et_per_program_timings other k of
          None \<Rightarrow> et_per_program_timings t k
        | Some o' \<Rightarrow> Some (add_program_timing (entry_or_default (et_per_program_timings t) k) o'))\<rparr>"

definition accumulate_program :: "execute_timings \<Rightarrow> pubkey \<Rightarrow> u64 \<Rightarrow> u64 \<Rightarrow> execute_timings" where
  "accumulate_program t program_id us units =
     t\<lparr>et_per_program_timings := (et_per_program_timings t)(program_id \<mapsto>
         add_program_timing (entry_or_default (et_per_program_timings t) program_id)
           \<lparr>pt_accumulated_us = us, pt_accumulated_units = units, pt_count = 1\<rparr>)\<rparr>"

section \<open>One account\<close>

record pre_account =
  pa_key :: pubkey
  pa_account :: account
  pa_changed :: bool

definition pre_account_new :: "pubkey \<Rightarrow> account \<Rightarrow> pre_account" where
  "pre_account_new key a = \<lparr>pa_key = key, pa_account = a, pa_changed = False\<rparr>"

text \<open>\<open>chunks_exact\<close> of the standard library: the full chunks and the remainder.\<close>

function chunks_exact :: "nat \<Rightarrow> 'a list \<Rightarrow> 'a list list \<times> 'a list" where
  "chunks_exact n xs =
     (if n = 0 \<or> length xs < n then ([], xs)
      else let (chunks, remainder) = chunks_exact n (drop n xs) in (take n xs # chunks, remainder))"
  by auto
termination
  by (relation "measure (\<lambda>(n, xs). length xs)") auto

declare chunks_exact.simps [simp del]

definition ZEROS_LEN :: nat where
  "ZEROS_LEN = 1024"

definition is_zeroed :: "u8 list \<Rightarrow> bool" where
  "is_zeroed buf =
     (let zeros = replicate ZEROS_LEN 0; (chunks, remainder) = chunks_exact ZEROS_LEN buf
      in list_all (\<lambda>chunk. chunk = zeros) chunks \<and> remainder = take (length remainder) zeros)"

definition pre_account_verify ::
  "pre_account \<Rightarrow> pubkey \<Rightarrow> bool \<Rightarrow> rent \<Rightarrow> account \<Rightarrow> execute_timings \<Rightarrow> bool \<Rightarrow> bool \<Rightarrow>
   (execute_timings, instruction_error) result" where
  "pre_account_verify me program_id is_writable rent post timings outermost_call updated_verify_policy =
     (let pre = pa_account me;
          owner_changed = acc_owner pre \<noteq> acc_owner post;
          lamports_changed = acc_lamports pre \<noteq> acc_lamports post;
          data_len_changed = length (acc_data pre) \<noteq> length (acc_data post);
          executable_changed = acc_executable pre \<noteq> acc_executable post;
          rent_epoch_changed = acc_rent_epoch pre \<noteq> acc_rent_epoch post
      in
      if owner_changed \<and>
         (\<not> is_writable \<or> acc_executable pre \<or> program_id \<noteq> acc_owner pre \<or> \<not> is_zeroed (acc_data post))
      then Err ModifiedProgramId
      else if program_id \<noteq> acc_owner pre \<and> acc_lamports pre > acc_lamports post
      then Err ExternalAccountLamportSpend
      else if lamports_changed \<and> \<not> is_writable then Err ReadonlyLamportChange
      else if lamports_changed \<and> acc_executable pre then Err ExecutableLamportChange
      else if data_len_changed \<and> (program_id \<noteq> system_program_id \<or> acc_owner pre \<noteq> system_program_id)
      then Err AccountDataSizeChanged
      else if \<not> (program_id = acc_owner pre \<and> is_writable \<and> \<not> acc_executable pre) \<and> acc_data pre \<noteq> acc_data post
      then
        (if acc_executable pre then Err ExecutableDataModified
         else if is_writable then Err ExternalAccountDataModified
         else Err ReadonlyDataModified)
      else if executable_changed \<and> \<not> is_exempt rent (acc_lamports post) (length (acc_data post))
      then Err ExecutableAccountNotRentExempt
      else if executable_changed \<and>
         (\<not> is_writable \<or> acc_executable pre \<or>
          program_id \<noteq> (if updated_verify_policy then acc_owner post else acc_owner pre))
      then Err ExecutableModified
      else if rent_epoch_changed then Err RentEpochModified
      else if outermost_call then
        Ok (let t = timings\<lparr>et_total_account_count := et_total_account_count timings + 1,
                 et_total_data_size := et_total_data_size timings + word_of_nat (length (acc_data post))\<rparr>
            in if owner_changed \<or> lamports_changed \<or> data_len_changed \<or> executable_changed \<or> rent_epoch_changed \<or>
                 pa_changed me
               then t\<lparr>et_changed_account_count := et_changed_account_count t + 1,
                 et_data_size_changed := et_data_size_changed t + word_of_nat (length (acc_data post))\<rparr>
               else t)
      else Ok timings)"

definition pre_account_update :: "pre_account \<Rightarrow> account \<Rightarrow> pre_account" where
  "pre_account_update me a =
     me\<lparr>pa_account := a\<lparr>acc_rent_epoch := acc_rent_epoch (pa_account me)\<rparr>, pa_changed := True\<rparr>"

definition pa_lamports :: "pre_account \<Rightarrow> u64" where
  "pa_lamports me = acc_lamports (pa_account me)"

definition pa_executable :: "pre_account \<Rightarrow> bool" where
  "pa_executable me = acc_executable (pa_account me)"

section \<open>All accounts of an instruction\<close>

type_synonym loaded_accounts = "(pubkey \<times> account) list"

text \<open>
  \<open>create_pre_accounts\<close> ignores the result of \<open>visit_each_account\<close>: it keeps what was collected
  before the first index that is out of range.
\<close>

definition create_pre_accounts :: "message \<Rightarrow> compiled_instruction \<Rightarrow> loaded_accounts \<Rightarrow> pre_account list" where
  "create_pre_accounts msg ci accounts =
     (case visit_each_account ci
        (\<lambda>pre_accounts _ account_index.
           if account_index < length (msg_account_keys msg) \<and> account_index < length accounts then
             Ok (pre_accounts @ [pre_account_new (fst (accounts ! account_index)) (snd (accounts ! account_index))])
           else Err (MissingAccount, pre_accounts)) []
      of Ok pre_accounts \<Rightarrow> pre_accounts | Err (_, pre_accounts) \<Rightarrow> pre_accounts | Panic \<Rightarrow> [])"

text \<open>
  The closures that \<open>verify\<close> and \<open>verify_and_update\<close> run for each account. The latter updates the
  accounts kept for the instruction in place: what it updated before an error stays, so that its
  error comes with the accounts and the timings at that moment.
\<close>

definition verify_work ::
  "message \<Rightarrow> pubkey \<Rightarrow> pre_account list \<Rightarrow> loaded_accounts \<Rightarrow> rent \<Rightarrow> bool \<Rightarrow> execute_timings \<times> u128 \<times> u128 \<Rightarrow>
   nat \<Rightarrow> nat \<Rightarrow> (execute_timings \<times> u128 \<times> u128, instruction_error) result" where
  "verify_work msg program_id pre_accounts accounts rent updated_verify_policy =
     (\<lambda>(timings, pre_sum, post_sum) unique_index account_index.
        and_then (index_at accounts account_index) (\<lambda>(_, a).
        and_then (index_at pre_accounts unique_index) (\<lambda>pre.
        and_then (msg_is_writable msg account_index) (\<lambda>is_writable.
        and_then (pre_account_verify pre program_id is_writable rent a timings True updated_verify_policy) (\<lambda>timings.
          Ok (timings, pre_sum + ucast (pa_lamports pre), post_sum + ucast (acc_lamports a)))))))"

definition update_work ::
  "loaded_accounts \<Rightarrow> pubkey \<Rightarrow> rent \<Rightarrow> bool list \<Rightarrow> bool \<Rightarrow> pre_account list \<times> execute_timings \<times> u128 \<times> u128 \<Rightarrow>
   nat \<Rightarrow> nat \<Rightarrow>
   (pre_account list \<times> execute_timings \<times> u128 \<times> u128, instruction_error \<times> pre_account list \<times> execute_timings) result" where
  "update_work accounts program_id rent write_privileges updated_verify_policy =
     (\<lambda>(pre_accounts, timings, pre_sum, post_sum) _ account_index.
        if account_index < length write_privileges \<and> account_index < length accounts then
          let (key, a) = accounts ! account_index; is_writable = write_privileges ! account_index in
          (case position (\<lambda>p. key = pa_key p) pre_accounts of
             Some j \<Rightarrow>
               let pre = pre_accounts ! j in
               and_then (map_err (\<lambda>e. (e, pre_accounts, timings))
                   (pre_account_verify pre program_id is_writable rent a timings False updated_verify_policy))
                 (\<lambda>timings.
                  Ok (if is_writable \<and> \<not> pa_executable pre then pre_accounts[j := pre_account_update pre a]
                      else pre_accounts,
                      timings, pre_sum + ucast (pa_lamports pre), post_sum + ucast (acc_lamports a)))
           | None \<Rightarrow> Err (MissingAccount, pre_accounts, timings))
        else Err (MissingAccount, pre_accounts, timings))"

definition mp_verify ::
  "message \<Rightarrow> compiled_instruction \<Rightarrow> pre_account list \<Rightarrow> loaded_accounts \<Rightarrow> rent \<Rightarrow> execute_timings \<Rightarrow> bool \<Rightarrow>
   (execute_timings, instruction_error) result" where
  "mp_verify msg ci pre_accounts accounts rent timings updated_verify_policy =
     and_then (ci_program_id ci (msg_account_keys msg)) (\<lambda>program_id.
     and_then
       (visit_each_account ci (verify_work msg program_id pre_accounts accounts rent updated_verify_policy) (timings, 0, 0))
       (\<lambda>(timings, pre_sum, post_sum).
          if pre_sum \<noteq> post_sum then Err UnbalancedInstruction else Ok timings))"

definition mp_verify_and_update ::
  "compiled_instruction \<Rightarrow> pre_account list \<Rightarrow> loaded_accounts \<Rightarrow> pubkey \<Rightarrow> rent \<Rightarrow> bool list \<Rightarrow> execute_timings \<Rightarrow>
   bool \<Rightarrow> (unit, instruction_error) result \<times> pre_account list \<times> execute_timings" where
  "mp_verify_and_update ci pre_accounts accounts program_id rent write_privileges timings updated_verify_policy =
     (case visit_each_account ci (update_work accounts program_id rent write_privileges updated_verify_policy)
             (pre_accounts, timings, 0, 0)
      of Ok (pre_accounts, timings, pre_sum, post_sum) \<Rightarrow>
           (if pre_sum \<noteq> post_sum then Err UnbalancedInstruction else Ok (), pre_accounts, timings)
       | Err (e, pre_accounts, timings) \<Rightarrow> (Err e, pre_accounts, timings)
       | Panic \<Rightarrow> (Panic, pre_accounts, timings))"

section \<open>The policy for one account\<close>

lemma is_zeroed_chunks:
  "0 < n \<Longrightarrow> chunks_exact n xs = (chunks, remainder) \<Longrightarrow>
     list_all (\<lambda>chunk. chunk = replicate n 0) chunks \<and> remainder = take (length remainder) (replicate n 0) \<longleftrightarrow>
     (\<forall>b\<in>set xs. b = (0 :: u8))"
proof (induction n xs arbitrary: chunks remainder rule: chunks_exact.induct)
  case (1 n xs)
  show ?case
  proof (cases "length xs < n")
    case True
    then have "chunks = []" "remainder = xs" using 1(3) by (auto simp: chunks_exact.simps [of n xs])
    moreover have "xs = replicate (length xs) 0 \<longleftrightarrow> (\<forall>b\<in>set xs. b = 0)"
      by (metis in_set_replicate replicate_eqI)
    then have "xs = take (length xs) (replicate n 0) \<longleftrightarrow> (\<forall>b\<in>set xs. b = 0)"
      using True by (simp add: min_def)
    ultimately show ?thesis by simp
  next
    case False
    obtain cs r where rec: "chunks_exact n (drop n xs) = (cs, r)" by fastforce
    then have eq: "chunks = take n xs # cs" "remainder = r"
      using 1(2,3) False by (auto simp: chunks_exact.simps [of n xs])
    have IH: "list_all (\<lambda>chunk. chunk = replicate n 0) cs \<and> r = take (length r) (replicate n 0) \<longleftrightarrow> (\<forall>b\<in>set (drop n xs). b = 0)"
      using 1(1) [OF _ _ rec] 1(2) False by simp
    have "take n xs = replicate n 0 \<longleftrightarrow> (\<forall>b\<in>set (take n xs). b = 0)"
      using False by (metis (no_types) in_set_replicate length_take min.absorb2 not_less replicate_eqI)
    moreover have "set xs = set (take n xs) \<union> set (drop n xs)" by (metis append_take_drop_id set_append)
    ultimately show ?thesis using IH eq by auto
  qed
qed

lemma is_zeroed_iff: "is_zeroed buf \<longleftrightarrow> (\<forall>b\<in>set buf. b = 0)"
proof -
  obtain chunks remainder where "chunks_exact ZEROS_LEN buf = (chunks, remainder)" by fastforce
  then show ?thesis using is_zeroed_chunks [of ZEROS_LEN buf chunks remainder]
    by (simp add: is_zeroed_def Let_def ZEROS_LEN_def)
qed

text \<open>
  The changes that are allowed: none to an account that is read-only or executable; by a program
  that does not own the account only more lamports; and by the owner everything but the rent epoch,
  where a new owner gets zeroed data, only the system program resizes, and the account becomes
  executable only when it is exempt from rent.
\<close>

definition change_allowed :: "pubkey \<Rightarrow> bool \<Rightarrow> rent \<Rightarrow> bool \<Rightarrow> account \<Rightarrow> account \<Rightarrow> bool" where
  "change_allowed program_id is_writable rent updated_verify_policy pre post \<longleftrightarrow>
     (if \<not> is_writable \<or> acc_executable pre then post = pre
      else if program_id \<noteq> acc_owner pre then
        acc_lamports pre \<le> acc_lamports post \<and> post = pre\<lparr>acc_lamports := acc_lamports post\<rparr>
      else
        acc_rent_epoch post = acc_rent_epoch pre \<and>
        (acc_owner post \<noteq> program_id \<longrightarrow> (\<forall>b\<in>set (acc_data post). b = 0)) \<and>
        (length (acc_data post) \<noteq> length (acc_data pre) \<longrightarrow> program_id = system_program_id) \<and>
        (acc_executable post \<longrightarrow> is_exempt rent (acc_lamports post) (length (acc_data post)) \<and>
           (updated_verify_policy \<longrightarrow> acc_owner post = program_id)))"

lemma account_eq_iff:
  "a = b \<longleftrightarrow> acc_lamports a = acc_lamports b \<and> acc_data a = acc_data b \<and> acc_owner a = acc_owner b \<and>
     acc_executable a = acc_executable b \<and> acc_rent_epoch a = acc_rent_epoch b" for a b :: account
  by (cases a; cases b) auto

lemma ok_guard:
  "(\<exists>t. (if b then Err e else r) = Ok t) \<longleftrightarrow> \<not> b \<and> (\<exists>t. r = Ok t)"
  "(\<exists>t. (if b then if c then Err e else if d then Err e' else Err e'' else r) = Ok t) \<longleftrightarrow> \<not> b \<and> (\<exists>t. r = Ok t)"
  "(\<exists>t. (if b then Ok x else Ok y) = Ok t) \<longleftrightarrow> True"
  by auto

text \<open>The checks that have to pass, one conjunct for each.\<close>

lemma pre_account_verify_checks:
  "(\<exists>t. pre_account_verify me program_id is_writable rent post timings outermost policy = Ok t) \<longleftrightarrow>
     (let pre = pa_account me in
      (acc_owner pre \<noteq> acc_owner post \<longrightarrow>
         is_writable \<and> \<not> acc_executable pre \<and> program_id = acc_owner pre \<and> (\<forall>b\<in>set (acc_data post). b = 0)) \<and>
      (program_id \<noteq> acc_owner pre \<longrightarrow> acc_lamports pre \<le> acc_lamports post) \<and>
      (acc_lamports pre \<noteq> acc_lamports post \<longrightarrow> is_writable \<and> \<not> acc_executable pre) \<and>
      (length (acc_data pre) \<noteq> length (acc_data post) \<longrightarrow>
         program_id = system_program_id \<and> acc_owner pre = system_program_id) \<and>
      (acc_data pre \<noteq> acc_data post \<longrightarrow> program_id = acc_owner pre \<and> is_writable \<and> \<not> acc_executable pre) \<and>
      (acc_executable pre \<noteq> acc_executable post \<longrightarrow>
         is_exempt rent (acc_lamports post) (length (acc_data post)) \<and> is_writable \<and> \<not> acc_executable pre \<and>
         program_id = (if policy then acc_owner post else acc_owner pre)) \<and>
      acc_rent_epoch pre = acc_rent_epoch post)"
  unfolding pre_account_verify_def Let_def is_zeroed_iff ok_guard not_less [symmetric] by blast

lemma verify_ok_iff:
  "(\<exists>t. pre_account_verify me program_id is_writable rent post timings outermost policy = Ok t) \<longleftrightarrow>
     change_allowed program_id is_writable rent policy (pa_account me) post"
proof -
  define pre where "pre = pa_account me"
  show ?thesis
  proof (cases "\<not> is_writable \<or> acc_executable pre")
    case True
    then show ?thesis
      unfolding pre_account_verify_checks change_allowed_def Let_def pre_def [symmetric] account_eq_iff [of post]
      by auto
  next
    case False
    then have w: "is_writable" "\<not> acc_executable pre" by auto
    then show ?thesis
      unfolding pre_account_verify_checks change_allowed_def Let_def pre_def [symmetric]
      by (cases "program_id = acc_owner pre") (auto simp: account_eq_iff)
  qed
qed

text \<open>
  C40: The per-account checks are the policy. \<open>PreAccount::verify\<close> accepts the state of an account
  after a program has run exactly when the change is allowed: whichever check fires, and in
  whatever order, nothing else is accepted and nothing that is allowed is refused.
\<close>

theorem pre_account_verify_iff:
  "(\<exists>t. pre_account_verify me program_id is_writable rent post timings outermost policy = Ok t) \<longleftrightarrow>
     change_allowed program_id is_writable rent policy (pa_account me) post"
  by (rule verify_ok_iff)

section \<open>The accounts of an instruction\<close>

text \<open>\<open>visit_each_account\<close> visits the distinct indices in the order of their first occurrence.\<close>

lemma filter_removeAll_snoc:
  "filter (\<lambda>x. x \<notin> set before) (removeAll a xs) = filter (\<lambda>x. x \<notin> set (before @ [a])) xs"
  by (induction xs) auto

lemma filter_before_mem:
  "a \<in> set before \<Longrightarrow> filter (\<lambda>x. x \<notin> set (before @ [a])) xs = filter (\<lambda>x. x \<notin> set before) xs"
  by (rule filter_cong) auto

lemma visit_loop_eq:
  "visit_loop work before u s as =
     fold_res (\<lambda>s (u, a). work s u (unat a)) s (List.enumerate u (filter (\<lambda>a. a \<notin> set before) (unique as)))"
proof (induction "as" arbitrary: before u s)
  case Nil
  then show ?case by simp
next
  case (Cons a "as")
  show ?case
  proof (cases "a \<in> set before")
    case True
    then show ?thesis using Cons filter_removeAll_snoc [of before a "unique as"] by simp
  next
    case False
    then show ?thesis using Cons filter_removeAll_snoc [of before a "unique as"]
      by (cases "work s u (unat a)") simp_all
  qed
qed

lemma visit_each_account_eq:
  "visit_each_account ci work s =
     fold_res (\<lambda>s (u, a). work s u (unat a)) s (List.enumerate 0 (unique (ci_accounts ci)))"
  by (simp add: visit_each_account_def visit_loop_eq)

lemma length_unique_u8: "length (unique (as :: u8 list)) \<le> 256"
proof -
  have "length (unique as) = card (set as)" using distinct_card [OF distinct_unique [of "as"]] by simp
  also have "\<dots> \<le> card (UNIV :: u8 set)" by (rule card_mono) auto
  also have "\<dots> = 256" by (simp add: card_word)
  finally show ?thesis .
qed

definition indices_in_range :: "message \<Rightarrow> compiled_instruction \<Rightarrow> loaded_accounts \<Rightarrow> bool" where
  "indices_in_range msg ci accounts \<longleftrightarrow>
     unat (ci_program_id_index ci) < length (msg_account_keys msg) \<and>
     (\<forall>a\<in>set (ci_accounts ci). unat a < length (msg_account_keys msg) \<and> unat a < length accounts)"

lemma create_pre_accounts_eq:
  assumes "indices_in_range msg ci accounts"
  shows "create_pre_accounts msg ci accounts =
    map (\<lambda>a. pre_account_new (fst (accounts ! unat a)) (snd (accounts ! unat a))) (unique (ci_accounts ci))"
proof -
  let ?step = "\<lambda>pre_accounts _ account_index.
       if account_index < length (msg_account_keys msg) \<and> account_index < length accounts then
         Ok (pre_accounts @ [pre_account_new (fst (accounts ! account_index)) (snd (accounts ! account_index))])
       else Err (MissingAccount, pre_accounts)"
  have run: "fold_res (\<lambda>s (u, a). ?step s u (unat a)) ps (List.enumerate k us) =
      Ok (ps @ map (\<lambda>a. pre_account_new (fst (accounts ! unat a)) (snd (accounts ! unat a))) us)"
    if "set us \<subseteq> set (ci_accounts ci)" for us ps k
    using that assms by (induction us arbitrary: ps k) (auto simp: indices_in_range_def)
  show ?thesis
    unfolding create_pre_accounts_def visit_each_account_eq run [OF eq_refl [OF set_unique]] by simp
qed

lemma ucast_u128: "(ucast (w :: u64) :: u128) = word_of_nat (unat w)"
  by (simp add: unsigned_ucast_eq)

lemma verify_fold:
  assumes "fold_res (\<lambda>s (u, x). verify_work msg program_id pres accounts rent policy s u (unat x))
      (t, p, q) (List.enumerate k (xs :: u8 list)) = Ok (t', p', q')"
  shows "p' = p + word_of_nat (\<Sum>j\<leftarrow>[0..<length xs]. unat (pa_lamports (pres ! (k + j)))) \<and>
    q' = q + word_of_nat (\<Sum>x\<leftarrow>xs. unat (acc_lamports (snd (accounts ! unat x)))) \<and>
    (\<forall>j<length xs. \<exists>w. msg_is_writable msg (unat (xs ! j)) = (Ok w :: (bool, instruction_error) result) \<and>
       unat (xs ! j) < length accounts \<and>
       change_allowed program_id w rent policy (pa_account (pres ! (k + j))) (snd (accounts ! unat (xs ! j))))"
  using assms
proof (induction xs arbitrary: k t p q)
  case Nil
  then show ?case by simp
next
  case (Cons x xs)
  obtain w t1 where x: "unat x < length accounts" "k < length pres" "msg_is_writable msg (unat x) = (Ok w :: (bool, instruction_error) result)"
    and v: "pre_account_verify (pres ! k) program_id w rent (snd (accounts ! unat x)) t True policy = Ok t1"
    and rest: "fold_res (\<lambda>s (u, x). verify_work msg program_id pres accounts rent policy s u (unat x))
      (t1, p + ucast (pa_lamports (pres ! k)), q + ucast (acc_lamports (snd (accounts ! unat x))))
      (List.enumerate (Suc k) xs) = Ok (t', p', q')"
    using Cons.prems by (auto simp: verify_work_def [of msg program_id pres accounts rent policy, THEN fun_cong]
      and_then_Ok_iff index_at_Ok_iff split: prod.splits)
  note IH = conjunct1 [OF Cons.IH [OF rest]] conjunct1 [OF conjunct2 [OF Cons.IH [OF rest]]]
    conjunct2 [OF conjunct2 [OF Cons.IH [OF rest]]]
  have ca: "change_allowed program_id w rent policy (pa_account (pres ! k)) (snd (accounts ! unat x))"
    by (rule verify_ok_iff [THEN iffD1], rule exI, rule v)
  have pre_sum: "(\<Sum>j\<leftarrow>[0..<length (x # xs)]. unat (pa_lamports (pres ! (k + j)))) =
      unat (pa_lamports (pres ! k)) + (\<Sum>j\<leftarrow>[0..<length xs]. unat (pa_lamports (pres ! (Suc k + j))))"
    by (simp only: length_Cons map_upt_Suc sum_list.Cons) simp
  have "\<exists>w. msg_is_writable msg (unat ((x # xs) ! j)) = (Ok w :: (bool, instruction_error) result) \<and>
       unat ((x # xs) ! j) < length accounts \<and>
       change_allowed program_id w rent policy (pa_account (pres ! (k + j))) (snd (accounts ! unat ((x # xs) ! j)))"
    if "j < length (x # xs)" for j
  proof (cases j)
    case 0
    then show ?thesis using ca x(1,3) by simp
  next
    case (Suc i)
    then have "i < length xs" using that by simp
    with IH(3) show ?thesis unfolding Suc by simp
  qed
  moreover have "p' = p + word_of_nat (\<Sum>j\<leftarrow>[0..<length (x # xs)]. unat (pa_lamports (pres ! (k + j))))"
    unfolding pre_sum of_nat_add IH(1) ucast_u128 by (rule add.assoc)
  moreover have "q' = q + word_of_nat (\<Sum>x\<leftarrow>x # xs. unat (acc_lamports (snd (accounts ! unat x))))"
    unfolding IH(2) ucast_u128 list.map sum_list.Cons of_nat_add by (rule add.assoc)
  ultimately show ?case by blast
qed

lemma sum_list_u64_bound: "length xs \<le> 256 \<Longrightarrow> (\<Sum>x\<leftarrow>xs. unat (f x :: u64)) < 2 ^ 128"
proof -
  assume "length xs \<le> 256"
  have "(\<Sum>x\<leftarrow>xs. unat (f x)) \<le> length xs * 2 ^ 64"
    by (induction xs) (use unat_bound [of "f _"] in \<open>auto intro: add_mono less_imp_le\<close>)
  also have "\<dots> \<le> 256 * 2 ^ 64" using \<open>length xs \<le> 256\<close> by simp
  finally show ?thesis by simp
qed

lemma word_of_nat_inj_less:
  "(word_of_nat m :: 'a::len word) = word_of_nat n \<Longrightarrow> m < 2 ^ LENGTH('a) \<Longrightarrow> n < 2 ^ LENGTH('a) \<Longrightarrow> m = n"
  by (metis unat_word_of_nat_less)

text \<open>What the message grants, and what a verified instruction has done to an account.\<close>

definition write_granted :: "message \<Rightarrow> nat \<Rightarrow> bool" where
  "write_granted msg i \<longleftrightarrow> msg_is_writable msg i = (Ok True :: (bool, instruction_error) result)"

definition pre_total :: "pre_account list \<Rightarrow> nat" where
  "pre_total pres = (\<Sum>p\<leftarrow>pres. unat (pa_lamports p))"

text \<open>
  A verified instruction, against any accounts kept for it: every change is allowed, and the sums
  agree, in the natural numbers, since 256 accounts cannot overflow the \<open>u128\<close> sums.
\<close>

lemma mp_verify_policy:
  assumes "mp_verify msg ci pres accounts' rent t policy = Ok t'" and "length pres = length (unique (ci_accounts ci))"
  shows "j < length pres \<Longrightarrow> unat (unique (ci_accounts ci) ! j) < length accounts' \<and>
      change_allowed (msg_account_keys msg ! unat (ci_program_id_index ci)) (write_granted msg (unat (unique (ci_accounts ci) ! j)))
        rent policy (pa_account (pres ! j)) (snd (accounts' ! unat (unique (ci_accounts ci) ! j)))"
    and "(\<Sum>a\<leftarrow>unique (ci_accounts ci). unat (acc_lamports (snd (accounts' ! unat a)))) = pre_total pres"
proof -
  let ?pid = "msg_account_keys msg ! unat (ci_program_id_index ci)"
  let ?us = "unique (ci_accounts ci)"
  obtain p' t1 where fold: "fold_res (\<lambda>s (u, x). verify_work msg ?pid pres accounts' rent policy s u (unat x))
      (t, 0, 0) (List.enumerate 0 ?us) = Ok (t1, p', p')"
    using assms(1) unfolding mp_verify_def visit_each_account_eq ci_program_id_def
    by (auto simp: and_then_Ok_iff index_at_Ok_iff split: if_splits)
  note v = verify_fold [OF fold]
  show "unat (?us ! j) < length accounts' \<and>
      change_allowed ?pid (write_granted msg (unat (?us ! j))) rent policy (pa_account (pres ! j)) (snd (accounts' ! unat (?us ! j)))"
    if j: "j < length pres"
  proof -
    obtain w where w: "msg_is_writable msg (unat (?us ! j)) = (Ok w :: (bool, instruction_error) result)" "unat (?us ! j) < length accounts'"
      "change_allowed ?pid w rent policy (pa_account (pres ! j)) (snd (accounts' ! unat (?us ! j)))"
      using v [THEN conjunct2, THEN conjunct2] j assms(2) by auto
    have "write_granted msg (unat (?us ! j)) = w" using w(1) by (cases w) (simp_all add: write_granted_def)
    then show ?thesis using w(2,3) by simp
  qed
  have "(\<Sum>j\<leftarrow>[0..<length ?us]. unat (pa_lamports (pres ! (0 + j)))) = (\<Sum>p\<leftarrow>map ((!) pres) [0..<length pres]. unat (pa_lamports p))"
    by (simp add: assms(2) comp_def)
  then have sum: "(\<Sum>j\<leftarrow>[0..<length ?us]. unat (pa_lamports (pres ! (0 + j)))) = pre_total pres"
    by (simp only: map_nth pre_total_def)
  have bound: "pre_total pres < 2 ^ 128"
    unfolding pre_total_def using length_unique_u8 [of "ci_accounts ci"] assms(2) by (intro sum_list_u64_bound) simp
  have "(word_of_nat (pre_total pres) :: u128) = word_of_nat (\<Sum>a\<leftarrow>?us. unat (acc_lamports (snd (accounts' ! unat a))))"
    using v [THEN conjunct1] v [THEN conjunct2, THEN conjunct1] unfolding sum by simp
  then show "(\<Sum>a\<leftarrow>?us. unat (acc_lamports (snd (accounts' ! unat a)))) = pre_total pres"
    using sum_list_u64_bound [OF length_unique_u8] bound
    by (intro word_of_nat_inj_less [where 'a = 128, symmetric]) simp_all
qed

text \<open>
  A verification that fails can still take lamports for given. The program 9 owns the account 1 and
  has raised it from 10 to 20 lamports. \<open>verify_and_update\<close> refuses that, and has updated the
  account kept for the instruction: the verification at the end of the instruction accepts it.
\<close>

definition unbalanced_instruction :: compiled_instruction where
  "unbalanced_instruction = \<lparr>ci_program_id_index = 1, ci_accounts = [0], ci_data = []\<rparr>"

definition unbalanced_message :: message where
  "unbalanced_message =
     \<lparr>msg_header = \<lparr>mh_num_required_signatures = 1, mh_num_readonly_signed_accounts = 0,
        mh_num_readonly_unsigned_accounts = 0\<rparr>,
      msg_account_keys = [1, 9], msg_recent_blockhash = 0, msg_instructions = [unbalanced_instruction]\<rparr>"

lemma failed_verification_updates:
  "case mp_verify_and_update unbalanced_instruction [pre_account_new 1 (shared_new 10 0 9)] [(1, shared_new 20 0 9)] 9
       rent_default [True] execute_timings_default True
   of (result, pres, timings) \<Rightarrow>
     result = Err UnbalancedInstruction \<and> pre_total pres = 20 \<and>
     map_ok (\<lambda>_. ()) (mp_verify unbalanced_message unbalanced_instruction pres [(1, shared_new 20 0 9)] rent_default timings True) = Ok ()"
  by code_simp

end
