(* ===== verification/Invoke_Context.thy ===== *)
theory Invoke_Context
  imports Account_Verify Instruction_Bytes Program_Context
begin

text \<open>
  The context in which the runtime runs the programs of a message: the compute budget
  (\<open>sdk/src/compute_budget.rs\<close>), the stack frames (\<open>sdk/src/process_instruction.rs\<close>), the recorder of
  inner instructions (\<open>runtime/src/instruction_recorder.rs\<close>) and \<open>ThisInvokeContext\<close>
  (\<open>runtime/src/message_processor.rs\<close>). What a context never changes is \<open>invoke_env\<close>, what it
  changes is \<open>invoke_state\<close>. Accounts are shared by reference in the code: here a reference is a
  position in the store of the state. An operation gives its result and the new state, also when
  it fails. What a program can do with a context is the step relation \<open>context_step\<close>; the theorems
  are about all runs of it.
\<close>

section \<open>Compute budget\<close>

record compute_budget =
  cb_max_units :: u64
  cb_log_64_units :: u64
  cb_create_program_address_units :: u64
  cb_invoke_units :: u64
  cb_max_invoke_depth :: nat
  cb_sha256_base_cost :: u64
  cb_sha256_byte_cost :: u64
  cb_max_call_depth :: nat
  cb_stack_frame_size :: nat
  cb_log_pubkey_units :: u64
  cb_max_cpi_instruction_size :: nat
  cb_cpi_bytes_per_unit :: u64
  cb_sysvar_base_cost :: u64
  cb_secp256k1_recover_cost :: u64
  cb_heap_size :: "nat option"

definition MAX_UNITS :: u64 where
  "MAX_UNITS = 1000000"

definition compute_budget_id :: pubkey where
  "compute_budget_id = pubkey_of_base58 ''ComputeBudget111111111111111111111111111111''"

definition compute_budget_new :: compute_budget where
  "compute_budget_new =
     \<lparr>cb_max_units = 200000, cb_log_64_units = 100, cb_create_program_address_units = 1500, cb_invoke_units = 1000,
      cb_max_invoke_depth = 4, cb_sha256_base_cost = 85, cb_sha256_byte_cost = 1, cb_max_call_depth = 64,
      cb_stack_frame_size = 4096, cb_log_pubkey_units = 100, cb_max_cpi_instruction_size = 1280,
      cb_cpi_bytes_per_unit = 250, cb_sysvar_base_cost = 100, cb_secp256k1_recover_cost = 25000,
      cb_heap_size = None\<rparr>"

datatype compute_budget_instruction = RequestUnits u64

datatype transaction_error =
  TE_AccountInUse
| TE_AccountLoadedTwice
| TE_AccountNotFound
| TE_ProgramAccountNotFound
| TE_InsufficientFundsForFee
| TE_InvalidAccountForFee
| TE_AlreadyProcessed
| TE_BlockhashNotFound
| TE_InstructionError u8 instruction_error
| TE_CallChainTooDeep
| TE_MissingSignatureForFee
| TE_InvalidAccountIndex
| TE_SignatureFailure
| TE_InvalidProgramForExecution
| TE_SanitizeFailure
| TE_ClusterMaintenance
| TE_AccountBorrowOutstanding

text \<open>
  \<open>try_from_slice_unchecked\<close> (Borsh) is the parameter \<open>borsh\<close>. The transaction is its message.
\<close>

definition cb_process_transaction ::
  "(u8 list \<Rightarrow> compute_budget_instruction option) \<Rightarrow> compute_budget \<Rightarrow> message \<Rightarrow>
   (compute_budget, transaction_error) result" where
  "cb_process_transaction borsh budget msg =
     (let error = TE_InstructionError 0 InvalidInstructionData in
      fold_res (\<lambda>budget ci.
        and_then (ci_program_id ci (msg_account_keys msg)) (\<lambda>program_id.
          if program_id = compute_budget_id then
            and_then (ok_or (borsh (ci_data ci)) error) (\<lambda>instr.
              case instr of RequestUnits units \<Rightarrow>
                if units > MAX_UNITS then Err error else Ok (budget\<lparr>cb_max_units := units\<rparr>))
          else Ok budget))
        budget (take 2 (msg_instructions msg)))"

section \<open>Executors and the compute meter\<close>

text \<open>An executor is a trait object: a loader's compiled program, of which nothing is known here.\<close>

typedecl executor

record executors =
  ex_executors :: "pubkey \<rightharpoonup> executor"
  ex_is_dirty :: bool

definition executors_default :: executors where
  "executors_default = \<lparr>ex_executors = Map.empty, ex_is_dirty = False\<rparr>"

definition executors_insert :: "executors \<Rightarrow> pubkey \<Rightarrow> executor \<Rightarrow> executors" where
  "executors_insert ex key x = ex\<lparr>ex_executors := (ex_executors ex)(key \<mapsto> x), ex_is_dirty := True\<rparr>"

definition executors_get :: "executors \<Rightarrow> pubkey \<Rightarrow> executor option" where
  "executors_get ex key = ex_executors ex key"

definition meter_consume :: "u64 \<Rightarrow> u64 \<Rightarrow> (unit, instruction_error) result \<times> u64" where
  "meter_consume remaining amount =
     (let exceeded = remaining < amount; remaining' = saturating_sub remaining amount
      in (if exceeded then Err ComputationalBudgetExceeded else Ok (), remaining'))"

section \<open>Frames, environment, state\<close>

record stack_frame =
  sf_key :: pubkey
  sf_keyed_accounts :: "keyed_account list"
  sf_range_start :: nat
  sf_range_end :: nat

definition stack_frame_new :: "pubkey \<Rightarrow> keyed_account list \<Rightarrow> stack_frame" where
  "stack_frame_new key kas =
     \<lparr>sf_key = key, sf_keyed_accounts = kas, sf_range_start = 0, sf_range_end = length kas\<rparr>"

text \<open>Accounts by reference: a key and a position in the store.\<close>

type_synonym account_refs = "(pubkey \<times> nat) list"

definition deref :: "store \<Rightarrow> account_refs \<Rightarrow> loaded_accounts" where
  "deref st refs = map (\<lambda>(key, i). (key, st ! i)) refs"

text \<open>\<open>ie_load_account\<close> is \<open>account_db.load_with_fixed_root\<close> for the ancestors of the bank.\<close>

record invoke_env =
  ie_rent :: rent
  ie_accounts :: account_refs
  ie_compute_budget :: compute_budget
  ie_feature_active :: "feature \<Rightarrow> bool"
  ie_load_account :: "pubkey \<Rightarrow> account option"

record invoke_state =
  is_invoke_stack :: "stack_frame list"
  is_pre_accounts :: "pre_account list"
  is_store :: store
  is_remaining :: u64
  is_executors :: executors
  is_recorder :: "instruction list option"
  is_timings :: execute_timings
  is_sysvars :: "(pubkey \<times> u8 list option) list"

type_synonym 'a op = "invoke_state \<Rightarrow> ('a, instruction_error) result \<times> invoke_state"

type_synonym processor = "invoke_env \<Rightarrow> pubkey \<Rightarrow> u8 list \<Rightarrow> unit op"

fun bind_op :: "'a op \<Rightarrow> ('a \<Rightarrow> 'b op) \<Rightarrow> 'b op" where
  "bind_op f g s =
     (case f s of (Ok a, s') \<Rightarrow> g a s' | (Err e, s') \<Rightarrow> (Err e, s') | (Panic, s') \<Rightarrow> (Panic, s'))"

section \<open>The operations of the context\<close>

definition push :: "invoke_env \<Rightarrow> pubkey \<Rightarrow> (bool \<times> bool \<times> pubkey \<times> nat) list \<Rightarrow> unit op" where
  "push env key keyed_accounts s =
     (if length (is_invoke_stack s) > cb_max_invoke_depth (ie_compute_budget env) then (Err CallDepth, s)
      else
        let contains = list_ex (\<lambda>frame. sf_key frame = key) (is_invoke_stack s);
            is_last = (case last_opt (is_invoke_stack s) of Some frame \<Rightarrow> sf_key frame = key | None \<Rightarrow> False)
        in
        if contains \<and> \<not> is_last then (Err ReentrancyNotAllowed, s)
        else
          case those (map (\<lambda>(is_signer, is_writable, search_key, i).
                 map_option (\<lambda>index. (is_signer, is_writable, fst (ie_accounts env ! index), i))
                   (position (\<lambda>(key, _). key = search_key) (ie_accounts env))) keyed_accounts)
          of None \<Rightarrow> (Err InvalidArgument, s)
           | Some kas \<Rightarrow>
               (Ok (), s\<lparr>is_invoke_stack := is_invoke_stack s @ [stack_frame_new key (create_keyed_accounts_unified kas)]\<rparr>))"

definition pop :: "invoke_state \<Rightarrow> invoke_state" where
  "pop s = s\<lparr>is_invoke_stack := butlast (is_invoke_stack s)\<rparr>"

definition invoke_depth :: "invoke_state \<Rightarrow> nat" where
  "invoke_depth s = length (is_invoke_stack s)"

definition ctx_verify_and_update ::
  "invoke_env \<Rightarrow> compiled_instruction \<Rightarrow> account_refs \<Rightarrow> bool list \<Rightarrow> unit op" where
  "ctx_verify_and_update env ci accounts write_privileges s =
     (case last_opt (is_invoke_stack s) of
        None \<Rightarrow> (Err CallDepth, s)
      | Some frame \<Rightarrow>
          let (result, pre_accounts, timings) =
                mp_verify_and_update ci (is_pre_accounts s) (deref (is_store s) accounts) (sf_key frame) (ie_rent env)
                  write_privileges (is_timings s) (ie_feature_active env Feature_updated_verify_policy)
          in (result, s\<lparr>is_pre_accounts := pre_accounts, is_timings := timings\<rparr>))"

definition get_caller :: "invoke_state \<Rightarrow> (pubkey, instruction_error) result" where
  "get_caller s = ok_or (map_option sf_key (last_opt (is_invoke_stack s))) CallDepth"

definition remove_first_keyed_account :: "unit op" where
  "remove_first_keyed_account s =
     (case last_opt (is_invoke_stack s) of
        None \<Rightarrow> (Err CallDepth, s)
      | Some frame \<Rightarrow>
          (Ok (), s\<lparr>is_invoke_stack := butlast (is_invoke_stack s) @
             [frame\<lparr>sf_range_start := min (sf_range_start frame + 1) (2 ^ 64 - 1)\<rparr>]\<rparr>))"

definition get_keyed_accounts :: "invoke_state \<Rightarrow> (keyed_account list, instruction_error) result" where
  "get_keyed_accounts s =
     (case last_opt (is_invoke_stack s) of
        None \<Rightarrow> Err CallDepth
      | Some frame \<Rightarrow>
          if sf_range_start frame \<le> sf_range_end frame \<and> sf_range_end frame \<le> length (sf_keyed_accounts frame)
          then Ok (drop (sf_range_start frame) (take (sf_range_end frame) (sf_keyed_accounts frame)))
          else Panic)"

definition ctx_consume :: "u64 \<Rightarrow> unit op" where
  "ctx_consume amount s =
     (let (r, remaining) = meter_consume (is_remaining s) amount in (r, s\<lparr>is_remaining := remaining\<rparr>))"

definition add_executor :: "pubkey \<Rightarrow> executor \<Rightarrow> invoke_state \<Rightarrow> invoke_state" where
  "add_executor key x s = s\<lparr>is_executors := executors_insert (is_executors s) key x\<rparr>"

definition get_executor :: "invoke_state \<Rightarrow> pubkey \<Rightarrow> executor option" where
  "get_executor s key = executors_get (is_executors s) key"

definition record_instruction :: "instruction \<Rightarrow> invoke_state \<Rightarrow> invoke_state" where
  "record_instruction ix s = s\<lparr>is_recorder := map_option (\<lambda>ixs. ixs @ [ix]) (is_recorder s)\<rparr>"

definition recorder_compile_instructions ::
  "instruction list \<Rightarrow> message \<Rightarrow> (compiled_instruction list, 'e) result" where
  "recorder_compile_instructions ixs msg = map_res (\<lambda>ix. compile_instruction ix (msg_account_keys msg)) ixs"

definition get_account :: "invoke_env \<Rightarrow> pubkey \<Rightarrow> nat option" where
  "get_account env key = map_option snd (find (\<lambda>(k, _). k = key) (ie_accounts env))"

definition update_timing :: "u64 \<Rightarrow> u64 \<Rightarrow> u64 \<Rightarrow> u64 \<Rightarrow> invoke_state \<Rightarrow> invoke_state" where
  "update_timing serialize_us create_vm_us execute_us deserialize_us s =
     (let t = is_timings s in
      s\<lparr>is_timings := t\<lparr>et_serialize_us := et_serialize_us t + serialize_us,
          et_create_vm_us := et_create_vm_us t + create_vm_us,
          et_execute_us := et_execute_us t + execute_us,
          et_deserialize_us := et_deserialize_us t + deserialize_us\<rparr>\<rparr>)"

definition get_sysvar_data :: "invoke_env \<Rightarrow> pubkey \<Rightarrow> invoke_state \<Rightarrow> u8 list option \<times> invoke_state" where
  "get_sysvar_data env key s =
     (case find (\<lambda>(k, sysvar). k = key \<and> sysvar \<noteq> None) (is_sysvars s) of
        Some (_, sysvar) \<Rightarrow> (sysvar, s)
      | None \<Rightarrow>
          let result = map_option acc_data (ie_load_account env key)
          in (result, s\<lparr>is_sysvars := is_sysvars s @ [(key, result)]\<rparr>))"

definition get_sysvar :: "'t codec \<Rightarrow> invoke_env \<Rightarrow> pubkey \<Rightarrow> 't op" where
  "get_sysvar c env key s =
     (let (data, s') = get_sysvar_data env key s
      in (and_then (ok_or data UnsupportedSysvar) (\<lambda>d. ok_or (bincode_deserialize c d) UnsupportedSysvar), s'))"

text \<open>\<open>MessageProcessor::create_keyed_accounts\<close> and \<open>ThisInvokeContext::new\<close>.\<close>

definition create_keyed_accounts ::
  "message \<Rightarrow> compiled_instruction \<Rightarrow> account_refs \<Rightarrow> account_refs \<Rightarrow>
   ((bool \<times> bool \<times> pubkey \<times> nat) list, 'e) result" where
  "create_keyed_accounts msg ci executable_accounts accounts =
     and_then
       (map_res (\<lambda>index.
          and_then (msg_is_writable msg (unat index)) (\<lambda>is_writable.
          and_then (index_at accounts (unat index)) (\<lambda>(key, i).
            Ok (msg_is_signer msg (unat index), is_writable, key, i)))) (ci_accounts ci))
       (\<lambda>kas. Ok (map (\<lambda>(key, i). (False, False, key, i)) executable_accounts @ kas))"

definition invoke_context_new ::
  "pubkey \<Rightarrow> rent \<Rightarrow> message \<Rightarrow> compiled_instruction \<Rightarrow> account_refs \<Rightarrow> account_refs \<Rightarrow> store \<Rightarrow> compute_budget \<Rightarrow>
   u64 \<Rightarrow> executors \<Rightarrow> instruction list option \<Rightarrow> (feature \<Rightarrow> bool) \<Rightarrow> (pubkey \<Rightarrow> account option) \<Rightarrow>
   (invoke_env \<times> invoke_state, instruction_error) result" where
  "invoke_context_new program_id rent msg ci executable_accounts accounts st budget remaining ex recorder
     feature_active load_account =
     (let pre_accounts = create_pre_accounts msg ci (deref st accounts) in
      and_then (create_keyed_accounts msg ci executable_accounts accounts) (\<lambda>keyed_accounts.
        Ok (\<lparr>ie_rent = rent, ie_accounts = accounts, ie_compute_budget = budget,
             ie_feature_active = feature_active, ie_load_account = load_account\<rparr>,
            \<lparr>is_invoke_stack = [stack_frame_new program_id (create_keyed_accounts_unified keyed_accounts)],
             is_pre_accounts = pre_accounts, is_store = st,
             is_remaining = (if feature_active Feature_tx_wide_compute_cap then remaining else cb_max_units budget),
             is_executors = ex, is_recorder = recorder, is_timings = execute_timings_default,
             is_sysvars = []\<rparr>)))"

section \<open>What a program can do with a context\<close>

text \<open>
  A program works on the context with its operations, in any order and with any arguments. It writes
  to the accounts at the positions \<open>W\<close> that it was given and to its own memory, the positions from
  \<open>base\<close> on, which it allocates and frees: there a caller keeps the copies of the accounts that it
  passes on.
\<close>

inductive context_step :: "invoke_env \<Rightarrow> nat \<Rightarrow> nat set \<Rightarrow> invoke_state \<Rightarrow> invoke_state \<Rightarrow> bool"
  for env :: invoke_env and base :: nat and W :: "nat set" where
  step_push: "context_step env base W s (snd (push env key kas s))"
| step_pop: "context_step env base W s (pop s)"
| step_verify_and_update:
    "context_step env base W s (snd (ctx_verify_and_update env ci accounts write_privileges s))"
| step_remove_first: "context_step env base W s (snd (remove_first_keyed_account s))"
| step_consume: "context_step env base W s (snd (ctx_consume amount s))"
| step_add_executor: "context_step env base W s (add_executor key x s)"
| step_record: "context_step env base W s (record_instruction ix s)"
| step_timing: "context_step env base W s (update_timing t1 t2 t3 t4 s)"
| step_sysvar: "context_step env base W s (snd (get_sysvar_data env key s))"
| step_write:
    "i < length (is_store s) \<Longrightarrow> i \<in> W \<or> base \<le> i \<Longrightarrow>
     context_step env base W s (s\<lparr>is_store := (is_store s)[i := a]\<rparr>)"
| step_alloc: "context_step env base W s (s\<lparr>is_store := is_store s @ as\<rparr>)"
| step_free: "base \<le> n \<Longrightarrow> context_step env base W s (s\<lparr>is_store := take n (is_store s)\<rparr>)"

abbreviation context_run :: "invoke_env \<Rightarrow> nat \<Rightarrow> nat set \<Rightarrow> invoke_state \<Rightarrow> invoke_state \<Rightarrow> bool" where
  "context_run env base W \<equiv> (context_step env base W)\<^sup>*\<^sup>*"

subsection \<open>The invocation stack\<close>

definition calls :: "invoke_state \<Rightarrow> pubkey list" where
  "calls s = map sf_key (is_invoke_stack s)"

text \<open>A program occurs again only directly above itself.\<close>

definition no_reentry :: "pubkey list \<Rightarrow> bool" where
  "no_reentry ks \<longleftrightarrow> (\<forall>i j k. i \<le> k \<longrightarrow> k \<le> j \<longrightarrow> j < length ks \<longrightarrow> ks ! i = ks ! j \<longrightarrow> ks ! k = ks ! i)"

lemma no_reentry_butlast: "no_reentry ks \<Longrightarrow> no_reentry (butlast ks)"
  by (auto simp: no_reentry_def nth_butlast)

lemma no_reentry_snoc:
  assumes "no_reentry ks" and "k \<in> set ks \<Longrightarrow> last ks = k"
  shows "no_reentry (ks @ [k])"
  unfolding no_reentry_def
proof (intro allI impI)
  fix i j m assume *: "i \<le> m" "m \<le> j" "j < length (ks @ [k])" "(ks @ [k]) ! i = (ks @ [k]) ! j"
  show "(ks @ [k]) ! m = (ks @ [k]) ! i"
  proof (cases "j < length ks")
    case True
    then show ?thesis using * assms(1) by (auto simp: no_reentry_def nth_append)
  next
    case False
    then have j: "j = length ks" using *(3) by simp
    show ?thesis
    proof (cases "m < length ks")
      case True
      then have i: "i < length ks" "ks ! i = k" using * j by (simp_all add: nth_append)
      then have "last ks = k" using assms(2) nth_mem by blast
      then have "ks ! i = ks ! (length ks - 1)" using i by (metis last_conv_nth length_0_conv not_less0)
      then have "ks ! m = ks ! i" using assms(1) *(1) True i(1) unfolding no_reentry_def
        by (metis Suc_pred' diff_less length_greater_0_conv less_Suc_eq_le list.size(3) not_less0 zero_less_one)
      then show ?thesis using i True by (simp add: nth_append)
    next
      case False
      then show ?thesis using * j by simp
    qed
  qed
qed

lemma calls_simps [simp]:
  "calls (pop s) = butlast (calls s)"
  "calls (snd (ctx_verify_and_update env ci accounts ws s)) = calls s"
  "calls (snd (remove_first_keyed_account s)) = calls s"
  "calls (snd (ctx_consume amount s)) = calls s"
  "calls (add_executor key x s) = calls s"
  "calls (record_instruction ix s) = calls s"
  "calls (update_timing t1 t2 t3 t4 s) = calls s"
  "calls (snd (get_sysvar_data env key s)) = calls s"
  "calls (s\<lparr>is_store := st\<rparr>) = calls s"
proof -
  show "calls (snd (remove_first_keyed_account s)) = calls s"
    by (cases "is_invoke_stack s" rule: rev_cases) (simp_all add: calls_def remove_first_keyed_account_def)
qed (auto simp: calls_def pop_def map_butlast ctx_verify_and_update_def ctx_consume_def add_executor_def record_instruction_def
    update_timing_def get_sysvar_data_def Let_def split: option.splits result.splits prod.splits)

lemma calls_push:
  "calls (snd (push env key kas s)) = calls s \<or>
   calls (snd (push env key kas s)) = calls s @ [key] \<and> length (calls s) \<le> cb_max_invoke_depth (ie_compute_budget env) \<and>
     (key \<in> set (calls s) \<longrightarrow> last (calls s) = key)"
proof -
  let ?st = "is_invoke_stack s"
  have contains: "list_ex (\<lambda>frame. sf_key frame = key) ?st \<longleftrightarrow> key \<in> set (calls s)"
    by (auto simp: list_ex_iff calls_def)
  have last: "(case last_opt ?st of Some frame \<Rightarrow> sf_key frame = key | None \<Rightarrow> False) \<longleftrightarrow> ?st \<noteq> [] \<and> last (calls s) = key"
    by (cases ?st rule: rev_cases) (auto simp: calls_def)
  show ?thesis unfolding push_def contains last Let_def
    by (auto simp: calls_def stack_frame_new_def split: option.splits)
qed

text \<open>
  C10: The invocation stack is bounded and free of reentrancy. Whatever sequence of operations the
  programs perform on a context that starts with one frame, with whatever arguments, and whether
  they succeed or not, the stack never holds more than \<open>max_invoke_depth + 1\<close> frames, and a program
  that is already on the stack occurs again only directly above itself.
\<close>

theorem invoke_stack_bounded:
  assumes "invoke_context_new program_id rent msg ci ex_accounts accounts st budget remaining ex recorder fa la = Ok (env, s)"
    and "context_run env base W s s'"
  shows "invoke_depth s' \<le> cb_max_invoke_depth budget + 1 \<and> no_reentry (map sf_key (is_invoke_stack s'))"
proof -
  have env: "ie_compute_budget env = budget" and s: "length (calls s) = 1"
    using assms(1) by (auto simp: invoke_context_new_def Let_def and_then_Ok_iff calls_def)
  have "length (calls s') \<le> cb_max_invoke_depth budget + 1 \<and> no_reentry (calls s')"
    using assms(2)
  proof (induction rule: rtranclp_induct)
    case base
    then show ?case using s by (auto simp: no_reentry_def)
  next
    case (step t u)
    note IH = conjunct1 [OF step.IH] conjunct2 [OF step.IH]
    from step.hyps(2) show ?case
    proof cases
      case (step_push key kas)
      from calls_push [of env key kas t] show ?thesis
        using IH no_reentry_snoc [of "calls t" key] by (auto simp: step_push env)
    next
      case step_pop
      then show ?thesis using IH no_reentry_butlast by auto
    qed (use IH in simp_all)
  qed
  then show ?thesis by (simp add: invoke_depth_def calls_def)
qed

subsection \<open>The lamports of the accounts before the instruction\<close>

lemma change_allowed_lamports:
  "change_allowed program_id w rent policy pre post \<Longrightarrow> \<not> w \<or> acc_executable pre \<Longrightarrow> acc_lamports post = acc_lamports pre"
  by (auto simp: change_allowed_def)

lemma position_bound: "position P xs = Some j \<Longrightarrow> j < length xs"
  by (induction xs arbitrary: j) (auto split: if_splits)

text \<open>One visit changes the total by what it adds to the two sums.\<close>

lemma update_fold:
  assumes "fold_res (\<lambda>s (u, x). update_work accounts program_id rent ws policy s u (unat x))
      (pres, t, p, q) (List.enumerate k (xs :: u8 list)) = Ok (pres', t', p', q')"
  shows "\<exists>P Q. p' = p + word_of_nat P \<and> q' = q + word_of_nat Q \<and> pre_total pres' + P = pre_total pres + Q \<and>
    P \<le> length xs * 2 ^ 64 \<and> Q \<le> length xs * 2 ^ 64 \<and> map pa_key pres' = map pa_key pres"
  using assms
proof (induction xs arbitrary: k pres t p q)
  case Nil
  then show ?case by (auto intro!: exI [of _ 0])
next
  case (Cons x xs)
  obtain key a where a: "accounts ! unat x = (key, a)" by fastforce
  define w where "w = ws ! unat x"
  obtain j t1 where j: "position (\<lambda>p. key = pa_key p) pres = Some j"
    and v: "pre_account_verify (pres ! j) program_id w rent a t False policy = Ok t1"
    using Cons.prems a by (auto simp: update_work_def Let_def w_def and_then_Ok_iff map_err_Ok_iff split: if_splits option.splits)
  define pres1 where "pres1 = (if w \<and> \<not> pa_executable (pres ! j) then pres[j := pre_account_update (pres ! j) a] else pres)"
  have jl: "j < length pres" using j by (rule position_bound)
  have ca: "change_allowed program_id w rent policy (pa_account (pres ! j)) a"
    by (rule verify_ok_iff [THEN iffD1], rule exI, rule v)
  have tot1: "pre_total pres1 + unat (pa_lamports (pres ! j)) = pre_total pres + unat (acc_lamports a)"
  proof (cases "w \<and> \<not> pa_executable (pres ! j)")
    case True
    have "pa_lamports (pre_account_update (pres ! j) a) = acc_lamports a"
      by (simp add: pa_lamports_def pre_account_update_def)
    then show ?thesis
      using True sum_list_update_nat [OF jl, of "\<lambda>p. unat (pa_lamports p)" "pre_account_update (pres ! j) a"]
      by (simp add: pre_total_def pres1_def)
  next
    case False
    then show ?thesis using change_allowed_lamports [OF ca] by (auto simp: pres1_def pa_lamports_def pa_executable_def)
  qed
  have keys1: "map pa_key pres1 = map pa_key pres"
    using jl by (auto simp: pres1_def map_update pre_account_update_def intro!: list_update_same_conv [THEN iffD2])
  have rest: "fold_res (\<lambda>s (u, x). update_work accounts program_id rent ws policy s u (unat x))
      (pres1, t1, p + ucast (pa_lamports (pres ! j)), q + ucast (acc_lamports a)) (List.enumerate (Suc k) xs) = Ok (pres', t', p', q')"
    using Cons.prems a j v
    by (auto simp: update_work_def [of accounts program_id rent ws policy, THEN fun_cong, of "(pres, _)"] Let_def w_def pres1_def
        split: if_splits)
  have "\<exists>P Q. p' = (p + ucast (pa_lamports (pres ! j))) + word_of_nat P \<and> q' = (q + ucast (acc_lamports a)) + word_of_nat Q \<and>
    pre_total pres' + P = pre_total pres1 + Q \<and>
    P \<le> length xs * 2 ^ 64 \<and> Q \<le> length xs * 2 ^ 64 \<and> map pa_key pres' = map pa_key pres1"
    by (rule Cons.IH [OF rest])
  then obtain P Q where PQ: "p' = (p + ucast (pa_lamports (pres ! j))) + word_of_nat P"
    "q' = (q + ucast (acc_lamports a)) + word_of_nat Q" "pre_total pres' + P = pre_total pres1 + Q"
    "P \<le> length xs * 2 ^ 64" "Q \<le> length xs * 2 ^ 64" "map pa_key pres' = map pa_key pres1" by blast
  have "p' = p + word_of_nat (unat (pa_lamports (pres ! j)) + P)" "q' = q + word_of_nat (unat (acc_lamports a) + Q)"
    unfolding PQ(1,2) ucast_u128 of_nat_add by (rule add.assoc)+
  moreover have "pre_total pres' + (unat (pa_lamports (pres ! j)) + P) = pre_total pres + (unat (acc_lamports a) + Q)"
    using tot1 PQ(3) by linarith
  moreover have "unat (pa_lamports (pres ! j)) + P \<le> length (x # xs) * 2 ^ 64" "unat (acc_lamports a) + Q \<le> length (x # xs) * 2 ^ 64"
    using PQ(4,5) unat_u64_bound [of "pa_lamports (pres ! j)"] unat_u64_bound [of "acc_lamports a"] by simp_all
  ultimately show ?case using PQ(6) keys1 by metis
qed

lemma verify_and_update_total:
  assumes "mp_verify_and_update ci pres accounts program_id rent ws t policy = (Ok (), pres', t')"
  shows "pre_total pres' = pre_total pres \<and> map pa_key pres' = map pa_key pres"
proof -
  let ?us = "unique (ci_accounts ci)"
  obtain p' where fold: "fold_res (\<lambda>s (u, x). update_work accounts program_id rent ws policy s u (unat x))
      (pres, t, 0, 0) (List.enumerate 0 ?us) = Ok (pres', t', p', p')"
    using assms unfolding mp_verify_and_update_def visit_each_account_eq
    by (auto split: if_splits result.splits)
  obtain P Q where PQ: "p' = 0 + word_of_nat P" "p' = 0 + word_of_nat Q" "pre_total pres' + P = pre_total pres + Q"
    "P \<le> length ?us * 2 ^ 64" "Q \<le> length ?us * 2 ^ 64" "map pa_key pres' = map pa_key pres"
    using update_fold [OF fold] by blast
  have "length ?us * 2 ^ 64 < (2 :: nat) ^ 128" using length_unique_u8 [of "ci_accounts ci"] by simp
  then have "P = Q" using PQ(1,2,4,5) by (intro word_of_nat_inj_less [where 'a = 128]) simp_all
  then show ?thesis using PQ(3,6) by simp
qed

subsection \<open>What every run keeps\<close>

lemma state_simps [simp]:
  "is_store (snd (push env key kas s)) = is_store s" "is_pre_accounts (snd (push env key kas s)) = is_pre_accounts s"
  "is_store (pop s) = is_store s" "is_pre_accounts (pop s) = is_pre_accounts s"
  "is_store (snd (remove_first_keyed_account s)) = is_store s"
  "is_pre_accounts (snd (remove_first_keyed_account s)) = is_pre_accounts s"
  "is_store (snd (ctx_consume amount s)) = is_store s" "is_pre_accounts (snd (ctx_consume amount s)) = is_pre_accounts s"
  "is_store (add_executor key x s) = is_store s" "is_pre_accounts (add_executor key x s) = is_pre_accounts s"
  "is_store (record_instruction ix s) = is_store s" "is_pre_accounts (record_instruction ix s) = is_pre_accounts s"
  "is_store (update_timing t1 t2 t3 t4 s) = is_store s" "is_pre_accounts (update_timing t1 t2 t3 t4 s) = is_pre_accounts s"
  "is_store (snd (get_sysvar_data env key s)) = is_store s"
  "is_pre_accounts (snd (get_sysvar_data env key s)) = is_pre_accounts s"
  "is_store (snd (ctx_verify_and_update env ci accounts ws s)) = is_store s"
  by (auto simp: push_def pop_def remove_first_keyed_account_def ctx_consume_def add_executor_def record_instruction_def
      update_timing_def get_sysvar_data_def ctx_verify_and_update_def Let_def split: option.splits result.splits prod.splits)

lemma ctx_verify_and_update_total:
  assumes "ctx_verify_and_update env ci accounts ws s = (Ok (), s')"
  shows "pre_total (is_pre_accounts s') = pre_total (is_pre_accounts s) \<and>
    map pa_key (is_pre_accounts s') = map pa_key (is_pre_accounts s) \<and> is_store s' = is_store s"
  using assms
  by (auto simp: ctx_verify_and_update_def Let_def dest!: verify_and_update_total split: option.splits prod.splits)

text \<open>
  A verification that fails keeps what it had already updated. The sum over the accounts kept for
  the instruction is not what it was any more, and no later check compares with the accounts that
  the instruction began with. A program that goes on after such a failure can leave lamports that
  came from nowhere: conservation asks of the programs that they give up, as the system calls of
  the loaders and \<open>native_invoke\<close> do. A run is verified when each of its verifications succeeds or
  updates nothing.
\<close>

inductive verified_step :: "invoke_env \<Rightarrow> nat \<Rightarrow> nat set \<Rightarrow> invoke_state \<Rightarrow> invoke_state \<Rightarrow> bool"
  for env :: invoke_env and base :: nat and W :: "nat set" where
  verified_ok: "ctx_verify_and_update env ci accounts ws s = (Ok (), s') \<Longrightarrow> verified_step env base W s s'"
| verified_other: "context_step env base W s s' \<Longrightarrow> is_pre_accounts s' = is_pre_accounts s \<Longrightarrow> verified_step env base W s s'"

abbreviation verified_run :: "invoke_env \<Rightarrow> nat \<Rightarrow> nat set \<Rightarrow> invoke_state \<Rightarrow> invoke_state \<Rightarrow> bool" where
  "verified_run env base W \<equiv> (verified_step env base W)\<^sup>*\<^sup>*"

lemma verified_step_context: "verified_step env base W s s' \<Longrightarrow> context_step env base W s s'"
  by (erule verified_step.cases) (metis snd_conv step_verify_and_update)+

text \<open>
  A verified run leaves the total of the accounts before the instruction, their keys, and every
  account that it must not write to.
\<close>

definition run_keeps :: "nat \<Rightarrow> nat set \<Rightarrow> invoke_state \<Rightarrow> invoke_state \<Rightarrow> bool" where
  "run_keeps base W s s' \<longleftrightarrow>
     base \<le> length (is_store s') \<and>
     (\<forall>i<base. i \<notin> W \<longrightarrow> is_store s' ! i = is_store s ! i) \<and>
     pre_total (is_pre_accounts s') = pre_total (is_pre_accounts s) \<and>
     map pa_key (is_pre_accounts s') = map pa_key (is_pre_accounts s)"

lemma verified_run_keeps:
  assumes "verified_run env base W s s'" and "base \<le> length (is_store s)"
  shows "run_keeps base W s s'"
  using assms(1)
proof (induction rule: rtranclp_induct)
  case base
  then show ?case using assms(2) by (simp add: run_keeps_def)
next
  case (step t u)
  from step.hyps(2) show ?case
  proof cases
    case (verified_ok ci accounts ws)
    then show ?thesis using step.IH ctx_verify_and_update_total [OF verified_ok] by (simp add: run_keeps_def)
  next
    case verified_other
    from verified_other(1) have "run_keeps base W s u"
      if "is_pre_accounts u = is_pre_accounts t"
    proof cases
      case (step_write i a)
      then show ?thesis using step.IH by (auto simp: run_keeps_def nth_list_update)
    qed (use step.IH that in \<open>simp_all add: run_keeps_def nth_append\<close>)
    then show ?thesis using verified_other(2) .
  qed
qed

section \<open>Witness\<close>

definition demo_budget :: compute_budget where
  "demo_budget = compute_budget_new\<lparr>cb_max_invoke_depth := 1\<rparr>"

text \<open>A call on top of the first program, after which another one is refused.\<close>

theorem invoke_stack_bounded_witness:
  "\<exists>env s. invoke_context_new 30 rent_default demo_message (msg_instructions demo_message ! 0) [(30, 0)]
       [(5, 1), (10, 2), (20, 3), (30, 0)] (replicate 4 (shared_new 7 0 0)) demo_budget 0 executors_default None
       (\<lambda>_. True) (\<lambda>_. None) = Ok (env, s) \<and>
     invoke_depth (snd (push env 20 [] (snd (push env 10 [(False, True, 20, 3)] s)))) \<le> 2 \<and>
     no_reentry (map sf_key (is_invoke_stack (snd (push env 20 [] (snd (push env 10 [(False, True, 20, 3)] s))))))"
proof -
  let ?new = "invoke_context_new 30 rent_default demo_message (msg_instructions demo_message ! 0) [(30, 0)]
       [(5, 1), (10, 2), (20, 3), (30, 0)] (replicate 4 (shared_new 7 0 0)) demo_budget 0 executors_default None
       (\<lambda>_. True) (\<lambda>_. None)"
  have "map_ok (\<lambda>_. ()) ?new = Ok ()"
    by (simp add: invoke_context_new_def create_keyed_accounts_def demo_message_def msg_is_writable_def index_at_def Let_def)
  then obtain env s where new: "?new = Ok (env, s)" by (auto simp: map_ok_Ok_iff)
  have "context_run env 4 {} s (snd (push env 20 [] (snd (push env 10 [(False, True, 20, 3)] s))))"
    by (rule rtranclp.rtrancl_into_rtrancl, rule r_into_rtranclp, rule step_push, rule step_push)
  from invoke_stack_bounded [OF new this] new show ?thesis by (auto simp: demo_budget_def)
qed

end
