(* ===== verification/Message_Processor.thy ===== *)
theory Message_Processor
  imports Invoke_Context
begin

text \<open>
  The message processor (\<open>runtime/src/message_processor.rs\<close>): dispatch of an instruction to a builtin
  program or a loader, cross-program invocation, and the execution of a message. The programs are
  parameters: functions from a context to a result and a new context. So is \<open>native_loader\<close>, the
  dynamic loader (\<open>runtime/src/native_loader.rs\<close>). Logging is left out.

  The theorems: whatever the programs do with their contexts, as long as they give up when a
  verification has failed, a message that is processed keeps the lamports of its accounts and
  changes no account that its instructions do not name; an invoked program gets no privileges that
  its caller does not have, when the compilation of the message does not mix them up. Both
  conditions are needed, and examples show it.
\<close>

section \<open>Dispatch\<close>

type_synonym programs = "(pubkey \<times> processor) list"

definition add_program :: "programs \<Rightarrow> pubkey \<Rightarrow> processor \<Rightarrow> programs" where
  "add_program ps program_id p =
     (case position (\<lambda>(key, _). program_id = key) ps of
        Some i \<Rightarrow> ps[i := (fst (ps ! i), p)]
      | None \<Rightarrow> ps @ [(program_id, p)])"

definition find_program :: "programs \<Rightarrow> pubkey \<Rightarrow> processor option" where
  "find_program ps key = map_option snd (find (\<lambda>(k, _). k = key) ps)"

definition process_instruction :: "programs \<Rightarrow> processor \<Rightarrow> processor" where
  "process_instruction ps native_loader env program_id instruction_data s =
     (case get_keyed_accounts s of
        Err e \<Rightarrow> (Err e, s)
      | Panic \<Rightarrow> (Panic, s)
      | Ok [] \<Rightarrow> (Err UnsupportedProgramId, s)
      | Ok (root_account # _) \<Rightarrow>
          if ka_owner (is_store s) root_account = native_loader_id then
            (case find_program ps (ka_key root_account) of
               Some p \<Rightarrow> bind_op remove_first_keyed_account (\<lambda>_. p env program_id instruction_data) s
             | None \<Rightarrow> native_loader env native_loader_id instruction_data s)
          else
            (case find_program ps (ka_owner (is_store s) root_account) of
               Some p \<Rightarrow> p env program_id instruction_data s
             | None \<Rightarrow> (Err UnsupportedProgramId, s)))"

section \<open>Cross-program invocation\<close>

definition check_privileges ::
  "keyed_account list \<Rightarrow> pubkey list \<Rightarrow> unit \<Rightarrow> account_meta \<Rightarrow> (unit, instruction_error) result" where
  "check_privileges keyed_accounts signers _ meta =
     (case find (\<lambda>ka. am_pubkey meta = ka_key ka) keyed_accounts of
        None \<Rightarrow> Err MissingAccount
      | Some ka \<Rightarrow>
          if am_is_writable meta \<and> \<not> ka_is_writable ka then Err PrivilegeEscalation
          else if am_is_signer meta \<and> \<not> (signer_key ka \<noteq> None \<or> am_pubkey meta \<in> set signers) then Err PrivilegeEscalation
          else Ok ())"

definition create_message ::
  "store \<Rightarrow> instruction \<Rightarrow> keyed_account list \<Rightarrow> pubkey list \<Rightarrow> (message \<times> pubkey \<times> nat, instruction_error) result" where
  "create_message st instr keyed_accounts signers =
     and_then (fold_res (check_privileges keyed_accounts signers) () (ix_accounts instr)) (\<lambda>_.
     let program_id = ix_program_id instr in
     case find (\<lambda>ka. program_id = ka_key ka) keyed_accounts of
       None \<Rightarrow> Err MissingAccount
     | Some ka \<Rightarrow>
         if \<not> ka_executable st ka then Err AccountNotExecutable
         else
           and_then (message_new [instr] None) (\<lambda>msg.
           and_then (index_at (msg_instructions msg) 0) (\<lambda>ci.
             Ok (msg, program_id, unat (ci_program_id_index ci)))))"

definition process_cross_program_instruction ::
  "programs \<Rightarrow> processor \<Rightarrow> invoke_env \<Rightarrow> message \<Rightarrow> account_refs \<Rightarrow> account_refs \<Rightarrow> bool list \<Rightarrow> unit op" where
  "process_cross_program_instruction ps native_loader env msg executable_accounts accounts caller_write_privileges s =
     (case msg_instructions msg of
        [] \<Rightarrow> (Err GenericError, s)
      | ci # _ \<Rightarrow>
          bind_op (Pair (ci_program_id ci (msg_account_keys msg))) (\<lambda>program_id.
          bind_op (ctx_verify_and_update env ci accounts caller_write_privileges) (\<lambda>_.
          bind_op (Pair (create_keyed_accounts msg ci executable_accounts accounts)) (\<lambda>keyed_accounts.
          bind_op (push env program_id keyed_accounts) (\<lambda>_ s1.
            let (result, s2) = process_instruction (fold (\<lambda>(k, p) qs. add_program qs k p) ps []) native_loader env
                                 program_id (ci_data ci) s1;
                (result, s3) =
                  (if result = Ok () then
                     bind_op (Pair (map_res (msg_is_writable msg) [0..<length (msg_account_keys msg)])) (\<lambda>write_privileges.
                       ctx_verify_and_update env ci accounts write_privileges) s2
                   else (result, s2))
            in (result, if result = Panic then s3 else pop s3))))) s)"

datatype upgradeable_loader_state =
  ULS_Uninitialized
| ULS_Buffer "pubkey option"
| ULS_Program pubkey
| ULS_ProgramData u64 "pubkey option"

text \<open>
  \<open>native_invoke\<close>. The first part, under the shared borrow: check the caller's data and collect the
  message, the executable accounts and, in the order of the message, the caller's accounts.
\<close>

definition programdata_of ::
  "upgradeable_loader_state codec \<Rightarrow> invoke_env \<Rightarrow> store \<Rightarrow> nat \<Rightarrow> (account_refs, instruction_error) result" where
  "programdata_of c env st program_account =
     (if acc_owner (st ! program_account) = bpf_loader_upgradeable_id then
        and_then (account_state c (st ! program_account)) (\<lambda>state.
          case state of
            ULS_Program programdata_address \<Rightarrow>
              (case get_account env programdata_address of
                 Some i \<Rightarrow> Ok [(programdata_address, i)]
               | None \<Rightarrow> Err MissingAccount)
          | _ \<Rightarrow> Err MissingAccount)
      else Ok [])"

definition collect_accounts ::
  "keyed_account list \<Rightarrow> nat list \<Rightarrow> pubkey list \<Rightarrow> ((pubkey \<times> nat) list, instruction_error) result" where
  "collect_accounts keyed_accounts keyed_account_indices account_keys =
     map_res (\<lambda>key. ok_or (map_option (\<lambda>i. (key, i))
       (find (\<lambda>i. key = ka_key (keyed_accounts ! i)) keyed_account_indices)) MissingAccount) account_keys"

text \<open>
  The results are copied back account by account; what was copied before an error stays. An entry is
  the position in the message, the position of the copy in the store, and the caller's index.
\<close>

fun copy_back ::
  "message \<Rightarrow> keyed_account list \<Rightarrow> (nat \<times> nat \<times> nat) list \<Rightarrow> store \<Rightarrow> (unit, instruction_error) result \<times> store" where
  "copy_back msg keyed_accounts [] st = (Ok (), st)"
| "copy_back msg keyed_accounts ((src_index, src, dst_index) # rest) st =
     (case (index_at keyed_accounts dst_index, msg_is_writable msg src_index) of
        (Ok dst, Ok is_writable) \<Rightarrow>
          if is_writable \<and> \<not> acc_executable (st ! src) then
            if ka_data_len st dst \<noteq> length (acc_data (st ! src)) \<and> ka_data_len st dst \<noteq> 0 then (Err InvalidRealloc, st)
            else copy_back msg keyed_accounts rest
              (set_account st dst ((account_ref st dst)\<lparr>acc_lamports := acc_lamports (st ! src),
                 acc_owner := acc_owner (st ! src), acc_data := acc_data (st ! src)\<rparr>))
          else copy_back msg keyed_accounts rest st
      | (Err e, _) \<Rightarrow> (Err e, st)
      | (_, Err e) \<Rightarrow> (Err e, st)
      | _ \<Rightarrow> (Panic, st))"

definition native_invoke ::
  "upgradeable_loader_state codec \<Rightarrow> programs \<Rightarrow> processor \<Rightarrow> invoke_env \<Rightarrow> instruction \<Rightarrow> nat list \<Rightarrow> pubkey list \<Rightarrow>
   unit op" where
  "native_invoke c ps native_loader env instr keyed_account_indices signers =
     bind_op (\<lambda>s. (get_keyed_accounts s, s)) (\<lambda>all_keyed_accounts.
     bind_op (Pair (map_res (keyed_account_at_index all_keyed_accounts) keyed_account_indices)) (\<lambda>keyed_accounts.
     bind_op (\<lambda>s. (create_message (is_store s) instr keyed_accounts signers, s)) (\<lambda>(msg, callee_program_id, _).
     let caller_write_privileges = False # map ka_is_writable keyed_accounts in
     bind_op (Pair (collect_accounts all_keyed_accounts keyed_account_indices (msg_account_keys msg))) (\<lambda>collected.
     bind_op (\<lambda>s. (Ok (), record_instruction instr s)) (\<lambda>_.
     bind_op (Pair (ok_or (get_account env callee_program_id) MissingAccount)) (\<lambda>program_account.
     bind_op (\<lambda>s. (if acc_executable (is_store s ! program_account) then Ok () else Err AccountNotExecutable, s)) (\<lambda>_.
     bind_op (\<lambda>s. (programdata_of c env (is_store s) program_account, s)) (\<lambda>programdata s.
       let base = length (is_store s);
           copies = map (\<lambda>(_, i). account_ref (is_store s) (all_keyed_accounts ! i)) collected;
           accounts = map (\<lambda>(j, key, _). (key, base + j)) (List.enumerate 0 collected);
           (result, s1) = process_cross_program_instruction ps native_loader env msg
              ((callee_program_id, program_account) # programdata) accounts caller_write_privileges
              (s\<lparr>is_store := is_store s @ copies\<rparr>);
           (result, s2) = bind_op (\<lambda>s. (result, s)) (\<lambda>_.
             bind_op (\<lambda>s. (get_keyed_accounts s, s)) (\<lambda>kas s.
               let (r, st) = copy_back msg kas (map (\<lambda>(j, _, i). (j, base + j, i)) (List.enumerate 0 collected)) (is_store s)
               in (r, s\<lparr>is_store := st\<rparr>))) s1
       in (result, s2\<lparr>is_store := take base (is_store s2)\<rparr>)))))))))"

section \<open>Messages\<close>

definition neon_evm_program_id :: pubkey where
  "neon_evm_program_id = pubkey_of_base58 ''eeLSJgWzzxrqKv1UxtRVVH8FX3qCQWUs9QuAjJpETGU''"

text \<open>What stays the same for all instructions of a message, and what the instructions change.\<close>

record message_env =
  me_programs :: programs
  me_native_loader :: processor
  me_rent :: rent
  me_feature_active :: "feature \<Rightarrow> bool"
  me_compute_budget :: compute_budget
  me_load_account :: "pubkey \<Rightarrow> account option"

record message_state =
  ms_store :: store
  ms_remaining :: u64
  ms_executors :: executors
  ms_recorders :: "instruction list list option"
  ms_timings :: execute_timings

text \<open>The instructions sysvar among the accounts is told which instruction runs.\<close>

definition fixup_instructions_sysvar ::
  "message_env \<Rightarrow> message \<Rightarrow> account_refs \<Rightarrow> nat \<Rightarrow> store \<Rightarrow> (store, instruction_error) result" where
  "fixup_instructions_sysvar me msg accounts instruction_index st =
     (if me_feature_active me Feature_instructions_sysvar_enabled then
        (case find (\<lambda>(key, _). key = instructions_id) (take (length (msg_account_keys msg)) accounts) of
           Some (_, i) \<Rightarrow>
             and_then (store_current_index (acc_data (st ! i)) (word_of_nat instruction_index)) (\<lambda>data.
               Ok (st[i := (st ! i)\<lparr>acc_data := data\<rparr>]))
         | None \<Rightarrow> Ok st)
      else Ok st)"

definition instruction_budget :: "message_env \<Rightarrow> pubkey \<Rightarrow> compute_budget" where
  "instruction_budget me program_id =
     (let budget = me_compute_budget me in
      if me_feature_active me Feature_neon_evm_compute_budget \<and> program_id = neon_evm_program_id
      then budget\<lparr>cb_max_units := max (cb_max_units budget) 500000, cb_heap_size := Some (256 * 1024)\<rparr>
      else budget)"

definition instruction_context ::
  "message_env \<Rightarrow> message \<Rightarrow> compiled_instruction \<Rightarrow> account_refs \<Rightarrow> account_refs \<Rightarrow> nat \<Rightarrow> message_state \<Rightarrow>
   (pubkey \<times> invoke_env \<times> invoke_state, instruction_error) result" where
  "instruction_context me msg ci executable_accounts accounts instruction_index ms =
     and_then (fixup_instructions_sysvar me msg accounts instruction_index (ms_store ms)) (\<lambda>st.
     and_then (ci_program_id ci (msg_account_keys msg)) (\<lambda>program_id.
     and_then (case ms_recorders ms of
         None \<Rightarrow> Ok None
       | Some rs \<Rightarrow> and_then (index_at rs instruction_index) (\<lambda>r. Ok (Some r))) (\<lambda>recorder.
     and_then (invoke_context_new program_id (me_rent me) msg ci executable_accounts accounts st
         (instruction_budget me program_id) (ms_remaining ms) (ms_executors ms) recorder (me_feature_active me)
         (me_load_account me)) (\<lambda>(env, s).
       Ok (program_id, env, s)))))"

definition execute_instruction ::
  "message_env \<Rightarrow> message \<Rightarrow> compiled_instruction \<Rightarrow> account_refs \<Rightarrow> account_refs \<Rightarrow> nat \<Rightarrow> message_state \<Rightarrow>
   (message_state, instruction_error) result" where
  "execute_instruction me msg ci executable_accounts accounts instruction_index ms =
     and_then (instruction_context me msg ci executable_accounts accounts instruction_index ms) (\<lambda>(program_id, env, s).
     case process_instruction (me_programs me) (me_native_loader me) env program_id (ci_data ci) s of
       (Err e, _) \<Rightarrow> Err e
     | (Panic, _) \<Rightarrow> Panic
     | (Ok _, s') \<Rightarrow>
         and_then (mp_verify msg ci (is_pre_accounts s') (deref (is_store s') accounts) (me_rent me) (ms_timings ms)
             (me_feature_active me Feature_updated_verify_policy)) (\<lambda>timings.
           Ok \<lparr>ms_store = is_store s',
               ms_remaining = (if me_feature_active me Feature_tx_wide_compute_cap then is_remaining s' else ms_remaining ms),
               ms_executors = is_executors s',
               ms_recorders = (case (ms_recorders ms, is_recorder s') of
                   (Some rs, Some r) \<Rightarrow> Some (rs[instruction_index := r]) | _ \<Rightarrow> ms_recorders ms),
               ms_timings = timings_accumulate timings (is_timings s')\<rparr>))"

text \<open>
  \<open>process_message\<close>. \<open>elapsed\<close> is what the stopwatch shows for each instruction. The code subtracts the
  remaining units after an instruction from those before it.
\<close>

definition process_message_step ::
  "message_env \<Rightarrow> (nat \<Rightarrow> u64) \<Rightarrow> message \<Rightarrow> account_refs list \<Rightarrow> account_refs \<Rightarrow> message_state \<Rightarrow>
   nat \<times> compiled_instruction \<Rightarrow> (message_state, transaction_error) result" where
  "process_message_step me elapsed msg loaders accounts ms = (\<lambda>(instruction_index, ci).
     and_then (index_at loaders instruction_index) (\<lambda>executable_accounts.
     and_then (map_err (TE_InstructionError (word_of_nat instruction_index))
         (execute_instruction me msg ci executable_accounts accounts instruction_index ms)) (\<lambda>ms'.
     and_then (ci_program_id ci (msg_account_keys msg)) (\<lambda>program_id.
       Ok (ms'\<lparr>ms_timings := accumulate_program (ms_timings ms') program_id (elapsed instruction_index)
         (ms_remaining ms - ms_remaining ms')\<rparr>)))))"

definition process_message ::
  "message_env \<Rightarrow> (nat \<Rightarrow> u64) \<Rightarrow> message \<Rightarrow> account_refs list \<Rightarrow> account_refs \<Rightarrow> message_state \<Rightarrow>
   (message_state, transaction_error) result" where
  "process_message me elapsed msg loaders accounts ms =
     fold_res (process_message_step me elapsed msg loaders accounts) ms (List.enumerate 0 (msg_instructions msg))"

section \<open>Runs of a message\<close>

text \<open>
  The accounts that an instruction names, and the isolation that the theorems ask of the programs:
  every instruction's program acts on its context by the context's operations, and writes only to
  the accounts of the instruction, to the executable accounts that were loaded for it, and to memory
  of its own; and it succeeds only if its run is verified, that is, it does not return \<open>Ok\<close> after a
  verification has failed halfway. Nothing is asked of programs that fail.
\<close>

definition instruction_refs :: "compiled_instruction \<Rightarrow> account_refs \<Rightarrow> account_refs \<Rightarrow> nat set" where
  "instruction_refs ci executable_accounts accounts =
     snd ` set executable_accounts \<union> (\<lambda>a. snd (accounts ! unat a)) ` set (ci_accounts ci)"

definition isolated :: "message_env \<Rightarrow> message \<Rightarrow> account_refs list \<Rightarrow> account_refs \<Rightarrow> bool" where
  "isolated me msg loaders accounts \<longleftrightarrow>
     (\<forall>k ci ms program_id env s.
        k < length (msg_instructions msg) \<longrightarrow> ci = msg_instructions msg ! k \<longrightarrow>
        instruction_context me msg ci (loaders ! k) accounts k ms = Ok (program_id, env, s) \<longrightarrow>
        fst (process_instruction (me_programs me) (me_native_loader me) env program_id (ci_data ci) s) = Ok () \<longrightarrow>
        verified_run env (length (is_store s)) (instruction_refs ci (loaders ! k) accounts) s
          (snd (process_instruction (me_programs me) (me_native_loader me) env program_id (ci_data ci) s)))"

text \<open>
  The accounts of the message are all there, no two of them the same, and the executable accounts
  were loaded apart from them.
\<close>

definition accounts_loaded :: "message \<Rightarrow> account_refs list \<Rightarrow> account_refs \<Rightarrow> store \<Rightarrow> bool" where
  "accounts_loaded msg loaders accounts st \<longleftrightarrow>
     distinct (map snd accounts) \<and> (\<forall>(key, i)\<in>set accounts. i < length st) \<and>
     (\<forall>executable_accounts\<in>set loaders. snd ` set executable_accounts \<inter> snd ` set accounts = {}) \<and>
     (\<forall>ci\<in>set (msg_instructions msg). \<forall>a\<in>set (ci_accounts ci).
        unat a < length (msg_account_keys msg) \<and> unat a < length accounts)"

definition account_sum :: "account_refs \<Rightarrow> store \<Rightarrow> nat" where
  "account_sum accounts st = (\<Sum>(key, i)\<leftarrow>accounts. unat (acc_lamports (st ! i)))"

lemma account_sum_eq: "account_sum accounts st = (\<Sum>n<length accounts. unat (acc_lamports (st ! snd (accounts ! n))))"
  by (simp add: account_sum_def sum_list_sum_nth case_prod_unfold atLeast0LessThan)

text \<open>The sum over all accounts from the sum over those of the instruction.\<close>

lemma account_sum_split:
  assumes "\<And>a. a \<in> set (us :: u8 list) \<Longrightarrow> unat a < length accounts" and "distinct us"
    and "(\<Sum>a\<leftarrow>us. unat (acc_lamports (st' ! snd (accounts ! unat a)))) = (\<Sum>a\<leftarrow>us. unat (acc_lamports (st ! snd (accounts ! unat a))))"
    and "\<And>n. n < length accounts \<Longrightarrow> n \<notin> unat ` set us \<Longrightarrow> st' ! snd (accounts ! n) = st ! snd (accounts ! n)"
  shows "account_sum accounts st' = account_sum accounts (st :: store)"
proof -
  let ?U = "unat ` set us"
  have sub: "?U \<subseteq> {..<length accounts}" using assms(1) by auto
  have inj: "inj_on unat (set us)" by (rule inj_onI) (simp add: word_unat_eq_iff)
  have part: "(\<Sum>n\<in>?U. unat (acc_lamports (f ! snd (accounts ! n)))) =
      (\<Sum>a\<leftarrow>us. unat (acc_lamports (f ! snd (accounts ! unat a))))" for f :: store
    using inj assms(2) by (simp add: sum.reindex sum_list_distinct_conv_sum_set comp_def)
  have "(\<Sum>n\<in>{..<length accounts} - ?U. unat (acc_lamports (st' ! snd (accounts ! n)))) =
      (\<Sum>n\<in>{..<length accounts} - ?U. unat (acc_lamports (st ! snd (accounts ! n))))"
    using assms(4) by (intro sum.cong) auto
  then show ?thesis
    unfolding account_sum_eq using part [of st] part [of st'] assms(3)
      sum.subset_diff [OF sub finite_lessThan, of "\<lambda>n. unat (acc_lamports (st ! snd (accounts ! n)))"]
      sum.subset_diff [OF sub finite_lessThan, of "\<lambda>n. unat (acc_lamports (st' ! snd (accounts ! n)))"] by simp
qed

text \<open>The fix-up of the instructions sysvar changes two bytes of its data.\<close>

lemma find_SomeD: "find P xs = Some x \<Longrightarrow> x \<in> set xs \<and> P x"
  by (auto simp: find_Some_iff)

lemma fixup_keeps:
  assumes "fixup_instructions_sysvar me msg accounts k st = Ok st1"
  shows "length st1 = length st"
    and "acc_lamports (st1 ! i) = acc_lamports (st ! i)"
    and "distinct (map snd accounts) \<Longrightarrow> (key, i) \<in> set accounts \<Longrightarrow> key \<noteq> instructions_id \<Longrightarrow> st1 ! i = st ! i"
proof -
  consider "st1 = st" | j a where "(instructions_id, j) \<in> set accounts" "st1 = st[j := (st ! j)\<lparr>acc_data := a\<rparr>]"
    using assms by (auto simp: fixup_instructions_sysvar_def and_then_Ok_iff dest!: find_SomeD in_set_takeD
        split: if_splits option.splits)
  note cases = this
  show "length st1 = length st" by (rule cases) simp_all
  show "acc_lamports (st1 ! i) = acc_lamports (st ! i)"
  proof (rule cases)
    fix j a assume "st1 = st[j := (st ! j)\<lparr>acc_data := a\<rparr>]"
    then show ?thesis by (cases "j < length st"; cases "i = j") (simp_all add: list_update_beyond)
  qed simp
  assume *: "distinct (map snd accounts)" "(key, i) \<in> set accounts" "key \<noteq> instructions_id"
  show "st1 ! i = st ! i"
  proof (rule cases)
    fix j a assume "(instructions_id, j) \<in> set accounts" and st1: "st1 = st[j := (st ! j)\<lparr>acc_data := a\<rparr>]"
    then have "j \<noteq> i" using * by (metis distinct_map inj_on_eq_iff prod.inject snd_conv)
    then show ?thesis by (simp add: st1)
  qed simp
qed

text \<open>The context of an instruction and what its program may leave behind.\<close>

lemma instruction_context_facts:
  assumes "instruction_context me msg ci executable_accounts accounts k ms = Ok (program_id, env, s)"
  shows "fixup_instructions_sysvar me msg accounts k (ms_store ms) = Ok (is_store s)"
    and "is_pre_accounts s = create_pre_accounts msg ci (deref (is_store s) accounts)"
    and "program_id = msg_account_keys msg ! unat (ci_program_id_index ci)"
    and "unat (ci_program_id_index ci) < length (msg_account_keys msg)"
  using assms
  by (auto simp: instruction_context_def invoke_context_new_def ci_program_id_def result_simps Let_def)

lemma execute_instruction_runs:
  assumes "execute_instruction me msg ci executable_accounts accounts k ms = Ok ms'"
  obtains program_id env s s' t where
    "instruction_context me msg ci executable_accounts accounts k ms = Ok (program_id, env, s)"
    "process_instruction (me_programs me) (me_native_loader me) env program_id (ci_data ci) s = (Ok (), s')"
    "mp_verify msg ci (is_pre_accounts s') (deref (is_store s') accounts) (me_rent me) (ms_timings ms)
       (me_feature_active me Feature_updated_verify_policy) = Ok t"
    "ms_store ms' = is_store s'"
proof -
  obtain program_id env s where ctx: "instruction_context me msg ci executable_accounts accounts k ms = Ok (program_id, env, s)"
    using assms by (auto simp: execute_instruction_def and_then_Ok_iff)
  obtain r s' where run: "process_instruction (me_programs me) (me_native_loader me) env program_id (ci_data ci) s = (r, s')"
    by fastforce
  have "r = Ok ()"
    using assms ctx run by (auto simp: execute_instruction_def split: result.splits)
  moreover obtain t where "mp_verify msg ci (is_pre_accounts s') (deref (is_store s') accounts) (me_rent me) (ms_timings ms)
       (me_feature_active me Feature_updated_verify_policy) = Ok t" "ms_store ms' = is_store s'"
    using assms ctx run by (auto simp: execute_instruction_def and_then_Ok_iff split: result.splits)
  ultimately show ?thesis using that ctx run by blast
qed

lemma pre_accounts_of:
  assumes "indices_in_range msg ci accounts"
  shows "length (create_pre_accounts msg ci accounts) = length (unique (ci_accounts ci))"
    and "pre_total (create_pre_accounts msg ci accounts) =
      (\<Sum>a\<leftarrow>unique (ci_accounts ci). unat (acc_lamports (snd (accounts ! unat a))))"
    and "j < length (unique (ci_accounts ci)) \<Longrightarrow>
      pa_account (create_pre_accounts msg ci accounts ! j) = snd (accounts ! unat (unique (ci_accounts ci) ! j))"
  by (simp_all add: create_pre_accounts_eq [OF assms] pre_total_def pa_lamports_def pre_account_new_def comp_def)

lemma deref_nth: "n < length refs \<Longrightarrow> snd (deref st refs ! n) = st ! snd (refs ! n)"
  by (simp add: deref_def case_prod_unfold)

lemma loaded_in_range:
  assumes "accounts_loaded msg loaders accounts st" and "ci \<in> set (msg_instructions msg)"
    and "unat (ci_program_id_index ci) < length (msg_account_keys msg)"
  shows "indices_in_range msg ci (deref st accounts)"
  using assms by (auto simp: accounts_loaded_def indices_in_range_def deref_def)

text \<open>One instruction, given that its program is isolated.\<close>

lemma execute_instruction_conserves:
  assumes loaded: "accounts_loaded msg loaders accounts (ms_store ms)" and exes: "executable_accounts \<in> set loaders" and ci: "ci \<in> set (msg_instructions msg)"
    and ctx: "instruction_context me msg ci executable_accounts accounts k ms = Ok (program_id, env, s)"
    and keeps: "run_keeps (length (is_store s)) (instruction_refs ci executable_accounts accounts) s s'"
    and verified: "mp_verify msg ci (is_pre_accounts s') (deref (is_store s') accounts) rent t policy = Ok t'"
  shows "account_sum accounts (is_store s') = account_sum accounts (ms_store ms)"
    and "length (ms_store ms) \<le> length (is_store s')"
    and "n < length accounts \<Longrightarrow> n \<notin> unat ` set (ci_accounts ci) \<Longrightarrow> is_store s' ! snd (accounts ! n) = is_store s ! snd (accounts ! n)"
proof -
  note c = instruction_context_facts [OF ctx]
  note fix1 = fixup_keeps [OF c(1)]
  let ?us = "unique (ci_accounts ci)"
  have range: "indices_in_range msg ci (deref (is_store s) accounts)"
    using loaded_in_range [of msg loaders accounts "is_store s", OF _ ci c(4)] loaded fix1(1) by (auto simp: accounts_loaded_def)
  have us: "a \<in> set ?us \<Longrightarrow> unat a < length accounts" for a using loaded ci by (auto simp: accounts_loaded_def)
  have len: "length (is_pre_accounts s') = length ?us"
    using keeps pre_accounts_of(1) [OF range] c(2) unfolding run_keeps_def by (metis length_map)
  have "(\<Sum>a\<leftarrow>?us. unat (acc_lamports (snd (deref (is_store s') accounts ! unat a)))) =
      (\<Sum>a\<leftarrow>?us. unat (acc_lamports (snd (deref (is_store s) accounts ! unat a))))"
    using mp_verify_policy(2) [OF verified len] keeps pre_accounts_of(2) [OF range] c(2) by (simp add: run_keeps_def)
  moreover have "(\<Sum>a\<leftarrow>?us. unat (acc_lamports (snd (deref st accounts ! unat a)))) =
      (\<Sum>a\<leftarrow>?us. unat (acc_lamports (st ! snd (accounts ! unat a))))" for st
    using us by (intro arg_cong [where f = sum_list] map_cong) (simp_all add: deref_nth)
  ultimately have "(\<Sum>a\<leftarrow>?us. unat (acc_lamports (is_store s' ! snd (accounts ! unat a)))) =
      (\<Sum>a\<leftarrow>?us. unat (acc_lamports (is_store s ! snd (accounts ! unat a))))" by simp
  moreover show other: "is_store s' ! snd (accounts ! n) = is_store s ! snd (accounts ! n)"
    if n: "n < length accounts" "n \<notin> unat ` set (ci_accounts ci)" for n
  proof -
    have "snd (accounts ! n) \<notin> instruction_refs ci executable_accounts accounts"
    proof
      assume *: "snd (accounts ! n) \<in> instruction_refs ci executable_accounts accounts"
      have "snd (accounts ! n) \<notin> snd ` set executable_accounts"
        using loaded exes nth_mem [OF n(1)] unfolding accounts_loaded_def by blast
      then obtain a where a: "a \<in> set (ci_accounts ci)" "snd (accounts ! n) = snd (accounts ! unat a)"
        using * unfolding instruction_refs_def by blast
      then have "map snd accounts ! n = map snd accounts ! unat a" using n(1) us by simp
      then have "n = unat a" using n(1) a(1) us loaded nth_eq_iff_index_eq [of "map snd accounts" n "unat a"]
        by (simp add: accounts_loaded_def)
      then show False using n(2) a(1) by blast
    qed
    moreover have "snd (accounts ! n) < length (is_store s)"
      using loaded nth_mem [OF n(1)] fix1(1) by (auto simp: accounts_loaded_def case_prod_unfold)
    ultimately show ?thesis using keeps by (simp add: run_keeps_def)
  qed
  ultimately have "account_sum accounts (is_store s') = account_sum accounts (is_store s)"
    by (intro account_sum_split [of ?us, OF us]) simp_all
  also have "\<dots> = account_sum accounts (ms_store ms)"
    using fix1(2) by (simp add: account_sum_def)
  finally show "account_sum accounts (is_store s') = account_sum accounts (ms_store ms)" .
  show "length (ms_store ms) \<le> length (is_store s')" using keeps fix1(1) by (simp add: run_keeps_def)
qed

lemma isolated_keeps:
  assumes "isolated me msg loaders accounts" and "k < length (msg_instructions msg)"
    and "instruction_context me msg (msg_instructions msg ! k) (loaders ! k) accounts k ms = Ok (program_id, env, s)"
    and "process_instruction (me_programs me) (me_native_loader me) env program_id (ci_data (msg_instructions msg ! k)) s = (Ok (), s')"
  shows "run_keeps (length (is_store s)) (instruction_refs (msg_instructions msg ! k) (loaders ! k) accounts) s s'"
  using assms verified_run_keeps [of env "length (is_store s)" _ s s'] unfolding isolated_def
  by (metis fst_conv order_refl snd_conv)

text \<open>
  Cross-program calls keep to this: a call that succeeds is a verified run when the called program's
  is. Both verifications of a call have to succeed for the call to succeed.
\<close>

lemma bind_op_OkE:
  assumes "bind_op f g s = (Ok b, s')"
  obtains a s1 where "f s = (Ok a, s1)" "g a s1 = (Ok b, s')"
  using assms by (auto split: prod.splits result.splits)

lemma cross_program_call_verified:
  assumes "process_cross_program_instruction ps native_loader env msg executable_accounts accounts ws s = (Ok (), s')"
    and callee: "\<And>program_id data t t'. process_instruction (fold (\<lambda>(k, p) qs. add_program qs k p) ps []) native_loader env
      program_id data t = (Ok (), t') \<Longrightarrow> verified_run env base W t t'"
  shows "verified_run env base W s s'"
proof -
  obtain ci rest where msg: "msg_instructions msg = ci # rest"
    using assms(1) by (cases "msg_instructions msg") (auto simp: process_cross_program_instruction_def)
  note run = assms(1) [unfolded process_cross_program_instruction_def msg list.case]
  from run obtain program_id s1 kas s2 where
    s1: "ctx_verify_and_update env ci accounts ws s = (Ok (), s1)" and s2: "push env program_id kas s1 = (Ok (), s2)"
    and tail: "(let (result, t) = process_instruction (fold (\<lambda>(k, p) qs. add_program qs k p) ps []) native_loader env
          program_id (ci_data ci) s2;
        (result, u) =
          (if result = Ok () then
             bind_op (Pair (map_res (msg_is_writable msg) [0..<length (msg_account_keys msg)])) (\<lambda>write_privileges.
               ctx_verify_and_update env ci accounts write_privileges) t
           else (result, t))
      in (result, if result = Panic then u else pop u)) = (Ok (), s')"
    by (elim bind_op_OkE) (auto simp del: bind_op.simps)
  obtain t where t: "process_instruction (fold (\<lambda>(k, p) qs. add_program qs k p) ps []) native_loader env
      program_id (ci_data ci) s2 = (Ok (), t)"
    using tail by (auto simp: Let_def split: prod.splits if_splits)
  obtain privs u where u: "ctx_verify_and_update env ci accounts privs t = (Ok (), u)" and s': "s' = pop u"
    using tail t by (auto simp: Let_def split: prod.splits if_splits result.splits)
  have "verified_step env base W s s1" "verified_step env base W t u" using s1 u by (auto intro: verified_ok)
  moreover have "verified_step env base W s1 s2"
    using step_push [of env base W s1 program_id kas] s2 state_simps(2) [of env program_id kas s1] by (auto intro: verified_other)
  moreover have "verified_step env base W u s'" using step_pop [of env base W u] by (auto intro: verified_other simp: s')
  ultimately show ?thesis using callee [OF t] by (meson converse_rtranclp_into_rtranclp rtranclp.rtrancl_into_rtrancl)
qed

lemma fold_res_keeps:
  assumes "\<And>x s s'. x \<in> set xs \<Longrightarrow> P s \<Longrightarrow> f s x = Ok s' \<Longrightarrow> P s'" and "P s" and "fold_res f s xs = Ok s'"
  shows "P s'"
  using assms by (induction xs arbitrary: s) (auto simp: and_then_Ok_iff)

lemma in_set_enumerate: "x \<in> set (List.enumerate 0 xs) \<Longrightarrow> \<exists>k<length xs. x = (k, xs ! k)"
  by (metis add.commute add_0 diff_zero in_set_enumerate_eq prod.collapse)

lemma process_message_step_runs:
  assumes "process_message_step me elapsed msg loaders accounts ms (k, ci) = Ok ms'"
  obtains ms1 where "k < length loaders" "execute_instruction me msg ci (loaders ! k) accounts k ms = Ok ms1"
    "ms_store ms' = ms_store ms1"
  using assms by (auto simp: process_message_step_def result_simps)

text \<open>
  C7: Processing a message creates and destroys no lamports. Let every program act on its context
  by the context's operations, including cross-program calls to any depth, write only to the
  accounts of its instruction and to memory of its own, and not return \<open>Ok\<close> after a verification of
  a cross-program call has failed halfway; otherwise it may do what it likes. If the message is
  processed, the lamports of its accounts add up to what they were, and an account that no
  instruction names is untouched, except that the instructions sysvar holds the current index. The
  condition on failed verifications is there because \<open>verify_and_update\<close> keeps what it updated
  before its error, and a later verification starts from it.
\<close>

theorem process_message_conserves:
  assumes "isolated me msg loaders accounts" and "accounts_loaded msg loaders accounts (ms_store ms)"
    and "process_message me elapsed msg loaders accounts ms = Ok ms'"
  shows "account_sum accounts (ms_store ms') = account_sum accounts (ms_store ms) \<and>
    (\<forall>n<length accounts. fst (accounts ! n) \<noteq> instructions_id \<longrightarrow>
       (\<forall>ci\<in>set (msg_instructions msg). n \<notin> unat ` set (ci_accounts ci)) \<longrightarrow>
       ms_store ms' ! snd (accounts ! n) = ms_store ms ! snd (accounts ! n))"
proof -
  let ?P = "\<lambda>ms1. accounts_loaded msg loaders accounts (ms_store ms1) \<and> account_sum accounts (ms_store ms1) = account_sum accounts (ms_store ms) \<and>
    (\<forall>n<length accounts. fst (accounts ! n) \<noteq> instructions_id \<longrightarrow>
       (\<forall>ci\<in>set (msg_instructions msg). n \<notin> unat ` set (ci_accounts ci)) \<longrightarrow>
       ms_store ms1 ! snd (accounts ! n) = ms_store ms ! snd (accounts ! n))"
  have "?P ms'"
  proof (rule fold_res_keeps [OF _ _ assms(3) [unfolded process_message_def]])
    fix x ms1 ms2
    assume x: "x \<in> set (List.enumerate 0 (msg_instructions msg))" and P: "?P ms1"
      and step: "process_message_step me elapsed msg loaders accounts ms1 x = Ok ms2"
    obtain k where k: "x = (k, msg_instructions msg ! k)" "k < length (msg_instructions msg)"
      using in_set_enumerate [OF x] by blast
    then have ci: "msg_instructions msg ! k \<in> set (msg_instructions msg)" by simp
    obtain ms3 where exec: "execute_instruction me msg (msg_instructions msg ! k) (loaders ! k) accounts k ms1 = Ok ms3"
      and ms2: "ms_store ms2 = ms_store ms3" and l: "loaders ! k \<in> set loaders"
      using process_message_step_runs [OF step [unfolded k(1)]] nth_mem by metis
    obtain program_id env s s' t where ctx: "instruction_context me msg (msg_instructions msg ! k) (loaders ! k) accounts k ms1 = Ok (program_id, env, s)"
      and run: "process_instruction (me_programs me) (me_native_loader me) env program_id (ci_data (msg_instructions msg ! k)) s = (Ok (), s')"
      and v: "mp_verify msg (msg_instructions msg ! k) (is_pre_accounts s') (deref (is_store s') accounts) (me_rent me) (ms_timings ms1)
       (me_feature_active me Feature_updated_verify_policy) = Ok t"
      and ms3: "ms_store ms3 = is_store s'"
      using execute_instruction_runs [OF exec] by blast
    note one = execute_instruction_conserves [OF conjunct1 [OF P] l ci ctx isolated_keeps [OF assms(1) k(2) ctx run] v]
    note fix1 = fixup_keeps(3) [OF instruction_context_facts(1) [OF ctx]]
    have "ms_store ms2 ! snd (accounts ! n) = ms_store ms ! snd (accounts ! n)"
      if n: "n < length accounts" "fst (accounts ! n) \<noteq> instructions_id"
        "\<forall>ci\<in>set (msg_instructions msg). n \<notin> unat ` set (ci_accounts ci)" for n
    proof -
      have "is_store s ! snd (accounts ! n) = ms_store ms1 ! snd (accounts ! n)"
        using P n(2) nth_mem [OF n(1)] by (intro fix1 [of "fst (accounts ! n)"]) (simp_all add: accounts_loaded_def)
      then show ?thesis using one(3) [OF n(1)] n P ci by (simp add: ms2 ms3)
    qed
    moreover have "accounts_loaded msg loaders accounts (ms_store ms2)"
      using P one(2) by (auto simp: accounts_loaded_def ms2 ms3 dest!: bspec)
    ultimately show "?P ms2" using P one(1) by (simp add: ms2 ms3)
  qed (use assms(2) in simp)
  then show ?thesis by blast
qed

section \<open>Privileges of an invoked program\<close>

lemma fold_check_privileges:
  assumes "fold_res (check_privileges keyed_accounts signers) () metas = Ok ()" and "m \<in> set metas"
  shows "\<exists>ka\<in>set keyed_accounts. ka_key ka = am_pubkey m \<and> (am_is_writable m \<longrightarrow> ka_is_writable ka) \<and>
    (am_is_signer m \<longrightarrow> ka_is_signer ka \<or> am_pubkey m \<in> set signers)"
proof -
  have "check_privileges keyed_accounts signers () m = Ok ()"
    using assms by (induction metas) (auto simp: and_then_Ok_iff)
  then obtain ka where ka: "find (\<lambda>ka. am_pubkey m = ka_key ka) keyed_accounts = Some ka"
    "am_is_writable m \<longrightarrow> ka_is_writable ka" "am_is_signer m \<longrightarrow> ka_is_signer ka \<or> am_pubkey m \<in> set signers"
    by (auto simp: check_privileges_def signer_key_def split: option.splits if_splits)
  then show ?thesis using find_SomeD [OF ka(1)] by auto
qed

lemma set_all_metas_single:
  "set (all_metas [instr] None) = set (ix_accounts instr) \<union> {account_meta_new_readonly (ix_program_id instr) False}"
  by (simp add: all_metas_def payer_metas_def instruction_metas_def get_program_ids_def)

text \<open>
  C9: A program cannot pass on privileges that it does not have. In the message that
  \<open>create_message\<close> makes for a cross-program invocation, every key is the key of an account of the
  caller; a key that signs was signed for in the calling instruction or is among the addresses the
  calling program signs for; and an account that is writable was writable for the caller. This
  needs, as for compiled messages in general, at most 255 keys, and that a key which is asked for
  as a signer in one place and as writable in another is asked for as a writable signer somewhere:
  \<open>Message::new\<close> gives the privileges to the wrong key otherwise, as the example below shows.
\<close>

theorem create_message_no_escalation:
  assumes "create_message st instr keyed_accounts signers = Ok (msg, program_id, program_index)"
    and "card (am_pubkey ` set (all_metas [instr] None)) \<le> 255" and "write_promotable (all_metas [instr] None)"
    and "i < length (msg_account_keys msg)" and "key = msg_account_keys msg ! i"
  shows "(\<exists>ka\<in>set keyed_accounts. ka_key ka = key) \<and>
    (msg_is_signer msg i \<longrightarrow> key \<in> set signers \<or> (\<exists>ka\<in>set keyed_accounts. ka_key ka = key \<and> ka_is_signer ka)) \<and>
    (write_granted msg i \<longrightarrow> (\<exists>ka\<in>set keyed_accounts. ka_key ka = key \<and> ka_is_writable ka))"
proof -
  obtain kp where new: "message_new [instr] None = (Ok msg :: (message, instruction_error) result)"
    and checked: "fold_res (check_privileges keyed_accounts signers) () (ix_accounts instr) = Ok ()"
    and kp: "kp \<in> set keyed_accounts" "ka_key kp = ix_program_id instr"
    using assms(1) by (auto simp: create_message_def Let_def and_then_Ok_iff dest!: find_SomeD split: option.splits if_splits)
  note priv = new_privileges [OF assms(2,3) new assms(4), folded assms(5)]
  note metas = fold_check_privileges [OF checked]
  have "msg_account_keys msg = message_keys [instr] None"
    using new by (auto simp: message_new_eq and_then_Ok_iff new_with_compiled_instructions_def)
  then have "key \<in> am_pubkey ` set (all_metas [instr] None)"
    using assms(4,5) set_message_keys [of "[instr]" None] nth_mem by metis
  then obtain m where m: "m \<in> set (all_metas [instr] None)" "am_pubkey m = key" by auto
  have "\<exists>ka\<in>set keyed_accounts. ka_key ka = key"
    using m kp metas [of m] by (auto simp: set_all_metas_single account_meta_new_readonly_def)
  moreover have "key \<in> set signers \<or> (\<exists>ka\<in>set keyed_accounts. ka_key ka = key \<and> ka_is_signer ka)" if sign: "msg_is_signer msg i"
  proof -
    obtain m where "m \<in> set (ix_accounts instr)" "am_pubkey m = key" "am_is_signer m"
      using sign priv by (auto simp: wants_sign_def set_all_metas_single account_meta_new_readonly_def)
    then show ?thesis using metas by blast
  qed
  moreover have "\<exists>ka\<in>set keyed_accounts. ka_key ka = key \<and> ka_is_writable ka" if "write_granted msg i"
  proof -
    have "wants_write (all_metas [instr] None) key"
      using that priv unfolding write_granted_def by (metis result.inject(1))
    then obtain m where "m \<in> set (ix_accounts instr)" "am_pubkey m = key" "am_is_writable m"
      by (auto simp: wants_write_def set_all_metas_single account_meta_new_readonly_def)
    then show ?thesis using metas by blast
  qed
  ultimately show ?thesis by blast
qed

text \<open>
  Without that condition a caller passes on more than it has: it holds the account 10 read-only, and
  the program that it invokes may write to it.
\<close>

definition escalating_accounts :: "keyed_account list" where
  "escalating_accounts = create_keyed_accounts_unified [(True, False, 10, 0), (True, True, 20, 1), (False, False, 30, 2)]"

definition escalating_store :: store where
  "escalating_store = [shared_new 1 0 0, shared_new 1 0 0, (shared_new 1 0 0)\<lparr>acc_executable := True\<rparr>]"

lemma create_message_escalates:
  "\<exists>msg. create_message escalating_store swapped_instruction escalating_accounts [] = Ok (msg, 30, 2) \<and>
     msg_account_keys msg ! 0 = 10 \<and> write_granted msg 0 \<and>
     \<not> (\<exists>ka\<in>set escalating_accounts. ka_key ka = 10 \<and> ka_is_writable ka)"
proof -
  obtain r where r: "create_message escalating_store swapped_instruction escalating_accounts [] = r" by blast
  have "map_ok (\<lambda>(msg, p, n). (msg_account_keys msg ! 0, msg_is_writable msg 0 :: (bool, instruction_error) result, p, n)) r =
      Ok (10, Ok True, 30, 2)"
    unfolding r [symmetric] by code_simp
  then obtain msg where "r = Ok (msg, 30, 2)" "msg_account_keys msg ! 0 = 10" "write_granted msg 0"
    by (auto simp: map_ok_Ok_iff write_granted_def)
  then show ?thesis using r by (intro exI [of _ msg]) (simp add: escalating_accounts_def create_keyed_accounts_unified_def)
qed

section \<open>Witnesses\<close>

theorem create_message_no_escalation_witness:
  "\<exists>msg. create_message escalating_store demo_instruction (escalating_accounts) [] = Ok (msg, 30, 2) \<and>
     (write_granted msg 1 \<longrightarrow> (\<exists>ka\<in>set escalating_accounts. ka_key ka = msg_account_keys msg ! 1 \<and> ka_is_writable ka))"
proof -
  obtain r where r: "create_message escalating_store demo_instruction escalating_accounts [] = r" by blast
  have "map_ok (\<lambda>(msg, p, n). (length (msg_account_keys msg), p, n)) r = Ok (3, 30, 2)"
    unfolding r [symmetric] by code_simp
  then obtain msg where msg: "r = Ok (msg, 30, 2)" "length (msg_account_keys msg) = 3"
    by (auto simp: map_ok_Ok_iff)
  have "card (am_pubkey ` set (all_metas [demo_instruction] None)) \<le> 255" "write_promotable (all_metas [demo_instruction] None)"
    by (simp_all add: all_metas_def payer_metas_def instruction_metas_def get_program_ids_def demo_instruction_def
        card_insert_if write_promotable_def account_meta_new_def account_meta_new_readonly_def)
  from create_message_no_escalation [OF r [unfolded msg(1)] this, of 1 "msg_account_keys msg ! 1"] msg r
  show ?thesis by (intro exI [of _ msg] conjI) simp_all
qed

end
