(* ===== verification/Config_Program.thy ===== *)
theory Config_Program
  imports Program_Context
begin

text \<open>
  The config program (\<open>programs/config/src/config_processor.rs\<close>, \<open>programs/config/src/lib.rs\<close>): an
  account that stores a list of keys, each marked as a signer or not, followed by data. The program
  overwrites the front of the account with the instruction data once the signatures are there. The
  theorems: what a successful update has changed, and whose signatures it needed.
\<close>

section \<open>Definitions\<close>

type_synonym config_keys = "(pubkey \<times> bool) list"

definition signer_keys_of :: "config_keys \<Rightarrow> pubkey list" where
  "signer_keys_of keys = map fst (filter snd keys)"

text \<open>
  The loop over the signers of the new key list. \<open>accounts\<close> are the keyed accounts that the iterator
  has not given out yet; the result is the counter.
\<close>

fun check_signers ::
  "keyed_account \<Rightarrow> config_keys \<Rightarrow> keyed_account list \<Rightarrow> nat \<Rightarrow> pubkey list \<Rightarrow> (nat, instruction_error) result" where
  "check_signers config current_keys accounts counter [] = Ok counter"
| "check_signers config current_keys accounts counter (signer # rest) =
     (if signer \<noteq> unsigned_key config then
        (case accounts of
           [] \<Rightarrow> Err MissingRequiredSignature
         | signer_account # accounts' \<Rightarrow>
             (case signer_key signer_account of
                None \<Rightarrow> Err MissingRequiredSignature
              | Some k \<Rightarrow>
                  if k \<noteq> signer then Err MissingRequiredSignature
                  else if current_keys \<noteq> [] \<and> signer \<notin> set (signer_keys_of current_keys)
                  then Err MissingRequiredSignature
                  else check_signers config current_keys accounts' (counter + 1) rest))
      else if signer_key config = None then Err MissingRequiredSignature
      else check_signers config current_keys accounts (counter + 1) rest)"

definition config_process_instruction ::
  "config_keys codec \<Rightarrow> invoke_context \<Rightarrow> store \<Rightarrow> u8 list \<Rightarrow> (store, instruction_error) result" where
  "config_process_instruction c ic st data =
     (let keyed_accounts = ic_keyed_accounts ic in
      and_then (limited_deserialize c data) (\<lambda>key_list.
      and_then (keyed_account_at_index keyed_accounts 0) (\<lambda>config.
      if ic_feature_active ic Feature_check_program_owner \<and> ka_owner st config \<noteq> config_program_id
      then Err InvalidAccountOwner
      else
        and_then (ok_or (bincode_deserialize c (acc_data (account_ref st config))) InvalidAccountData) (\<lambda>current_data.
        let current_signer_keys = signer_keys_of current_data in
        if current_signer_keys = [] \<and> signer_key config = None then Err MissingRequiredSignature
        else
          and_then (check_signers config current_data (drop 1 keyed_accounts) 0 (signer_keys_of key_list)) (\<lambda>counter.
          if ic_feature_active ic Feature_dedupe_config_program_signers \<and>
             length (unique key_list) \<noteq> length key_list then Err InvalidArgument
          else if length current_signer_keys > counter then Err MissingRequiredSignature
          else if ka_data_len st config < length data then Err InvalidInstructionData
          else Ok (set_account st config ((account_ref st config)\<lparr>acc_data :=
                 data @ drop (length data) (acc_data (account_ref st config))\<rparr>)))))))"

definition get_config_data :: "config_keys codec \<Rightarrow> u8 list \<Rightarrow> (u8 list, bincode_error) result" where
  "get_config_data c bytes =
     and_then (ok_or (bincode_deserialize c bytes) OtherBincodeError) (\<lambda>keys.
       let offset = length (bincode_serialize c keys) in
       if offset \<le> length bytes then Ok (drop offset bytes) else Panic)"

definition create_config_account :: "config_keys codec \<Rightarrow> 't codec \<Rightarrow> config_keys \<Rightarrow> 't \<Rightarrow> u64 \<Rightarrow> account" where
  "create_config_account c tc keys config_data lamports =
     \<lparr>acc_lamports = lamports, acc_data = bincode_serialize c keys @ bincode_serialize tc config_data,
      acc_owner = config_program_id, acc_executable = False, acc_rent_epoch = 0\<rparr>"

section \<open>Effect and signatures\<close>

lemma config_process_instruction_Ok:
  assumes "config_process_instruction c ic st data = Ok st'"
  obtains config key_list current where
    "ic_keyed_accounts ic \<noteq> []" "config = hd (ic_keyed_accounts ic)"
    "bincode_deserialize c data = Some key_list"
    "bincode_deserialize c (acc_data (account_ref st config)) = Some current"
    "signer_keys_of current = [] \<longrightarrow> ka_is_signer config"
    "ic_feature_active ic Feature_dedupe_config_program_signers \<longrightarrow> distinct key_list"
    "check_signers config current (tl (ic_keyed_accounts ic)) 0 (signer_keys_of key_list) = Ok (length (signer_keys_of key_list))"
    "length (signer_keys_of current) \<le> length (signer_keys_of key_list)"
    "length data \<le> ka_data_len st config"
    "st' = set_account st config ((account_ref st config)\<lparr>acc_data := data @ drop (length data) (acc_data (account_ref st config))\<rparr>)"
proof -
  have counter: "check_signers config current accounts k signers = Ok n \<Longrightarrow> n = k + length signers"
    for config current accounts k signers n
    by (induction config current accounts k signers rule: check_signers.induct)
       (auto split: if_splits list.splits option.splits)
  have dup: "length (unique xs) = length xs \<Longrightarrow> distinct xs" for xs :: "config_keys"
    by (metis card_distinct distinct_card distinct_unique set_unique)
  obtain key_list current n where kas: "ic_keyed_accounts ic \<noteq> []"
    and keys: "bincode_deserialize c data = Some key_list"
      "bincode_deserialize c (acc_data (account_ref st (ic_keyed_accounts ic ! 0))) = Some current"
    and guards: "signer_keys_of current = [] \<longrightarrow> ka_is_signer (ic_keyed_accounts ic ! 0)"
      "ic_feature_active ic Feature_dedupe_config_program_signers \<longrightarrow> length (unique key_list) = length key_list"
      "check_signers (ic_keyed_accounts ic ! 0) current (tl (ic_keyed_accounts ic)) 0 (signer_keys_of key_list) = Ok n"
      "length (signer_keys_of current) \<le> n" "length data \<le> ka_data_len st (ic_keyed_accounts ic ! 0)"
      "st' = set_account st (ic_keyed_accounts ic ! 0) ((account_ref st (ic_keyed_accounts ic ! 0))
         \<lparr>acc_data := data @ drop (length data) (acc_data (account_ref st (ic_keyed_accounts ic ! 0)))\<rparr>)"
    using assms by (auto simp: config_process_instruction_def limited_deserialize_def Let_def result_simps signer_key_def drop_Suc
        split: if_splits)
  show ?thesis
    using that [OF kas refl keys(1), of current] keys(2) guards counter [OF guards(3)] dup [of key_list]
    by (simp add: hd_conv_nth [OF kas])
qed

lemma check_signers_signed:
  assumes "check_signers config current accounts k signers = Ok n" and "s \<in> set signers"
  shows "s = ka_key config \<and> ka_is_signer config \<or>
    (\<exists>ka\<in>set accounts. ka_is_signer ka \<and> ka_key ka = s) \<and> (current \<noteq> [] \<longrightarrow> s \<in> set (signer_keys_of current))"
  using assms
  by (induction config current accounts k signers rule: check_signers.induct)
     (auto simp: signer_key_def split: if_splits list.splits option.splits)

lemma distinct_signer_keys: "distinct keys \<Longrightarrow> distinct (signer_keys_of keys)"
  by (auto simp: signer_keys_of_def distinct_map intro!: inj_onI)

text \<open>
  C11: A config account is updated only with the signatures of all its signers. Let duplicate keys be
  refused (the feature \<open>dedupe_config_program_signers\<close>), the stored signers be distinct, and the
  account's own key not be among the new signers. If an update succeeds, every stored signer and
  every new one has signed, and so has the account's own key if there is no stored signer; only the
  data of the first account has changed, and it starts with the instruction data.
\<close>

theorem config_update_signed:
  assumes "config_process_instruction c ic st data = Ok st'"
    and "ic_feature_active ic Feature_dedupe_config_program_signers"
    and "bincode_deserialize c data = Some key_list"
    and "config = hd (ic_keyed_accounts ic)"
    and "bincode_deserialize c (acc_data (account_ref st config)) = Some current"
    and "distinct (signer_keys_of current)" and "ka_key config \<notin> set (signer_keys_of key_list)"
  shows "set (signer_keys_of current) \<union> set (signer_keys_of key_list) \<subseteq> get_signers (ic_keyed_accounts ic) \<and>
    (signer_keys_of current = [] \<longrightarrow> ka_is_signer config) \<and>
    (\<exists>rest. st' = set_account st config ((account_ref st config)\<lparr>acc_data := data @ rest\<rparr>) \<and>
       length (data @ rest) = ka_data_len st config)"
proof -
  let ?new = "signer_keys_of key_list" and ?old = "signer_keys_of current"
  obtain facts: "ic_keyed_accounts ic \<noteq> []" "?old = [] \<longrightarrow> ka_is_signer config" "distinct key_list"
    "check_signers config current (tl (ic_keyed_accounts ic)) 0 ?new = Ok (length ?new)" "length ?old \<le> length ?new"
    "length data \<le> ka_data_len st config"
    "st' = set_account st config ((account_ref st config)\<lparr>acc_data := data @ drop (length data) (acc_data (account_ref st config))\<rparr>)"
    using config_process_instruction_Ok [OF assms(1)] assms(2-5) by (metis option.inject)
  note signed = check_signers_signed [OF facts(4)]
  have new: "s \<in> get_signers (ic_keyed_accounts ic) \<and> (current \<noteq> [] \<longrightarrow> s \<in> set ?old)" if "s \<in> set ?new" for s
    using signed [OF that] that assms(7) list.set_sel(2) [OF facts(1)] unfolding get_signers_iff by blast
  have "set ?old \<subseteq> set ?new"
  proof (cases "current = []")
    case True
    then show ?thesis by (simp add: signer_keys_of_def)
  next
    case False
    then have sub: "set ?new \<subseteq> set ?old" using new by blast
    have "card (set ?old) \<le> card (set ?new)"
      using facts(5) distinct_card [OF assms(6)] distinct_card [OF distinct_signer_keys [OF facts(3)]] by simp
    then show ?thesis using card_seteq [OF _ sub] by simp
  qed
  then have "set ?old \<union> set ?new \<subseteq> get_signers (ic_keyed_accounts ic)" using new by blast
  moreover have "length (data @ drop (length data) (acc_data (account_ref st config))) = ka_data_len st config"
    using facts(6) by (simp add: ka_data_len_def)
  ultimately show ?thesis using facts(2,7) by blast
qed

section \<open>Witness, and what the account's own key can do\<close>

text \<open>A codec for key lists of small keys: the number of keys, then two bytes for each.\<close>

fun read_keys :: "nat \<Rightarrow> u8 list \<Rightarrow> config_keys option" where
  "read_keys 0 _ = Some []"
| "read_keys (Suc n) (k # b # rest) = map_option (\<lambda>ks. (ucast k, b \<noteq> 0) # ks) (read_keys n rest)"
| "read_keys (Suc n) _ = None"

definition demo_config_codec :: "config_keys codec" where
  "demo_config_codec =
     \<lparr>bincode_serialize = (\<lambda>ks. word_of_nat (length ks) # concat (map (\<lambda>(k, b). [ucast k, of_bool b]) ks)),
      bincode_deserialize = (\<lambda>d. case d of [] \<Rightarrow> None | n # rest \<Rightarrow> read_keys (unat n) rest)\<rparr>"

definition demo_config_context :: "bool \<Rightarrow> invoke_context" where
  "demo_config_context config_signs = \<lparr>ic_feature_active = (\<lambda>f. f = Feature_dedupe_config_program_signers),
     ic_keyed_accounts = create_keyed_accounts_unified
       [(config_signs, True, 9, 0), (True, False, 1, 1), (\<not> config_signs, False, 2, 1)],
     ic_sysvar_data = (\<lambda>_. None)\<rparr>"

text \<open>The stored signers are 1 and 2.\<close>

definition demo_config_store :: store where
  "demo_config_store = [(shared_new 1 0 config_program_id)\<lparr>acc_data := [2, 1, 1, 2, 1, 77]\<rparr>, shared_new 1 0 0]"

theorem config_update_signed_witness:
  "\<exists>st'. config_process_instruction demo_config_codec (demo_config_context False) demo_config_store [2, 2, 1, 1, 1, 78] = Err MissingRequiredSignature \<and>
     config_process_instruction demo_config_codec (demo_config_context False) demo_config_store [2, 1, 1, 2, 1, 78] = Ok st' \<and>
     {1, 2} \<subseteq> get_signers (ic_keyed_accounts (demo_config_context False))"
proof -
  let ?ic = "demo_config_context False"
  obtain r where r: "config_process_instruction demo_config_codec ?ic demo_config_store [2, 1, 1, 2, 1, 78] = r" by blast
  have "map_ok (map acc_data) r = Ok [[2, 1, 1, 2, 1, 78], []]" unfolding r [symmetric] by code_simp
  then obtain st' where st': "r = Ok st'" by (auto simp: map_ok_Ok_iff)
  have keys: "bincode_deserialize demo_config_codec [2, 1, 1, 2, 1, 78] = Some [(1, True), (2, True)]"
    "bincode_deserialize demo_config_codec (acc_data (account_ref demo_config_store (hd (ic_keyed_accounts ?ic)))) = Some [(1, True), (2, True)]"
    by code_simp+
  have "ic_feature_active ?ic Feature_dedupe_config_program_signers" by (simp add: demo_config_context_def)
  from config_update_signed [OF r [unfolded st'] this keys(1) refl keys(2)]
  have "{1, 2} \<subseteq> get_signers (ic_keyed_accounts ?ic)"
    by (simp add: signer_keys_of_def demo_config_context_def create_keyed_accounts_unified_def)
  moreover have "config_process_instruction demo_config_codec ?ic demo_config_store [2, 2, 1, 1, 1, 78] = Err MissingRequiredSignature"
    by code_simp
  ultimately show ?thesis using r st' by (intro exI [of _ st'] conjI) simp_all
qed

text \<open>
  The account's own key counts as a signer although it is not a stored one, so that it stands in for
  a stored signer: here the key 2 has not signed.
\<close>

lemma config_key_replaces_signer:
  "\<exists>st'. config_process_instruction demo_config_codec (demo_config_context True) demo_config_store [2, 1, 1, 9, 1, 78] = Ok st' \<and>
     2 \<notin> get_signers (ic_keyed_accounts (demo_config_context True))"
proof -
  obtain r where r: "config_process_instruction demo_config_codec (demo_config_context True) demo_config_store [2, 1, 1, 9, 1, 78] = r"
    by blast
  have "map_ok (map acc_data) r = Ok [[2, 1, 1, 9, 1, 78], []]" unfolding r [symmetric] by code_simp
  then obtain st' where st': "r = Ok st'" by (auto simp: map_ok_Ok_iff)
  have "2 \<notin> get_signers (ic_keyed_accounts (demo_config_context True))"
    by (simp add: get_signers_iff demo_config_context_def create_keyed_accounts_unified_def)
  with r st' show ?thesis by (intro exI [of _ st'] conjI) simp_all
qed

end
