(* ===== verification/Stake_State.thy ===== *)
theory Stake_State
  imports Vote_State Rent_Model Rust_Collections
begin

text \<open>
  The state of stake accounts (\<open>sdk/program/src/stake/state.rs\<close>, \<open>stake/config.rs\<close>, the error and the
  argument types of \<open>stake/instruction.rs\<close>) and the history of the cluster's stake
  (\<open>sdk/program/src/stake_history.rs\<close>): lockups, authorities, and the warmup and cooldown of a delegation,
  which are loops over the history in \<open>f64\<close> arithmetic. The theorems: the loops end after at most as many
  passes as the history has entries; what is effective and what is activating never exceed what is delegated;
  after deactivation the effective stake only falls.
\<close>

section \<open>Definitions\<close>

datatype stake_error =
  NoCreditsToRedeem | LockupInForce | AlreadyDeactivated | TooSoonToRedelegate | InsufficientStake
| MergeTransientStake | MergeMismatch | CustodianMissing | CustodianSignatureMissing

fun stake_error_code :: "stake_error \<Rightarrow> u64" where
  "stake_error_code NoCreditsToRedeem = 0"
| "stake_error_code LockupInForce = 1"
| "stake_error_code AlreadyDeactivated = 2"
| "stake_error_code TooSoonToRedelegate = 3"
| "stake_error_code InsufficientStake = 4"
| "stake_error_code MergeTransientStake = 5"
| "stake_error_code MergeMismatch = 6"
| "stake_error_code CustodianMissing = 7"
| "stake_error_code CustodianSignatureMissing = 8"

definition of_stake_error :: "stake_error \<Rightarrow> instruction_error" where
  "of_stake_error e = instruction_error_of_u64 (stake_error_code e)"

text \<open>The stake history: a vector in descending order of the epochs.\<close>

record stake_history_entry =
  effective :: u64
  activating :: u64
  deactivating :: u64

type_synonym stake_history = "(epoch \<times> stake_history_entry) list"

definition STAKE_HISTORY_MAX_ENTRIES :: nat where
  "STAKE_HISTORY_MAX_ENTRIES = 512"

definition stake_history_get :: "stake_history \<Rightarrow> epoch \<Rightarrow> stake_history_entry option" where
  "stake_history_get history ep =
     (case binary_search_by (\<lambda>probe. cmp ep (fst probe)) history of
        Ok index \<Rightarrow> Some (snd (history ! index))
      | _ \<Rightarrow> None)"

definition stake_history_add :: "stake_history \<Rightarrow> epoch \<Rightarrow> stake_history_entry \<Rightarrow> stake_history" where
  "stake_history_add history ep entry =
     take STAKE_HISTORY_MAX_ENTRIES
       (case binary_search_by (\<lambda>probe. cmp ep (fst probe)) history of
          Ok index \<Rightarrow> history[index := (ep, entry)]
        | Err index \<Rightarrow> take index history @ (ep, entry) # drop index history
        | Panic \<Rightarrow> history)"

record stake_config =
  config_warmup_cooldown_rate :: f64
  config_slash_penalty :: u8

definition DEFAULT_WARMUP_COOLDOWN_RATE :: f64 where
  "DEFAULT_WARMUP_COOLDOWN_RATE = Fin (1 / 4)"

definition DEFAULT_SLASH_PENALTY :: u8 where
  "DEFAULT_SLASH_PENALTY = word_of_nat (5 * 255 div 100)"

definition stake_config_default :: stake_config where
  "stake_config_default =
     \<lparr>config_warmup_cooldown_rate = DEFAULT_WARMUP_COOLDOWN_RATE,
      config_slash_penalty = DEFAULT_SLASH_PENALTY\<rparr>"

record lockup =
  lockup_unix_timestamp :: unix_timestamp
  lockup_epoch :: epoch
  lockup_custodian :: pubkey

record lockup_args =
  la_unix_timestamp :: "unix_timestamp option"
  la_epoch :: "epoch option"
  la_custodian :: "pubkey option"

record authorized =
  staker :: pubkey
  withdrawer :: pubkey

record meta =
  rent_exempt_reserve :: u64
  meta_authorized :: authorized
  meta_lockup :: lockup

record delegation =
  voter_pubkey :: pubkey
  delegated_stake :: u64
  activation_epoch :: epoch
  deactivation_epoch :: epoch
  warmup_cooldown_rate :: f64

record stake =
  stake_delegation :: delegation
  credits_observed :: u64

datatype stake_state =
  StakeUninitialized
| StakeInitialized meta
| Staked meta stake
| RewardsPool

datatype stake_authorize = Staker | StakeWithdrawer

text \<open>
  \<open>size_of::<StakeState>()\<close>: the largest variant holds 120 bytes of \<open>Meta\<close> and 72 of \<open>Stake\<close> beside the
  discriminant, aligned to 8 bytes.
\<close>

definition STAKE_STATE_SIZE :: nat where
  "STAKE_STATE_SIZE = 200"

definition stake_rent_exempt_reserve :: "rent \<Rightarrow> u64" where
  "stake_rent_exempt_reserve r = minimum_balance r STAKE_STATE_SIZE"

fun state_stake :: "stake_state \<Rightarrow> stake option" where
  "state_stake (Staked _ s) = Some s"
| "state_stake _ = None"

fun state_delegation :: "stake_state \<Rightarrow> delegation option" where
  "state_delegation (Staked _ s) = Some (stake_delegation s)"
| "state_delegation _ = None"

fun state_authorized :: "stake_state \<Rightarrow> authorized option" where
  "state_authorized (Staked m _) = Some (meta_authorized m)"
| "state_authorized (StakeInitialized m) = Some (meta_authorized m)"
| "state_authorized _ = None"

fun state_meta :: "stake_state \<Rightarrow> meta option" where
  "state_meta (Staked m _) = Some m"
| "state_meta (StakeInitialized m) = Some m"
| "state_meta _ = None"

definition state_lockup :: "stake_state \<Rightarrow> lockup option" where
  "state_lockup s = map_option meta_lockup (state_meta s)"

definition lockup_default :: lockup where
  "lockup_default = \<lparr>lockup_unix_timestamp = 0, lockup_epoch = 0, lockup_custodian = 0\<rparr>"

definition is_in_force :: "lockup \<Rightarrow> clock \<Rightarrow> pubkey option \<Rightarrow> bool" where
  "is_in_force l clk custodian \<longleftrightarrow>
     (if custodian = Some (lockup_custodian l) then False
      else clock_unix_timestamp clk < lockup_unix_timestamp l \<or> clock_epoch clk < lockup_epoch l)"

definition authorized_auto :: "pubkey \<Rightarrow> authorized" where
  "authorized_auto k = \<lparr>staker = k, withdrawer = k\<rparr>"

definition authorized_check ::
  "authorized \<Rightarrow> pubkey set \<Rightarrow> stake_authorize \<Rightarrow> (unit, instruction_error) result" where
  "authorized_check a signers sa =
     (case sa of
        Staker \<Rightarrow> if staker a \<in> signers then Ok () else Err MissingRequiredSignature
      | StakeWithdrawer \<Rightarrow> if withdrawer a \<in> signers then Ok () else Err MissingRequiredSignature)"

definition authorized_authorize ::
  "authorized \<Rightarrow> pubkey set \<Rightarrow> pubkey \<Rightarrow> stake_authorize \<Rightarrow> (lockup \<times> clock \<times> pubkey option) option \<Rightarrow>
   (authorized, instruction_error) result" where
  "authorized_authorize a signers new_authorized sa lockup_custodian_args =
     (case sa of
        Staker \<Rightarrow>
          if staker a \<notin> signers \<and> withdrawer a \<notin> signers then Err MissingRequiredSignature
          else Ok (a\<lparr>staker := new_authorized\<rparr>)
      | StakeWithdrawer \<Rightarrow>
          and_then
            (case lockup_custodian_args of
               Some (l, clk, custodian) \<Rightarrow>
                 if is_in_force l clk None then
                   (case custodian of
                      None \<Rightarrow> Err (of_stake_error CustodianMissing)
                    | Some k \<Rightarrow>
                        if k \<notin> signers then Err (of_stake_error CustodianSignatureMissing)
                        else if is_in_force l clk (Some k) then Err (of_stake_error LockupInForce)
                        else Ok ())
                 else Ok ()
             | None \<Rightarrow> Ok ()) (\<lambda>_.
          and_then (authorized_check a signers sa) (\<lambda>_.
            Ok (a\<lparr>withdrawer := new_authorized\<rparr>))))"

definition meta_set_lockup ::
  "meta \<Rightarrow> lockup_args \<Rightarrow> pubkey set \<Rightarrow> clock option \<Rightarrow> (meta, instruction_error) result" where
  "meta_set_lockup m args signers clk_opt =
     (let l = meta_lockup m;
          l1 = (case la_unix_timestamp args of Some t \<Rightarrow> l\<lparr>lockup_unix_timestamp := t\<rparr> | None \<Rightarrow> l);
          l2 = (case la_epoch args of Some e \<Rightarrow> l1\<lparr>lockup_epoch := e\<rparr> | None \<Rightarrow> l1);
          l3 = (case la_custodian args of Some k \<Rightarrow> l2\<lparr>lockup_custodian := k\<rparr> | None \<Rightarrow> l2)
      in case clk_opt of
           None \<Rightarrow>
             if lockup_custodian l \<notin> signers then Err MissingRequiredSignature
             else Ok (m\<lparr>meta_lockup := l3\<rparr>)
         | Some clk \<Rightarrow>
             if is_in_force l clk None then
               if lockup_custodian l \<notin> signers then Err MissingRequiredSignature
               else Ok (m\<lparr>meta_lockup := l3\<rparr>)
             else if withdrawer (meta_authorized m) \<notin> signers then Err MissingRequiredSignature
             else Ok (m\<lparr>meta_lockup := l3\<rparr>))"

definition rewrite_rent_exempt_reserve :: "meta \<Rightarrow> rent \<Rightarrow> nat \<Rightarrow> (u64 \<times> u64) option \<times> meta" where
  "rewrite_rent_exempt_reserve m r data_len =
     (let corrected = minimum_balance r data_len
      in if corrected \<noteq> rent_exempt_reserve m
         then (Some (rent_exempt_reserve m, corrected), m\<lparr>rent_exempt_reserve := corrected\<rparr>)
         else (None, m))"

definition meta_default :: meta where
  "meta_default =
     \<lparr>rent_exempt_reserve = 0, meta_authorized = \<lparr>staker = 0, withdrawer = 0\<rparr>,
      meta_lockup = lockup_default\<rparr>"

definition meta_auto :: "pubkey \<Rightarrow> meta" where
  "meta_auto k = meta_default\<lparr>meta_authorized := authorized_auto k\<rparr>"

section \<open>Delegations\<close>

definition delegation_default :: delegation where
  "delegation_default =
     \<lparr>voter_pubkey = 0, delegated_stake = 0, activation_epoch = 0, deactivation_epoch = - 1,
      warmup_cooldown_rate = config_warmup_cooldown_rate stake_config_default\<rparr>"

definition delegation_new :: "pubkey \<Rightarrow> u64 \<Rightarrow> epoch \<Rightarrow> f64 \<Rightarrow> delegation" where
  "delegation_new voter amount activation rate =
     delegation_default
       \<lparr>voter_pubkey := voter, delegated_stake := amount, activation_epoch := activation,
        warmup_cooldown_rate := rate\<rparr>"

definition is_bootstrap :: "delegation \<Rightarrow> bool" where
  "is_bootstrap d \<longleftrightarrow> activation_epoch d = - 1"

text \<open>
  The state of both loops is the previous epoch, the cluster's stake in it, and the effective stake so far.
  A step is one pass through the body: \<open>Inl\<close> breaks with the effective stake, \<open>Inr\<close> goes round again.
\<close>

type_synonym warm_state = "epoch \<times> stake_history_entry \<times> u64"

definition warmup_step :: "delegation \<Rightarrow> stake_history \<Rightarrow> epoch \<Rightarrow> warm_state \<Rightarrow> u64 + warm_state" where
  "warmup_step d history target_epoch = (\<lambda>(prev_epoch, prev_cluster_stake, current_effective_stake).
     let current_epoch = prev_epoch + 1 in
     if activating prev_cluster_stake = 0 then Inl current_effective_stake
     else
       let remaining_activating_stake = delegated_stake d - current_effective_stake;
           weight = f64_div (f64_of_u64 remaining_activating_stake) (f64_of_u64 (activating prev_cluster_stake));
           newly_effective_cluster_stake =
             f64_mul (f64_of_u64 (effective prev_cluster_stake)) (warmup_cooldown_rate d);
           newly_effective_stake = max (u64_of_f64 (f64_mul weight newly_effective_cluster_stake)) 1;
           effective_stake = current_effective_stake + newly_effective_stake
       in if delegated_stake d \<le> effective_stake then Inl (delegated_stake d)
          else if target_epoch \<le> current_epoch \<or> deactivation_epoch d \<le> current_epoch then Inl effective_stake
          else
            (case stake_history_get history current_epoch of
               Some current_cluster_stake \<Rightarrow> Inr (current_epoch, current_cluster_stake, effective_stake)
             | None \<Rightarrow> Inl effective_stake))"

definition cooldown_step :: "delegation \<Rightarrow> stake_history \<Rightarrow> epoch \<Rightarrow> warm_state \<Rightarrow> u64 + warm_state" where
  "cooldown_step d history target_epoch = (\<lambda>(prev_epoch, prev_cluster_stake, current_effective_stake).
     let current_epoch = prev_epoch + 1 in
     if deactivating prev_cluster_stake = 0 then Inl current_effective_stake
     else
       let weight = f64_div (f64_of_u64 current_effective_stake) (f64_of_u64 (deactivating prev_cluster_stake));
           newly_not_effective_cluster_stake =
             f64_mul (f64_of_u64 (effective prev_cluster_stake)) (warmup_cooldown_rate d);
           newly_not_effective_stake = max (u64_of_f64 (f64_mul weight newly_not_effective_cluster_stake)) 1;
           effective_stake = saturating_sub current_effective_stake newly_not_effective_stake
       in if effective_stake = 0 then Inl effective_stake
          else if target_epoch \<le> current_epoch then Inl effective_stake
          else
            (case stake_history_get history current_epoch of
               Some current_cluster_stake \<Rightarrow> Inr (current_epoch, current_cluster_stake, effective_stake)
             | None \<Rightarrow> Inl effective_stake))"

text \<open>A step that goes round again moves one epoch closer to the target, also when the epoch wraps.\<close>

lemma warmup_step_Inr:
  "warmup_step d history target (p, e, c) = Inr s' \<Longrightarrow>
   fst s' = p + 1 \<and> p + 1 < target \<and> p + 1 < deactivation_epoch d \<and>
   stake_history_get history (p + 1) = Some (fst (snd s')) \<and> snd (snd s') < delegated_stake d"
  unfolding warmup_step_def Let_def prod.case
  by (simp split: if_split_asm option.split_asm) (auto simp: not_le)

lemma cooldown_step_Inr:
  "cooldown_step d history target (p, e, c) = Inr s' \<Longrightarrow>
   fst s' = p + 1 \<and> p + 1 < target \<and>
   stake_history_get history (p + 1) = Some (fst (snd s')) \<and> snd (snd s') \<le> c"
  unfolding cooldown_step_def Let_def prod.case
  by (simp split: if_split_asm option.split_asm) (auto simp: not_le saturating_sub_def word_sub_le)

lemma unat_distance_less:
  fixes p t :: u64
  assumes "p + 1 < t"
  shows "unat (t - (p + 1) - 1) < unat (t - p - 1)"
proof -
  have "t \<noteq> p + 1" using assms by blast
  then have "t - p - 1 \<noteq> 0" unfolding diff_diff_eq right_minus_eq .
  from measure_unat [OF this] show ?thesis unfolding diff_diff_eq .
qed

lemma warmup_step_closer:
  "warmup_step d history target s = Inr s' \<Longrightarrow> unat (target - fst s' - 1) < unat (target - fst s - 1)"
  by (cases s) (simp only: warmup_step_Inr unat_distance_less fst_conv)

lemma cooldown_step_closer:
  "cooldown_step d history target s = Inr s' \<Longrightarrow> unat (target - fst s' - 1) < unat (target - fst s - 1)"
  by (cases s) (simp only: cooldown_step_Inr unat_distance_less fst_conv)

function warmup_loop :: "delegation \<Rightarrow> stake_history \<Rightarrow> epoch \<Rightarrow> warm_state \<Rightarrow> u64" where
  "warmup_loop d history target s =
     (case warmup_step d history target s of
        Inl effective_stake \<Rightarrow> effective_stake
      | Inr s' \<Rightarrow> warmup_loop d history target s')"
  by pat_completeness auto

termination
  by (relation "measure (\<lambda>(_, _, target, s). unat (target - fst s - 1))") (auto dest: warmup_step_closer)

function cooldown_loop :: "delegation \<Rightarrow> stake_history \<Rightarrow> epoch \<Rightarrow> warm_state \<Rightarrow> u64" where
  "cooldown_loop d history target s =
     (case cooldown_step d history target s of
        Inl effective_stake \<Rightarrow> effective_stake
      | Inr s' \<Rightarrow> cooldown_loop d history target s')"
  by pat_completeness auto

termination
  by (relation "measure (\<lambda>(_, _, target, s). unat (target - fst s - 1))") (auto dest: cooldown_step_closer)

declare warmup_loop.simps [simp del] cooldown_loop.simps [simp del]

text \<open>\<open>history.and_then(|history| history.get(..).map(..))\<close>: the history with the entry the loop starts at.\<close>

definition history_at :: "stake_history option \<Rightarrow> epoch \<Rightarrow> (stake_history \<times> stake_history_entry) option" where
  "history_at history_opt ep =
     Option.bind history_opt (\<lambda>history. map_option (\<lambda>entry. (history, entry)) (stake_history_get history ep))"

definition stake_and_activating :: "delegation \<Rightarrow> epoch \<Rightarrow> stake_history option \<Rightarrow> bool \<Rightarrow> u64 \<times> u64" where
  "stake_and_activating d target_epoch history_opt fix_stake_deactivate =
     (if is_bootstrap d then (delegated_stake d, 0)
      else if fix_stake_deactivate \<and> activation_epoch d = deactivation_epoch d then (0, 0)
      else if target_epoch = activation_epoch d then (0, delegated_stake d)
      else if target_epoch < activation_epoch d then (0, 0)
      else
        (case history_at history_opt (activation_epoch d) of
           Some (history, cluster_stake_at_activation_epoch) \<Rightarrow>
             let current_effective_stake =
                   warmup_loop d history target_epoch (activation_epoch d, cluster_stake_at_activation_epoch, 0)
             in (current_effective_stake, delegated_stake d - current_effective_stake)
         | None \<Rightarrow> (delegated_stake d, 0)))"

definition stake_activating_and_deactivating ::
  "delegation \<Rightarrow> epoch \<Rightarrow> stake_history option \<Rightarrow> bool \<Rightarrow> u64 \<times> u64 \<times> u64" where
  "stake_activating_and_deactivating d target_epoch history_opt fix_stake_deactivate =
     (let (effective_stake, activating_stake) =
            stake_and_activating d target_epoch history_opt fix_stake_deactivate
      in if target_epoch < deactivation_epoch d then (effective_stake, activating_stake, 0)
         else if target_epoch = deactivation_epoch d
         then (effective_stake, 0, min effective_stake (delegated_stake d))
         else
           (case history_at history_opt (deactivation_epoch d) of
              Some (history, cluster_stake_at_deactivation_epoch) \<Rightarrow>
                let current_effective_stake =
                      cooldown_loop d history target_epoch
                        (deactivation_epoch d, cluster_stake_at_deactivation_epoch, effective_stake)
                in (current_effective_stake, 0, current_effective_stake)
            | None \<Rightarrow> (0, 0, 0)))"

definition delegation_stake :: "delegation \<Rightarrow> epoch \<Rightarrow> stake_history option \<Rightarrow> bool \<Rightarrow> u64" where
  "delegation_stake d ep history_opt fix_stake_deactivate =
     fst (stake_activating_and_deactivating d ep history_opt fix_stake_deactivate)"

definition rewrite_stake :: "delegation \<Rightarrow> u64 \<Rightarrow> u64 \<Rightarrow> (u64 \<times> u64) option \<times> delegation" where
  "rewrite_stake d account_balance rent_exempt_balance =
     (let corrected_stake = saturating_sub account_balance rent_exempt_balance
      in if delegated_stake d \<noteq> corrected_stake
         then (Some (delegated_stake d, corrected_stake), d\<lparr>delegated_stake := corrected_stake\<rparr>)
         else (None, d))"

definition stake_stake :: "stake \<Rightarrow> epoch \<Rightarrow> stake_history option \<Rightarrow> bool \<Rightarrow> u64" where
  "stake_stake s = delegation_stake (stake_delegation s)"

definition stake_split :: "stake \<Rightarrow> u64 \<Rightarrow> u64 \<Rightarrow> (stake \<times> stake, stake_error) result" where
  "stake_split s remaining_stake_delta split_stake_amount =
     (let d = stake_delegation s in
      if delegated_stake d < remaining_stake_delta then Err InsufficientStake
      else
        let s1 = s\<lparr>stake_delegation := d\<lparr>delegated_stake := delegated_stake d - remaining_stake_delta\<rparr>\<rparr>
        in Ok (s1, s1\<lparr>stake_delegation := (stake_delegation s1)\<lparr>delegated_stake := split_stake_amount\<rparr>\<rparr>))"

definition stake_deactivate :: "stake \<Rightarrow> epoch \<Rightarrow> (stake, stake_error) result" where
  "stake_deactivate s ep =
     (if deactivation_epoch (stake_delegation s) \<noteq> - 1 then Err AlreadyDeactivated
      else Ok (s\<lparr>stake_delegation := (stake_delegation s)\<lparr>deactivation_epoch := ep\<rparr>\<rparr>))"

section \<open>Termination\<close>

text \<open>A loop for a limited number of passes: \<open>None\<close> when they do not suffice.\<close>

fun run_for :: "nat \<Rightarrow> ('s \<Rightarrow> 'r + 's) \<Rightarrow> 's \<Rightarrow> 'r option" where
  "run_for 0 step s = None"
| "run_for (Suc n) step s = (case step s of Inl r \<Rightarrow> Some r | Inr s' \<Rightarrow> run_for n step s')"

text \<open>
  The contract of a loop that ends: on the states of an invariant, going round again keeps the
  invariant and decreases a measure.
\<close>

locale ending_loop =
  fixes step :: "'s \<Rightarrow> 'r + 's"
    and body :: "'s \<Rightarrow> 'r"
    and inv :: "'s \<Rightarrow> bool"
    and passes :: "'s \<Rightarrow> nat"
  assumes body: "body s = (case step s of Inl r \<Rightarrow> r | Inr s' \<Rightarrow> body s')"
    and step_inv: "inv s \<Longrightarrow> step s = Inr s' \<Longrightarrow> inv s'"
    and step_passes: "inv s \<Longrightarrow> step s = Inr s' \<Longrightarrow> passes s' < passes s"
begin

lemma run_for_passes: "inv s \<Longrightarrow> passes s < n \<Longrightarrow> run_for n step s = Some (body s)"
proof (induction n arbitrary: s)
  case 0
  then show ?case by simp
next
  case (Suc n)
  show ?case
  proof (cases "step s")
    case (Inl r)
    then show ?thesis using body [of s] by simp
  next
    case (Inr s')
    then have "run_for n step s' = Some (body s')"
      using Suc.prems step_inv step_passes by (intro Suc.IH) fastforce+
    with Inr show ?thesis using body [of s] by simp
  qed
qed

end

text \<open>What the history gives for an epoch is an entry of that epoch, whether the vector is in order or not.\<close>

lemma stake_history_get_mem: "stake_history_get history ep = Some e \<Longrightarrow> (ep, e) \<in> set history"
proof -
  assume "stake_history_get history ep = Some e"
  then obtain i where i: "binary_search_by (\<lambda>probe. cmp ep (fst probe)) history = Ok i" "snd (history ! i) = e"
    by (auto simp: stake_history_get_def split: result.splits)
  then have "i < length history" "history ! i = (ep, e)"
    using binary_search_by_Ok [OF i(1)] by (simp_all add: prod_eq_iff)
  then show ?thesis using nth_mem by metis
qed

text \<open>The epochs of the history that lie ahead.\<close>

definition epochs_ahead :: "stake_history \<Rightarrow> warm_state \<Rightarrow> nat" where
  "epochs_ahead history s = card (fst ` set history \<inter> {fst s<..})"

lemma less_next_epoch: "p < t \<Longrightarrow> p < p + 1" for p t :: u64
  using unat_u64_bound [of t] by (simp add: word_less_nat_alt unat_add_less)

lemma epochs_ahead_next:
  assumes "p < t" and "p + 1 < t" and "stake_history_get history (p + 1) = Some e"
  shows "epochs_ahead history (p + 1, e', c') < epochs_ahead history (p, e, c)"
proof -
  have lt: "p < p + 1" using assms(1) by (rule less_next_epoch)
  have "p + 1 \<in> fst ` set history" using stake_history_get_mem [OF assms(3)] by force
  then show ?thesis
    using lt unfolding epochs_ahead_def fst_conv by (intro psubset_card_mono) auto
qed

interpretation warmup: ending_loop "warmup_step d history t" "warmup_loop d history t" "\<lambda>s. fst s < t" "epochs_ahead history"
  for d history t
proof
  show "warmup_loop d history t s = (case warmup_step d history t s of Inl r \<Rightarrow> r | Inr s' \<Rightarrow> warmup_loop d history t s')" for s
    by (subst warmup_loop.simps) (rule refl)
next
  fix s s' assume *: "fst s < t" "warmup_step d history t s = Inr s'"
  obtain p e c where s: "s = (p, e, c)" by (cases s)
  note r = warmup_step_Inr [OF *(2) [unfolded s]]
  show "fst s' < t" using r by simp
  show "epochs_ahead history s' < epochs_ahead history s"
    using epochs_ahead_next [of p t history "fst (snd s')" "fst (snd s')" "snd (snd s')" c] r *(1) s
    by (cases s') (simp add: epochs_ahead_def)
qed

interpretation cooldown: ending_loop "cooldown_step d history t" "cooldown_loop d history t" "\<lambda>s. fst s < t" "epochs_ahead history"
  for d history t
proof
  show "cooldown_loop d history t s = (case cooldown_step d history t s of Inl r \<Rightarrow> r | Inr s' \<Rightarrow> cooldown_loop d history t s')" for s
    by (subst cooldown_loop.simps) (rule refl)
next
  fix s s' assume *: "fst s < t" "cooldown_step d history t s = Inr s'"
  obtain p e c where s: "s = (p, e, c)" by (cases s)
  note r = cooldown_step_Inr [OF *(2) [unfolded s]]
  show "fst s' < t" using r by simp
  show "epochs_ahead history s' < epochs_ahead history s"
    using epochs_ahead_next [of p t history "fst (snd s')" "fst (snd s')" "snd (snd s')" c] r *(1) s
    by (cases s') (simp add: epochs_ahead_def)
qed

lemma epochs_ahead_start:
  assumes "stake_history_get history p = Some e"
  shows "epochs_ahead history (p, x) < length history"
proof -
  have "p \<in> fst ` set history" using stake_history_get_mem [OF assms] by force
  then have "card (fst ` set history \<inter> {p<..}) < card (fst ` set history)" by (intro psubset_card_mono) auto
  also have "\<dots> \<le> length history" by (metis card_length length_map list.set_map)
  finally show ?thesis by (simp add: epochs_ahead_def)
qed

text \<open>
  C23: The warmup and the cooldown of a delegation end. Whatever the delegation and the history, starting from
  the entry of the first epoch, each of the two loops reaches its break after at most as many passes as
  the history has entries (a history never has more than 512), and what it breaks with is what the
  calculation uses.
\<close>

theorem warmup_cooldown_terminate:
  assumes "p < target" and "stake_history_get history p = Some entry"
  shows "run_for (length history) (warmup_step d history target) (p, entry, amount) =
      Some (warmup_loop d history target (p, entry, amount)) \<and>
    run_for (length history) (cooldown_step d history target) (p, entry, amount) =
      Some (cooldown_loop d history target (p, entry, amount))"
  using warmup.run_for_passes [of "(p, entry, amount)" target history "length history" d]
    cooldown.run_for_passes [of "(p, entry, amount)" target history "length history" d]
    assms epochs_ahead_start [OF assms(2)] by simp

section \<open>Bounds\<close>

lemma warmup_loop_le: "snd (snd s) \<le> delegated_stake d \<Longrightarrow> warmup_loop d history target s \<le> delegated_stake d"
proof (induction d history target s rule: warmup_loop.induct)
  case (1 d history target s)
  obtain p e c where s: "s = (p, e, c)" by (cases s)
  show ?case
  proof (cases "warmup_step d history target s")
    case (Inl r)
    have "r \<le> delegated_stake d"
      using Inl "1.prems" unfolding s warmup_step_def Let_def prod.case
      by (simp split: if_split_asm option.split_asm)
    then show ?thesis unfolding warmup.body [of d history target s] by (simp add: Inl)
  next
    case (Inr s')
    have "snd (snd s') \<le> delegated_stake d" using warmup_step_Inr [OF Inr [unfolded s]] by (simp add: less_imp_le)
    from "1.IH" [OF Inr this] show ?thesis unfolding warmup.body [of d history target s] by (simp add: Inr)
  qed
qed

lemma cooldown_loop_le: "cooldown_loop d history target s \<le> snd (snd s)"
proof (induction d history target s rule: cooldown_loop.induct)
  case (1 d history target s)
  obtain p e c where s: "s = (p, e, c)" by (cases s)
  show ?case
  proof (cases "cooldown_step d history target s")
    case (Inl r)
    have "saturating_sub c x \<le> c" for x by (simp add: saturating_sub_def word_sub_le)
    then have "r \<le> c" using Inl unfolding s cooldown_step_def Let_def prod.case
      by (auto split: if_split_asm option.split_asm)
    then show ?thesis unfolding cooldown.body [of d history target s] by (simp add: Inl) (simp add: s)
  next
    case (Inr s')
    have "snd (snd s') \<le> c" using cooldown_step_Inr [OF Inr [unfolded s]] by simp
    with "1.IH" [OF Inr] show ?thesis unfolding cooldown.body [of d history target s] by (simp add: Inr) (simp add: s)
  qed
qed

lemma stake_and_activating_sum:
  assumes "stake_and_activating d target history_opt fix_deactivate = (e, a)"
  shows "e \<le> delegated_stake d \<and> unat e + unat a \<le> unat (delegated_stake d)"
proof -
  have "e = delegated_stake d \<and> a = 0 \<or> e = 0 \<and> a = 0 \<or> e \<le> delegated_stake d \<and> a = delegated_stake d - e"
    using assms warmup_loop_le [of "(activation_epoch d, _, 0)" d _ target]
    by (auto simp: stake_and_activating_def Let_def split: if_splits option.splits)
  then show ?thesis by (auto simp: unat_sub_le word_le_nat_alt)
qed

text \<open>
  C22: A delegation never counts for more than was delegated. At every epoch, with any history or none, the
  effective and the activating stake together are at most the delegated stake, what is deactivating is part of
  what is effective, and a delegation does not activate and deactivate at once.
\<close>

theorem delegation_bounds:
  "case stake_activating_and_deactivating d target history_opt fix_deactivate of
     (effective_stake, activating_stake, deactivating_stake) \<Rightarrow>
       unat effective_stake + unat activating_stake \<le> unat (delegated_stake d) \<and>
       deactivating_stake \<le> effective_stake \<and> (activating_stake = 0 \<or> deactivating_stake = 0)"
proof -
  obtain e a where ea: "stake_and_activating d target history_opt fix_deactivate = (e, a)" by fastforce
  note sum = stake_and_activating_sum [OF ea]
  have cool: "cooldown_loop d history target (p, entry, e) \<le> e" for history p entry
    using cooldown_loop_le [of d history target "(p, entry, e)"] by simp
  then have "unat (cooldown_loop d history target (p, entry, e)) \<le> unat (delegated_stake d)" for history p entry
    using sum order_trans unfolding word_le_nat_alt by blast
  with sum cool show ?thesis
    by (auto simp: stake_activating_and_deactivating_def ea Let_def split: option.splits)
qed

section \<open>Cooldown\<close>

lemma warmup_step_late:
  "deactivation_epoch d \<le> t \<Longrightarrow> warmup_step d history t = warmup_step d history (deactivation_epoch d)"
  unfolding warmup_step_def by (rule ext) (auto simp: Let_def split: prod.splits)

lemma warmup_loop_late:
  "deactivation_epoch d \<le> t \<Longrightarrow> warmup_loop d history t s = warmup_loop d history (deactivation_epoch d) s"
proof (induction d history t s rule: warmup_loop.induct)
  case (1 d history t s)
  note late = warmup_step_late [OF "1.prems", of history]
  show ?case
    unfolding warmup.body [of d history t s] warmup.body [of d history "deactivation_epoch d" s] late [symmetric]
    using "1.IH" [OF _ "1.prems"] by (simp split: sum.split)
qed

lemma cooldown_loop_antimono:
  "t \<le> t' \<Longrightarrow> cooldown_loop d history t' s \<le> cooldown_loop d history t s"
proof (induction d history t s rule: cooldown_loop.induct)
  case (1 d history t s)
  obtain p e c where s: "s = (p, e, c)" by (cases s)
  show ?case
  proof (cases "cooldown_step d history t s")
    case (Inl r)
    have "cooldown_step d history t' s = Inl r \<or> (\<exists>s'. cooldown_step d history t' s = Inr s' \<and> snd (snd s') = r)"
      using Inl "1.prems" unfolding s cooldown_step_def Let_def prod.case
      by (auto split: if_split_asm option.splits)
    then show ?thesis
      unfolding cooldown.body [of d history t s] cooldown.body [of d history t' s]
      using cooldown_loop_le [of d history t'] Inl by auto
  next
    case (Inr s')
    then have "cooldown_step d history t' s = Inr s'"
      using "1.prems" unfolding s cooldown_step_def Let_def prod.case
      by (auto split: if_split_asm option.splits)
    with Inr "1.IH" [OF Inr "1.prems"] show ?thesis
      unfolding cooldown.body [of d history t s] cooldown.body [of d history t' s] by simp
  qed
qed

text \<open>From the deactivation epoch on, the stake that was activated no longer depends on the epoch.\<close>

lemma stake_and_activating_late:
  assumes "is_bootstrap d \<or> activation_epoch d \<le> deactivation_epoch d" and "deactivation_epoch d \<le> t"
  shows "fst (stake_and_activating d t history_opt True) =
    (if is_bootstrap d then delegated_stake d else if activation_epoch d = deactivation_epoch d then 0
     else case history_at history_opt (activation_epoch d) of
        Some (history, entry) \<Rightarrow> warmup_loop d history (deactivation_epoch d) (activation_epoch d, entry, 0)
      | None \<Rightarrow> delegated_stake d)"
proof (cases "is_bootstrap d \<or> activation_epoch d = deactivation_epoch d")
  case True
  then show ?thesis by (auto simp: stake_and_activating_def)
next
  case False
  then have "activation_epoch d < t" using assms by (metis order.not_eq_order_implies_strict order.strict_trans2)
  then have "t \<noteq> activation_epoch d" "\<not> t < activation_epoch d" by simp_all
  with False show ?thesis
    by (simp add: stake_and_activating_def Let_def warmup_loop_late [OF assms(2)] case_prod_beta split: option.split)
qed

text \<open>
  C24: A deactivated delegation only loses effective stake. For a delegation that was deactivated at its
  activation epoch or later (or a bootstrap delegation), from the deactivation epoch on the effective stake never
  grows from one epoch to a later one. This is the calculation with \<open>fix_stake_deactivate\<close> on.
\<close>

theorem deactivated_stake_falls:
  assumes "is_bootstrap d \<or> activation_epoch d \<le> deactivation_epoch d"
    and "deactivation_epoch d \<le> t" and "t \<le> t'"
  shows "delegation_stake d t' history_opt True \<le> delegation_stake d t history_opt True"
proof -
  have late: "deactivation_epoch d \<le> t'" using assms(2,3) by (rule order_trans)
  define x where "x = fst (stake_and_activating d t history_opt True)"
  have same: "fst (stake_and_activating d t' history_opt True) = x"
    unfolding x_def stake_and_activating_late [OF assms(1,2)] stake_and_activating_late [OF assms(1) late] ..
  define cool where "cool u = (case history_at history_opt (deactivation_epoch d) of
      Some (history, entry) \<Rightarrow> cooldown_loop d history u (deactivation_epoch d, entry, x) | None \<Rightarrow> 0)" for u
  have eq: "delegation_stake d u history_opt True = (if u = deactivation_epoch d then x else cool u)"
    if "deactivation_epoch d \<le> u" "fst (stake_and_activating d u history_opt True) = x" for u
    using that
    by (cases "u = deactivation_epoch d")
       (simp_all add: delegation_stake_def stake_activating_and_deactivating_def Let_def case_prod_beta cool_def
        leD split: option.split)
  have le: "cool t' \<le> x" "cool t' \<le> cool t"
    using cooldown_loop_le [of d _ t' "(deactivation_epoch d, _, x)"] cooldown_loop_antimono [OF assms(3), of d]
    unfolding cool_def by (simp_all split: option.split)
  have "t' = deactivation_epoch d \<Longrightarrow> t = deactivation_epoch d" using assms(2,3) by simp
  then show ?thesis
    using le unfolding eq [OF assms(2) x_def [symmetric]] eq [OF late same] by auto
qed

text \<open>Witnesses.\<close>

definition demo_history :: stake_history where
  "demo_history =
     [(6, \<lparr>effective = 100, activating = 75, deactivating = 25\<rparr>),
      (5, \<lparr>effective = 100, activating = 100, deactivating = 0\<rparr>)]"

definition demo_delegation :: delegation where
  "demo_delegation = (delegation_new 3 100 5 DEFAULT_WARMUP_COOLDOWN_RATE)\<lparr>deactivation_epoch := 6\<rparr>"

lemma demo_history_get:
  "stake_history_get demo_history 5 = Some \<lparr>effective = 100, activating = 100, deactivating = 0\<rparr>"
  "stake_history_get demo_history 6 = Some \<lparr>effective = 100, activating = 75, deactivating = 25\<rparr>"
  by code_simp+

theorem warmup_cooldown_terminate_witness:
  "\<exists>entry. stake_history_get demo_history 5 = Some entry \<and>
     run_for 2 (warmup_step demo_delegation demo_history 7) (5, entry, 0) =
       Some (warmup_loop demo_delegation demo_history 7 (5, entry, 0))"
proof -
  note g = demo_history_get(1)
  have l: "length demo_history = 2" by code_simp
  have "(5::u64) < 7" by simp
  from warmup_cooldown_terminate [OF this g, of demo_delegation 0, unfolded l] g show ?thesis by blast
qed

lemma round_f64_demo: "round_f64 1 = Fin 1" "round_f64 25 = Fin 25" "round_f64 100 = Fin 100"
  using round_f64_of_nat [of 1] round_f64_of_nat [of 25] round_f64_of_nat [of 100] by simp_all

lemmas f64_demo_simps = f64_of_u64_def f64_mul.simps f64_div.simps u64_of_f64.simps round_f64_demo
  DEFAULT_WARMUP_COOLDOWN_RATE_def

lemma demo_delegation_sel [simp]:
  "\<not> is_bootstrap demo_delegation" "activation_epoch demo_delegation = 5" "deactivation_epoch demo_delegation = 6"
  "delegated_stake demo_delegation = 100" "warmup_cooldown_rate demo_delegation = Fin (1 / 4)"
  by (simp_all add: demo_delegation_def delegation_new_def delegation_default_def is_bootstrap_def
      DEFAULT_WARMUP_COOLDOWN_RATE_def)

lemma demo_warmup:
  "warmup_loop demo_delegation demo_history t (5, \<lparr>effective = 100, activating = 100, deactivating = 0\<rparr>, 0) = 25"
  by (subst warmup_loop.simps) (simp add: warmup_step_def f64_demo_simps)

lemma demo_cooldown:
  "cooldown_loop demo_delegation demo_history t (6, \<lparr>effective = 100, activating = 75, deactivating = 25\<rparr>, 25) = 0"
  by (subst cooldown_loop.simps) (simp add: cooldown_step_def f64_demo_simps saturating_sub_def)

lemma demo_delegation_stake:
  "delegation_stake demo_delegation 6 (Some demo_history) True = 25"
  "delegation_stake demo_delegation 7 (Some demo_history) True = 0"
  by (simp_all add: delegation_stake_def stake_activating_and_deactivating_def stake_and_activating_def history_at_def
      demo_history_get demo_warmup demo_cooldown)

theorem deactivated_stake_falls_witness:
  "delegation_stake demo_delegation 6 (Some demo_history) True = 25 \<and>
   delegation_stake demo_delegation 7 (Some demo_history) True = 0 \<and>
   delegation_stake demo_delegation 7 (Some demo_history) True \<le> delegation_stake demo_delegation 6 (Some demo_history) True"
  using deactivated_stake_falls [of demo_delegation 6 7 "Some demo_history"] demo_delegation_stake by simp

end
