(* ===== verification/Stake_Rewards.thy ===== *)
theory Stake_Rewards
  imports Stake_State Vote_Program Vote_Credits
begin

text \<open>
  Inflation rewards of stakes (the first half of \<open>programs/stake/src/stake_state.rs\<close>): the points that a
  stake has earned with the credits of its vote account, the lamports they are worth, their split between
  staker and voter, and the entry that the stake history gets for an epoch. The events for the tracer are left
  out. The theorems: the payouts of a round stay within the lamports of the round, and no credit is paid twice.
\<close>

section \<open>Definitions\<close>

record point_value =
  pv_rewards :: u64
  pv_points :: u128

text \<open>One entry of \<open>epoch_credits\<close>: the points so far and the credits observed so far.\<close>

definition earn_epoch ::
  "stake \<Rightarrow> stake_history option \<Rightarrow> bool \<Rightarrow> epoch \<times> u64 \<times> u64 \<Rightarrow> u128 \<times> u64 \<Rightarrow> u128 \<times> u64" where
  "earn_epoch s history_opt fix_stake_deactivate =
     (\<lambda>(ep, final_epoch_credits, initial_epoch_credits) (points, new_credits_observed).
        let stake_amount = ucast (delegation_stake (stake_delegation s) ep history_opt fix_stake_deactivate) :: u128;
            earned_credits =
              (if credits_observed s < initial_epoch_credits then final_epoch_credits - initial_epoch_credits
               else if credits_observed s < final_epoch_credits then final_epoch_credits - new_credits_observed
               else 0);
            earned_points = stake_amount * ucast earned_credits
        in (points + earned_points, max new_credits_observed final_epoch_credits))"

definition calculate_stake_points_and_credits ::
  "stake \<Rightarrow> vote_state \<Rightarrow> stake_history option \<Rightarrow> bool \<Rightarrow> u128 \<times> u64" where
  "calculate_stake_points_and_credits s new_vote_state history_opt fix_stake_deactivate =
     (if credits new_vote_state \<le> credits_observed s then
        if fix_stake_deactivate then (0, credits_observed s) else (0, 0)
      else
        fold (earn_epoch s history_opt fix_stake_deactivate) (epoch_credits new_vote_state) (0, credits_observed s))"

definition calculate_stake_points :: "stake \<Rightarrow> vote_state \<Rightarrow> stake_history option \<Rightarrow> bool \<Rightarrow> u128" where
  "calculate_stake_points s vs history_opt fix_stake_deactivate =
     fst (calculate_stake_points_and_credits s vs history_opt fix_stake_deactivate)"

text \<open>\<open>u64::try_from\<close> on a \<open>u128\<close>.\<close>

definition u64_try_from :: "u128 \<Rightarrow> u64 option" where
  "u64_try_from w = (if unat w < 2 ^ 64 then Some (ucast w) else None)"

definition calculate_stake_rewards ::
  "stake \<Rightarrow> point_value \<Rightarrow> vote_state \<Rightarrow> stake_history option \<Rightarrow> bool \<Rightarrow> ((u64 \<times> u64 \<times> u64) option, 'e) result" where
  "calculate_stake_rewards s pv vs history_opt fix_stake_deactivate =
     (let (points, new_credits_observed) =
            calculate_stake_points_and_credits s vs history_opt fix_stake_deactivate
      in if pv_rewards pv = 0 \<and> fix_stake_deactivate then Ok (Some (0, 0, new_credits_observed))
         else if points = 0 then Ok None
         else if pv_points pv = 0 then Ok None
         else
           and_then (unwrap (checked_mul points (ucast (pv_rewards pv)))) (\<lambda>product.
           and_then (unwrap (checked_div product (pv_points pv))) (\<lambda>quotient.
           and_then (unwrap (u64_try_from quotient)) (\<lambda>rewards.
             if rewards = 0 then Ok None
             else
               let (voter_rewards, staker_rewards, is_split) = commission_split vs rewards
               in if (voter_rewards = 0 \<or> staker_rewards = 0) \<and> is_split then Ok None
                  else Ok (Some (staker_rewards, voter_rewards, new_credits_observed))))))"

definition redeem_stake_rewards ::
  "stake \<Rightarrow> point_value \<Rightarrow> vote_state \<Rightarrow> stake_history option \<Rightarrow> bool \<Rightarrow>
   ((u64 \<times> u64) option \<times> stake, 'e) result" where
  "redeem_stake_rewards s pv vs history_opt fix_stake_deactivate =
     and_then (calculate_stake_rewards s pv vs history_opt fix_stake_deactivate) (\<lambda>reward.
       case reward of
         Some (stakers_reward, voters_reward, new_credits_observed) \<Rightarrow>
           let d = stake_delegation s
           in Ok (Some (stakers_reward, voters_reward),
                  s\<lparr>credits_observed := new_credits_observed,
                    stake_delegation := d\<lparr>delegated_stake := delegated_stake d + stakers_reward\<rparr>\<rparr>)
       | None \<Rightarrow> Ok (None, s))"

text \<open>\<open>redeem_rewards\<close> returns the two rewards with the stake account and the vote account after it.\<close>

definition redeem_rewards ::
  "stake_state codec \<Rightarrow> account \<Rightarrow> account \<Rightarrow> vote_state \<Rightarrow> point_value \<Rightarrow> stake_history option \<Rightarrow> bool \<Rightarrow>
   ((u64 \<times> u64) \<times> account \<times> account, instruction_error) result" where
  "redeem_rewards c stake_account vote_account vs pv history_opt fix_stake_deactivate =
     and_then (account_state c stake_account) (\<lambda>state.
       case state of
         Staked m s \<Rightarrow>
           and_then (redeem_stake_rewards s pv vs history_opt fix_stake_deactivate) (\<lambda>(reward, s').
             case reward of
               Some (stakers_reward, voters_reward) \<Rightarrow>
                 and_then (map_err instruction_error_of_lamports_error
                   (checked_add_lamports stake_account stakers_reward)) (\<lambda>stake_account1.
                 and_then (map_err instruction_error_of_lamports_error
                   (checked_add_lamports vote_account voters_reward)) (\<lambda>vote_account1.
                 and_then (account_set_state c stake_account1 (Staked m s')) (\<lambda>stake_account2.
                   Ok ((stakers_reward, voters_reward), stake_account2, vote_account1))))
             | None \<Rightarrow> Err (of_stake_error NoCreditsToRedeem))
       | _ \<Rightarrow> Err InvalidAccountData)"

definition calculate_points ::
  "stake_state codec \<Rightarrow> vote_state_versions codec \<Rightarrow> account \<Rightarrow> account \<Rightarrow> stake_history option \<Rightarrow> bool \<Rightarrow>
   (u128, instruction_error) result" where
  "calculate_points c vc stake_account vote_account history_opt fix_stake_deactivate =
     and_then (account_state c stake_account) (\<lambda>state.
       case state of
         Staked _ s \<Rightarrow>
           and_then (account_state vc vote_account) (\<lambda>versioned.
             Ok (calculate_stake_points s (convert_to_current versioned) history_opt fix_stake_deactivate))
       | _ \<Rightarrow> Err InvalidAccountData)"

definition add_stakes :: "u64 \<times> u64 \<times> u64 \<Rightarrow> u64 \<times> u64 \<times> u64 \<Rightarrow> u64 \<times> u64 \<times> u64" where
  "add_stakes = (\<lambda>(a0, a1, a2) (b0, b1, b2). (a0 + b0, a1 + b1, a2 + b2))"

definition new_stake_history_entry ::
  "epoch \<Rightarrow> delegation list \<Rightarrow> stake_history option \<Rightarrow> bool \<Rightarrow> stake_history_entry" where
  "new_stake_history_entry ep stakes history_opt fix_stake_deactivate =
     (let (e, a, d) =
            fold (\<lambda>s sum. add_stakes sum (stake_activating_and_deactivating s ep history_opt fix_stake_deactivate))
              stakes (0, 0, 0)
      in \<lparr>effective = e, activating = a, deactivating = d\<rparr>)"

section \<open>Rewards\<close>

lemma unat_ucast_u128: "unat (ucast (w::u64) :: u128) = unat w"
  using unat_u64_bound [of w] by (simp add: unsigned_ucast_eq take_bit_nat_eq_self_iff)

lemma unat_u64_try_from: "u64_try_from w = Some r \<Longrightarrow> unat r = unat w"
  by (auto simp: u64_try_from_def unsigned_ucast_eq take_bit_nat_eq_self_iff split: if_splits)

text \<open>A payout is at most the share of the points, and moves the observed credits forward.\<close>

lemma calculate_stake_rewards_le:
  assumes "calculate_stake_rewards s pv vs history_opt b = Ok (Some (stakers, voters, observed))"
  shows "unat stakers + unat voters \<le>
      unat (calculate_stake_points s vs history_opt b) * unat (pv_rewards pv) div unat (pv_points pv)"
    and "observed = snd (calculate_stake_points_and_credits s vs history_opt b)"
proof -
  obtain points creds where pc: "calculate_stake_points_and_credits s vs history_opt b = (points, creds)" by fastforce
  have p: "calculate_stake_points s vs history_opt b = points" by (simp add: calculate_stake_points_def pc)
  consider "stakers = 0" "voters = 0" "observed = creds"
    | product quotient rewards is_split where
      "checked_mul points (ucast (pv_rewards pv)) = Some product" "checked_div product (pv_points pv) = Some quotient"
      "u64_try_from quotient = Some rewards" "commission_split vs rewards = (voters, stakers, is_split)" "observed = creds"
    using assms
    by (auto simp: calculate_stake_rewards_def pc Let_def and_then_Ok_iff unwrap_Ok_iff split: if_splits prod.splits)
  then have "unat stakers + unat voters \<le> unat points * unat (pv_rewards pv) div unat (pv_points pv) \<and> observed = creds"
  proof cases
    case 2
    have "unat product = unat points * unat (pv_rewards pv)"
      using 2(1) by (auto simp: checked_mul_def unat_ucast_u128 unat_mul_less split: if_splits)
    moreover have "unat quotient = unat product div unat (pv_points pv)"
      using 2(2) by (auto simp: checked_div_def unat_div split: if_splits)
    ultimately have "unat rewards = unat points * unat (pv_rewards pv) div unat (pv_points pv)"
      using unat_u64_try_from [OF 2(3)] by simp
    moreover have "unat voters + unat stakers \<le> unat rewards" using commission_split_sound [OF 2(4)] by simp
    ultimately show ?thesis using 2(5) by linarith
  qed simp
  then show "unat stakers + unat voters \<le>
      unat (calculate_stake_points s vs history_opt b) * unat (pv_rewards pv) div unat (pv_points pv)"
    and "observed = snd (calculate_stake_points_and_credits s vs history_opt b)"
    by (simp_all add: p pc)
qed

text \<open>What one stake is paid in a round.\<close>

definition payout :: "point_value \<Rightarrow> stake_history option \<Rightarrow> bool \<Rightarrow> stake \<times> vote_state \<Rightarrow> nat" where
  "payout pv history_opt b = (\<lambda>(s, vs).
     case calculate_stake_rewards s pv vs history_opt b :: ((u64 \<times> u64 \<times> u64) option, unit) result of
       Ok (Some (stakers, voters, _)) \<Rightarrow> unat stakers + unat voters
     | _ \<Rightarrow> 0)"

lemma payout_le:
  "payout pv history_opt b (s, vs) \<le>
     unat (calculate_stake_points s vs history_opt b) * unat (pv_rewards pv) div unat (pv_points pv)"
  using calculate_stake_rewards_le(1) [of s pv vs history_opt b]
  by (auto simp: payout_def split: result.splits option.splits)

lemma sum_div_le: "sum_list (map (\<lambda>x. f x div n) xs) \<le> sum_list (map f xs) div (n::nat)"
proof (induction xs)
  case (Cons x xs)
  have "f x div n + sum_list (map f xs) div n \<le> (f x + sum_list (map f xs)) div n"
    using div_add1_eq [of "f x" "sum_list (map f xs)" n] by linarith
  with Cons show ?case by simp
qed simp

text \<open>
  C19: A round of inflation rewards pays out no more than it has. When the points of the round are at least the
  sum of the points of all its stakes, the staker's and the voter's parts of all payouts, with the rounding and
  the commission of each, sum up to at most the lamports of the round.
\<close>

theorem rewards_within_pot:
  assumes "sum_list (map (\<lambda>(s, vs). unat (calculate_stake_points s vs history_opt b)) stakes) \<le> unat (pv_points pv)"
  shows "sum_list (map (payout pv history_opt b) stakes) \<le> unat (pv_rewards pv)"
proof -
  let ?p = "\<lambda>x. unat (calculate_stake_points (fst x) (snd x) history_opt b)"
  have "sum_list (map (payout pv history_opt b) stakes) \<le>
      sum_list (map (\<lambda>x. ?p x * unat (pv_rewards pv) div unat (pv_points pv)) stakes)"
    by (intro sum_list_mono) (metis payout_le prod.collapse)
  also have "\<dots> \<le> sum_list (map (\<lambda>x. ?p x * unat (pv_rewards pv)) stakes) div unat (pv_points pv)"
    by (rule sum_div_le)
  also have "sum_list (map (\<lambda>x. ?p x * unat (pv_rewards pv)) stakes) = sum_list (map ?p stakes) * unat (pv_rewards pv)"
    by (simp add: sum_list_mult_const)
  also have "sum_list (map ?p stakes) * unat (pv_rewards pv) div unat (pv_points pv) \<le>
      unat (pv_points pv) * unat (pv_rewards pv) div unat (pv_points pv)"
    using assms by (intro div_le_mono mult_le_mono1) (simp add: case_prod_unfold)
  also have "\<dots> \<le> unat (pv_rewards pv)" by (cases "unat (pv_points pv) = 0") simp_all
  finally show ?thesis .
qed

lemma fold_earn_observed:
  "ecs \<noteq> [] \<Longrightarrow> fst (snd (last ecs)) \<le> snd (fold (earn_epoch s history_opt b) ecs acc)"
  by (cases ecs rule: rev_cases) (auto simp: earn_epoch_def Let_def case_prod_beta)

lemma observed_credits:
  "credits vs \<le> snd (calculate_stake_points_and_credits s vs history_opt b) \<or> credits vs \<le> credits_observed s"
  using fold_earn_observed [of "epoch_credits vs"]
  by (auto simp: calculate_stake_points_and_credits_def credits_def)

text \<open>
  C20: No credit is paid twice. After the rewards of a stake were redeemed, the stake has observed all credits of
  its vote account: it has no points left, at any later time and with any history, until the vote account earns
  more credits. The stake grew by exactly the staker's part.
\<close>

theorem rewards_redeemed_once:
  assumes "redeem_stake_rewards s pv vs history_opt b = (Ok (Some (stakers, voters), s') :: (_, instruction_error) result)"
    and "0 < stakers \<or> 0 < voters"
  shows "calculate_stake_points s' vs history_opt' b' = 0 \<and> credits vs \<le> credits_observed s' \<and>
    delegated_stake (stake_delegation s') = delegated_stake (stake_delegation s) + stakers"
proof -
  obtain observed where r: "calculate_stake_rewards s pv vs history_opt b =
      (Ok (Some (stakers, voters, observed)) :: (_, instruction_error) result)"
    and s': "s' = s\<lparr>credits_observed := observed,
      stake_delegation := (stake_delegation s)\<lparr>delegated_stake := delegated_stake (stake_delegation s) + stakers\<rparr>\<rparr>"
    using assms(1) by (auto simp: redeem_stake_rewards_def Let_def and_then_Ok_iff split: option.splits)
  note le = calculate_stake_rewards_le [OF r]
  have "\<not> credits vs \<le> credits_observed s"
  proof
    assume "credits vs \<le> credits_observed s"
    then have "calculate_stake_points s vs history_opt b = 0"
      by (simp add: calculate_stake_points_def calculate_stake_points_and_credits_def)
    with le(1) assms(2) show False by (auto simp: word_less_nat_alt)
  qed
  then have "credits vs \<le> observed" using observed_credits [of vs s history_opt b] le(2) by simp
  then show ?thesis
    by (simp add: s' calculate_stake_points_def calculate_stake_points_and_credits_def)
qed

text \<open>Witnesses: two bootstrap stakes with one vote account.\<close>

definition demo_stake :: "u64 \<Rightarrow> u64 \<Rightarrow> stake" where
  "demo_stake amount observed =
     \<lparr>stake_delegation = delegation_new 3 amount (- 1) DEFAULT_WARMUP_COOLDOWN_RATE, credits_observed = observed\<rparr>"

definition demo_voted :: vote_state where
  "demo_voted = vote_state_default\<lparr>epoch_credits := [(5, 10, 4)]\<rparr>"

definition demo_point_value :: point_value where
  "demo_point_value = \<lparr>pv_rewards = 1000, pv_points = 900\<rparr>"

lemma demo_effective: "delegation_stake (stake_delegation (demo_stake amount observed)) 5 history_opt True = amount"
  by (simp add: demo_stake_def delegation_stake_def stake_activating_and_deactivating_def stake_and_activating_def
      is_bootstrap_def delegation_new_def delegation_default_def Let_def)

lemma demo_points:
  "calculate_stake_points_and_credits (demo_stake 100 4) demo_voted None True = (600, 10)"
  "calculate_stake_points_and_credits (demo_stake 50 0) demo_voted None True = (300, 10)"
  by (simp_all add: calculate_stake_points_and_credits_def demo_voted_def credits_def earn_epoch_def demo_effective Let_def)
     (simp_all add: demo_stake_def max_def)

lemma demo_commission: "commission_split demo_voted rewards = (0, rewards, False)"
  by (simp add: commission_split_def demo_voted_def vote_state_default_def)

lemma demo_rewards:
  "calculate_stake_rewards (demo_stake 100 4) demo_point_value demo_voted None True = Ok (Some (666, 0, 10))"
  "calculate_stake_rewards (demo_stake 50 0) demo_point_value demo_voted None True = Ok (Some (333, 0, 10))"
  by (simp_all add: calculate_stake_rewards_def demo_points demo_commission demo_point_value_def checked_mul_def
      checked_div_def u64_try_from_def)

theorem rewards_within_pot_witness:
  "sum_list (map (payout demo_point_value None True) [(demo_stake 100 4, demo_voted), (demo_stake 50 0, demo_voted)]) = 999 \<and>
   sum_list (map (payout demo_point_value None True) [(demo_stake 100 4, demo_voted), (demo_stake 50 0, demo_voted)])
     \<le> unat (pv_rewards demo_point_value)"
proof
  show "sum_list (map (payout demo_point_value None True) [(demo_stake 100 4, demo_voted), (demo_stake 50 0, demo_voted)]) = 999"
    by (simp add: payout_def demo_rewards)
  show "sum_list (map (payout demo_point_value None True) [(demo_stake 100 4, demo_voted), (demo_stake 50 0, demo_voted)])
     \<le> unat (pv_rewards demo_point_value)"
    by (rule rewards_within_pot) (simp add: calculate_stake_points_def demo_points demo_point_value_def)
qed

theorem rewards_redeemed_once_witness:
  "\<exists>s'. redeem_stake_rewards (demo_stake 100 4) demo_point_value demo_voted None True =
       (Ok (Some (666, 0), s') :: (_, instruction_error) result) \<and>
     calculate_stake_points s' demo_voted (Some []) False = 0"
proof -
  obtain s' where r: "redeem_stake_rewards (demo_stake 100 4) demo_point_value demo_voted None True =
      (Ok (Some (666, 0), s') :: (_, instruction_error) result)"
    by (simp add: redeem_stake_rewards_def demo_rewards Let_def)
  have "calculate_stake_points s' demo_voted (Some []) False = 0"
    using rewards_redeemed_once [OF r, of "Some []" False] by simp
  with r show ?thesis by blast
qed

end
