(* ===== verification/Stake_Program.thy ===== *)
theory Stake_Program
  imports Stake_Rewards System_Program Config_Program
begin

text \<open>
  The stake program: the operations on stake accounts (\<open>programs/stake/src/stake_state.rs\<close>), its config account
  (\<open>programs/stake/src/config.rs\<close>) and the dispatch of its instructions (\<open>programs/stake/src/stake_instruction.rs\<close>,
  the instruction type of \<open>sdk/program/src/stake/instruction.rs\<close>). Log messages are left out.
\<close>

section \<open>Delegating\<close>

definition redelegate ::
  "stake \<Rightarrow> u64 \<Rightarrow> pubkey \<Rightarrow> vote_state \<Rightarrow> clock \<Rightarrow> stake_history \<Rightarrow> stake_config \<Rightarrow> bool \<Rightarrow>
   (stake, stake_error) result" where
  "redelegate s stake_lamports voter vs clk history config can_reverse_deactivation =
     (let d = stake_delegation s in
      if stake_stake s (clock_epoch clk) (Some history) True \<noteq> 0 then
        if voter_pubkey d = voter \<and> clock_epoch clk = deactivation_epoch d \<and> can_reverse_deactivation
        then Ok (s\<lparr>stake_delegation := d\<lparr>deactivation_epoch := - 1\<rparr>\<rparr>)
        else Err TooSoonToRedelegate
      else
        Ok (s\<lparr>stake_delegation :=
               d\<lparr>delegated_stake := stake_lamports, activation_epoch := clock_epoch clk,
                 deactivation_epoch := - 1, voter_pubkey := voter,
                 warmup_cooldown_rate := config_warmup_cooldown_rate config\<rparr>,
             credits_observed := credits vs\<rparr>))"

definition new_stake :: "u64 \<Rightarrow> pubkey \<Rightarrow> vote_state \<Rightarrow> epoch \<Rightarrow> stake_config \<Rightarrow> stake" where
  "new_stake amount voter vs activation config =
     \<lparr>stake_delegation = delegation_new voter amount activation (config_warmup_cooldown_rate config),
      credits_observed = credits vs\<rparr>"

section \<open>Operations on stake accounts\<close>

definition stake_initialize ::
  "stake_state codec \<Rightarrow> store \<Rightarrow> keyed_account \<Rightarrow> authorized \<Rightarrow> lockup \<Rightarrow> rent \<Rightarrow> (store, instruction_error) result" where
  "stake_initialize c st me a l r =
     (if ka_data_len st me \<noteq> STAKE_STATE_SIZE then Err InvalidAccountData
      else
        and_then (ka_state c st me) (\<lambda>state.
          case state of
            StakeUninitialized \<Rightarrow>
              let reserve = minimum_balance r (ka_data_len st me)
              in if reserve < ka_lamports st me
                 then ka_set_state c st me
                   (StakeInitialized \<lparr>rent_exempt_reserve = reserve, meta_authorized = a, meta_lockup = l\<rparr>)
                 else Err InsufficientFunds
          | _ \<Rightarrow> Err InvalidAccountData))"

definition stake_authorize_account ::
  "stake_state codec \<Rightarrow> store \<Rightarrow> keyed_account \<Rightarrow> pubkey set \<Rightarrow> pubkey \<Rightarrow> stake_authorize \<Rightarrow> bool \<Rightarrow> clock \<Rightarrow>
   pubkey option \<Rightarrow> (store, instruction_error) result" where
  "stake_authorize_account c st me signers new_authority sa require_custodian clk custodian =
     and_then (ka_state c st me) (\<lambda>state.
       case state of
         Staked m s \<Rightarrow>
           and_then (authorized_authorize (meta_authorized m) signers new_authority sa
             (if require_custodian then Some (meta_lockup m, clk, custodian) else None)) (\<lambda>a.
             ka_set_state c st me (Staked (m\<lparr>meta_authorized := a\<rparr>) s))
       | StakeInitialized m \<Rightarrow>
           and_then (authorized_authorize (meta_authorized m) signers new_authority sa
             (if require_custodian then Some (meta_lockup m, clk, custodian) else None)) (\<lambda>a.
             ka_set_state c st me (StakeInitialized (m\<lparr>meta_authorized := a\<rparr>)))
       | _ \<Rightarrow> Err InvalidAccountData)"

definition stake_authorize_with_seed ::
  "crypto \<Rightarrow> stake_state codec \<Rightarrow> store \<Rightarrow> keyed_account \<Rightarrow> keyed_account \<Rightarrow> u8 list \<Rightarrow> pubkey \<Rightarrow> pubkey \<Rightarrow>
   stake_authorize \<Rightarrow> bool \<Rightarrow> clock \<Rightarrow> pubkey option \<Rightarrow> (store, instruction_error) result" where
  "stake_authorize_with_seed cr c st me authority_base authority_seed authority_owner new_authority sa
       require_custodian clk custodian =
     and_then
       (case signer_key authority_base of
          Some base_pubkey \<Rightarrow>
            and_then (map_err of_pubkey_error (create_with_seed cr base_pubkey authority_seed authority_owner)) (\<lambda>k. Ok {k})
        | None \<Rightarrow> Ok {}) (\<lambda>signers.
       stake_authorize_account c st me signers new_authority sa require_custodian clk custodian)"

definition stake_delegate ::
  "stake_state codec \<Rightarrow> vote_state_versions codec \<Rightarrow> store \<Rightarrow> keyed_account \<Rightarrow> keyed_account \<Rightarrow> clock \<Rightarrow>
   stake_history \<Rightarrow> stake_config \<Rightarrow> pubkey set \<Rightarrow> bool \<Rightarrow> (store, instruction_error) result" where
  "stake_delegate c vc st me vote_account clk history config signers can_reverse_deactivation =
     (if ka_owner st vote_account \<noteq> vote_program_id then Err IncorrectProgramId
      else
        and_then (ka_state c st me) (\<lambda>state.
          case state of
            StakeInitialized m \<Rightarrow>
              and_then (authorized_check (meta_authorized m) signers Staker) (\<lambda>_.
              and_then (ka_state vc st vote_account) (\<lambda>versioned.
                ka_set_state c st me (Staked m
                  (new_stake (saturating_sub (ka_lamports st me) (rent_exempt_reserve m)) (unsigned_key vote_account)
                     (convert_to_current versioned) (clock_epoch clk) config))))
          | Staked m s \<Rightarrow>
              and_then (authorized_check (meta_authorized m) signers Staker) (\<lambda>_.
              and_then (ka_state vc st vote_account) (\<lambda>versioned.
              and_then (map_err of_stake_error
                (redelegate s (saturating_sub (ka_lamports st me) (rent_exempt_reserve m)) (unsigned_key vote_account)
                   (convert_to_current versioned) clk history config can_reverse_deactivation)) (\<lambda>s'.
                ka_set_state c st me (Staked m s'))))
          | _ \<Rightarrow> Err InvalidAccountData))"

definition stake_deactivate_account ::
  "stake_state codec \<Rightarrow> store \<Rightarrow> keyed_account \<Rightarrow> clock \<Rightarrow> pubkey set \<Rightarrow> (store, instruction_error) result" where
  "stake_deactivate_account c st me clk signers =
     and_then (ka_state c st me) (\<lambda>state.
       case state of
         Staked m s \<Rightarrow>
           and_then (authorized_check (meta_authorized m) signers Staker) (\<lambda>_.
           and_then (map_err of_stake_error (stake_deactivate s (clock_epoch clk))) (\<lambda>s'.
             ka_set_state c st me (Staked m s')))
       | _ \<Rightarrow> Err InvalidAccountData)"

definition stake_set_lockup ::
  "stake_state codec \<Rightarrow> store \<Rightarrow> keyed_account \<Rightarrow> lockup_args \<Rightarrow> pubkey set \<Rightarrow> clock option \<Rightarrow>
   (store, instruction_error) result" where
  "stake_set_lockup c st me args signers clk_opt =
     and_then (ka_state c st me) (\<lambda>state.
       case state of
         StakeInitialized m \<Rightarrow>
           and_then (meta_set_lockup m args signers clk_opt) (\<lambda>m'. ka_set_state c st me (StakeInitialized m'))
       | Staked m s \<Rightarrow>
           and_then (meta_set_lockup m args signers clk_opt) (\<lambda>m'. ka_set_state c st me (Staked m' s))
       | _ \<Rightarrow> Err InvalidAccountData)"

subsection \<open>Splitting\<close>

definition calculate_split_rent_exempt_reserve :: "u64 \<Rightarrow> u64 \<Rightarrow> u64 \<Rightarrow> u64" where
  "calculate_split_rent_exempt_reserve source_rent_exempt_reserve source_data_len split_data_len =
     (let per_byte_year = source_rent_exempt_reserve div (source_data_len + ACCOUNT_STORAGE_OVERHEAD)
      in per_byte_year * (split_data_len + ACCOUNT_STORAGE_OVERHEAD))"

text \<open>
  The check that both match arms of \<open>split\<close> make: enough lamports for the rent of the new account and more than
  nothing to stake there; and, unless everything is split off, more than nothing left beside the reserve.
\<close>

definition split_funds_ok ::
  "store \<Rightarrow> keyed_account \<Rightarrow> keyed_account \<Rightarrow> u64 \<Rightarrow> meta \<Rightarrow> u64 \<Rightarrow> (unit, instruction_error) result" where
  "split_funds_ok st me split lamports m split_reserve =
     (if lamports \<le> saturating_sub split_reserve (ka_lamports st split) then Err InsufficientFunds
      else if lamports \<noteq> ka_lamports st me then
        and_then (instruction_checked_add lamports (rent_exempt_reserve m)) (\<lambda>needed.
          if ka_lamports st me \<le> needed then Err InsufficientFunds else Ok ())
      else Ok ())"

text \<open>The match of \<open>split\<close> on the state of the source: the store with the new states.\<close>

definition split_states ::
  "stake_state codec \<Rightarrow> store \<Rightarrow> keyed_account \<Rightarrow> u64 \<Rightarrow> keyed_account \<Rightarrow> pubkey set \<Rightarrow>
   (store, instruction_error) result" where
  "split_states c st me lamports split signers =
     and_then (ka_state c st me) (\<lambda>state.
       case state of
         Staked m s \<Rightarrow>
           and_then (authorized_check (meta_authorized m) signers Staker) (\<lambda>_.
           let split_reserve = calculate_split_rent_exempt_reserve (rent_exempt_reserve m)
                 (word_of_nat (ka_data_len st me)) (word_of_nat (ka_data_len st split))
           in and_then (split_funds_ok st me split lamports m split_reserve) (\<lambda>_.
              let (remaining_stake_delta, split_stake_amount) =
                    (if lamports = ka_lamports st me
                     then let delta = saturating_sub lamports (rent_exempt_reserve m) in (delta, delta)
                     else (lamports, lamports - saturating_sub split_reserve (ka_lamports st split)))
              in and_then (map_err of_stake_error (stake_split s remaining_stake_delta split_stake_amount))
                   (\<lambda>(s', split_s).
                   and_then (ka_set_state c st me (Staked m s')) (\<lambda>st1.
                     ka_set_state c st1 split (Staked (m\<lparr>rent_exempt_reserve := split_reserve\<rparr>) split_s)))))
       | StakeInitialized m \<Rightarrow>
           and_then (authorized_check (meta_authorized m) signers Staker) (\<lambda>_.
           let split_reserve = calculate_split_rent_exempt_reserve (rent_exempt_reserve m)
                 (word_of_nat (ka_data_len st me)) (word_of_nat (ka_data_len st split))
           in and_then (split_funds_ok st me split lamports m split_reserve) (\<lambda>_.
                ka_set_state c st split (StakeInitialized (m\<lparr>rent_exempt_reserve := split_reserve\<rparr>))))
       | StakeUninitialized \<Rightarrow>
           if unsigned_key me \<notin> signers then Err MissingRequiredSignature else Ok st
       | RewardsPool \<Rightarrow> Err InvalidAccountData)"

definition split_stake_account ::
  "stake_state codec \<Rightarrow> store \<Rightarrow> keyed_account \<Rightarrow> u64 \<Rightarrow> keyed_account \<Rightarrow> pubkey set \<Rightarrow>
   (store, instruction_error) result" where
  "split_stake_account c st me lamports split signers =
     (if ka_owner st split \<noteq> stake_program_id then Err IncorrectProgramId
      else if ka_data_len st split \<noteq> STAKE_STATE_SIZE then Err InvalidAccountData
      else
        and_then (ka_state c st split) (\<lambda>split_state.
          case split_state of
            StakeUninitialized \<Rightarrow>
              if ka_lamports st me < lamports then Err InsufficientFunds
              else
                and_then (split_states c st me lamports split signers) (\<lambda>st1.
                and_then (if lamports = ka_lamports st1 me then ka_set_state c st1 me StakeUninitialized else Ok st1)
                  (\<lambda>st2. and_then (credit st2 split lamports) (\<lambda>st3. debit st3 me lamports)))
          | _ \<Rightarrow> Err InvalidAccountData))"

subsection \<open>Merging\<close>

datatype merge_kind =
  Inactive meta u64
| ActivationEpoch meta stake
| FullyActive meta stake

fun mk_meta :: "merge_kind \<Rightarrow> meta" where
  "mk_meta (Inactive m _) = m"
| "mk_meta (ActivationEpoch m _) = m"
| "mk_meta (FullyActive m _) = m"

fun mk_active_stake :: "merge_kind \<Rightarrow> stake option" where
  "mk_active_stake (Inactive _ _) = None"
| "mk_active_stake (ActivationEpoch _ s) = Some s"
| "mk_active_stake (FullyActive _ s) = Some s"

definition get_if_mergeable ::
  "stake_state codec \<Rightarrow> store \<Rightarrow> keyed_account \<Rightarrow> clock \<Rightarrow> stake_history \<Rightarrow> (merge_kind, instruction_error) result" where
  "get_if_mergeable c st ka clk history =
     and_then (ka_state c st ka) (\<lambda>state.
       case state of
         Staked m s \<Rightarrow>
           let (e, a, d) = stake_activating_and_deactivating (stake_delegation s) (clock_epoch clk) (Some history) True
           in if e = 0 \<and> a = 0 \<and> d = 0 then Ok (Inactive m (ka_lamports st ka))
              else if e = 0 then Ok (ActivationEpoch m s)
              else if a = 0 \<and> d = 0 then Ok (FullyActive m s)
              else Err (of_stake_error MergeTransientStake)
       | StakeInitialized m \<Rightarrow> Ok (Inactive m (ka_lamports st ka))
       | _ \<Rightarrow> Err InvalidAccountData)"

definition metas_can_merge :: "meta \<Rightarrow> meta \<Rightarrow> clock option \<Rightarrow> (unit, instruction_error) result" where
  "metas_can_merge m source clk_opt =
     (let can_merge_lockups =
            (case clk_opt of
               None \<Rightarrow> meta_lockup m = meta_lockup source
             | Some clk \<Rightarrow>
                 meta_lockup m = meta_lockup source \<or>
                 (\<not> is_in_force (meta_lockup m) clk None \<and> \<not> is_in_force (meta_lockup source) clk None))
      in if meta_authorized m = meta_authorized source \<and> can_merge_lockups then Ok ()
         else Err (of_stake_error MergeMismatch))"

definition active_delegations_can_merge :: "delegation \<Rightarrow> delegation \<Rightarrow> (unit, instruction_error) result" where
  "active_delegations_can_merge d source =
     (if voter_pubkey d \<noteq> voter_pubkey source then Err (of_stake_error MergeMismatch)
      else if f64_less (f64_abs (f64_sub (warmup_cooldown_rate d) (warmup_cooldown_rate source))) f64_EPSILON \<and>
         deactivation_epoch d = - 1 \<and> deactivation_epoch source = - 1
      then Ok ()
      else Err (of_stake_error MergeMismatch))"

definition active_stakes_can_merge :: "stake \<Rightarrow> stake \<Rightarrow> (unit, instruction_error) result" where
  "active_stakes_can_merge s source =
     and_then (active_delegations_can_merge (stake_delegation s) (stake_delegation source)) (\<lambda>_.
       if credits_observed s = credits_observed source then Ok ()
       else Err (of_stake_error MergeMismatch))"

text \<open>The stake with the stake of another delegation added to it.\<close>

definition add_delegated :: "stake \<Rightarrow> u64 \<Rightarrow> (stake, instruction_error) result" where
  "add_delegated s lamports =
     and_then (instruction_checked_add (delegated_stake (stake_delegation s)) lamports) (\<lambda>amount.
       Ok (s\<lparr>stake_delegation := (stake_delegation s)\<lparr>delegated_stake := amount\<rparr>\<rparr>))"

definition mk_merge :: "merge_kind \<Rightarrow> merge_kind \<Rightarrow> clock option \<Rightarrow> (stake_state option, instruction_error) result" where
  "mk_merge me source clk_opt =
     and_then (metas_can_merge (mk_meta me) (mk_meta source) clk_opt) (\<lambda>_.
     and_then
       (case (mk_active_stake me, mk_active_stake source) of
          (Some s, Some source_s) \<Rightarrow> active_stakes_can_merge s source_s
        | _ \<Rightarrow> Ok ()) (\<lambda>_.
       case (me, source) of
         (Inactive _ _, Inactive _ _) \<Rightarrow> Ok None
       | (Inactive _ _, ActivationEpoch _ _) \<Rightarrow> Ok None
       | (ActivationEpoch m s, Inactive _ source_lamports) \<Rightarrow>
           and_then (add_delegated s source_lamports) (\<lambda>s'. Ok (Some (Staked m s')))
       | (ActivationEpoch m s, ActivationEpoch source_m source_s) \<Rightarrow>
           and_then (instruction_checked_add (rent_exempt_reserve source_m)
             (delegated_stake (stake_delegation source_s))) (\<lambda>source_lamports.
           and_then (add_delegated s source_lamports) (\<lambda>s'. Ok (Some (Staked m s'))))
       | (FullyActive m s, FullyActive _ source_s) \<Rightarrow>
           and_then (add_delegated s (delegated_stake (stake_delegation source_s))) (\<lambda>s'. Ok (Some (Staked m s')))
       | _ \<Rightarrow> Err (of_stake_error MergeMismatch)))"

definition merge_stake_accounts ::
  "stake_state codec \<Rightarrow> store \<Rightarrow> keyed_account \<Rightarrow> keyed_account \<Rightarrow> clock \<Rightarrow> stake_history \<Rightarrow> pubkey set \<Rightarrow> bool \<Rightarrow>
   (store, instruction_error) result" where
  "merge_stake_accounts c st me source clk history signers can_merge_expired_lockups =
     (if ka_owner st source \<noteq> stake_program_id then Err IncorrectProgramId
      else if unsigned_key source = unsigned_key me then Err InvalidArgument
      else
        and_then (get_if_mergeable c st me clk history) (\<lambda>stake_merge_kind.
        and_then (authorized_check (meta_authorized (mk_meta stake_merge_kind)) signers Staker) (\<lambda>_.
        and_then (get_if_mergeable c st source clk history) (\<lambda>source_merge_kind.
        and_then (mk_merge stake_merge_kind source_merge_kind (if can_merge_expired_lockups then Some clk else None))
          (\<lambda>merged.
        and_then (case merged of Some merged_state \<Rightarrow> ka_set_state c st me merged_state | None \<Rightarrow> Ok st) (\<lambda>st1.
        and_then (ka_set_state c st1 source StakeUninitialized) (\<lambda>st2.
          let lamports = ka_lamports st2 source
          in and_then (debit st2 source lamports) (\<lambda>st3. credit st3 me lamports))))))))"

subsection \<open>Withdrawing\<close>

text \<open>The lockup, the lamports that have to stay, and whether there is stake: the match of \<open>withdraw\<close>.\<close>

definition withdraw_reserve ::
  "stake_state codec \<Rightarrow> store \<Rightarrow> keyed_account \<Rightarrow> clock \<Rightarrow> stake_history \<Rightarrow> pubkey set \<Rightarrow> bool \<Rightarrow>
   (lockup \<times> u64 \<times> bool, instruction_error) result" where
  "withdraw_reserve c st me clk history signers prevent_withdraw_to_zero =
     and_then (ka_state c st me) (\<lambda>state.
       case state of
         Staked m s \<Rightarrow>
           and_then (authorized_check (meta_authorized m) signers StakeWithdrawer) (\<lambda>_.
           let staked =
                 (if deactivation_epoch (stake_delegation s) \<le> clock_epoch clk
                  then delegation_stake (stake_delegation s) (clock_epoch clk) (Some history) True
                  else delegated_stake (stake_delegation s))
           in and_then (instruction_checked_add staked (rent_exempt_reserve m)) (\<lambda>staked_and_reserve.
                Ok (meta_lockup m, staked_and_reserve, staked \<noteq> 0)))
       | StakeInitialized m \<Rightarrow>
           and_then (authorized_check (meta_authorized m) signers StakeWithdrawer) (\<lambda>_.
           and_then (if prevent_withdraw_to_zero then instruction_checked_add (rent_exempt_reserve m) 1
                     else Ok (rent_exempt_reserve m)) (\<lambda>reserve.
             Ok (meta_lockup m, reserve, False)))
       | StakeUninitialized \<Rightarrow>
           if unsigned_key me \<notin> signers then Err MissingRequiredSignature
           else Ok (lockup_default, 0, False)
       | RewardsPool \<Rightarrow> Err InvalidAccountData)"

definition stake_withdraw ::
  "stake_state codec \<Rightarrow> store \<Rightarrow> keyed_account \<Rightarrow> u64 \<Rightarrow> keyed_account \<Rightarrow> clock \<Rightarrow> stake_history \<Rightarrow> keyed_account \<Rightarrow>
   keyed_account option \<Rightarrow> bool \<Rightarrow> (store, instruction_error) result" where
  "stake_withdraw c st me lamports to clk history withdraw_authority custodian prevent_withdraw_to_zero =
     and_then (ok_or (signer_key withdraw_authority) MissingRequiredSignature) (\<lambda>withdraw_authority_pubkey.
     and_then (withdraw_reserve c st me clk history {withdraw_authority_pubkey} prevent_withdraw_to_zero)
       (\<lambda>(l, reserve, is_staked).
     let custodian_pubkey = Option.bind custodian signer_key in
     if is_in_force l clk custodian_pubkey then Err (of_stake_error LockupInForce)
     else
       and_then (instruction_checked_add lamports reserve) (\<lambda>lamports_and_reserve.
       if is_staked \<and> ka_lamports st me < lamports_and_reserve then Err InsufficientFunds
       else if lamports \<noteq> ka_lamports st me \<and> ka_lamports st me < lamports_and_reserve
       then if is_staked then Panic else Err InsufficientFunds
       else
         and_then (if lamports = ka_lamports st me then ka_set_state c st me StakeUninitialized else Ok st) (\<lambda>st1.
         and_then (debit st1 me lamports) (\<lambda>st2. credit st2 to lamports)))))"

section \<open>Accounts made and corrected by the runtime\<close>

definition stake_state_from :: "stake_state codec \<Rightarrow> account \<Rightarrow> stake_state option" where
  "stake_state_from c a = (case account_state c a of Ok s \<Rightarrow> Some s | _ \<Rightarrow> None)"

definition stake_from :: "stake_state codec \<Rightarrow> account \<Rightarrow> stake option" where
  "stake_from c a = Option.bind (stake_state_from c a) state_stake"

definition delegation_from :: "stake_state codec \<Rightarrow> account \<Rightarrow> delegation option" where
  "delegation_from c a = Option.bind (stake_state_from c a) state_delegation"

definition authorized_from :: "stake_state codec \<Rightarrow> account \<Rightarrow> authorized option" where
  "authorized_from c a = Option.bind (stake_state_from c a) state_authorized"

definition lockup_from :: "stake_state codec \<Rightarrow> account \<Rightarrow> lockup option" where
  "lockup_from c a = Option.bind (stake_state_from c a) state_lockup"

definition meta_from :: "stake_state codec \<Rightarrow> account \<Rightarrow> meta option" where
  "meta_from c a = Option.bind (stake_state_from c a) state_meta"

text \<open>\<open>rewrite_stakes\<close> returns its status with the account after it.\<close>

definition rewrite_stakes ::
  "stake_state codec \<Rightarrow> account \<Rightarrow> rent \<Rightarrow>
   ((string \<times> (u64 \<times> u64) \<times> (u64 \<times> u64)) \<times> account, instruction_error) result" where
  "rewrite_stakes c stake_account r =
     and_then (account_state c stake_account) (\<lambda>state.
       case state of
         StakeInitialized m \<Rightarrow>
           let (meta_status, m') = rewrite_rent_exempt_reserve m r (length (acc_data stake_account))
           in if meta_status = None then Err InvalidAccountData
              else
                and_then (account_set_state c stake_account (StakeInitialized m')) (\<lambda>a.
                  Ok ((''initialized'', case meta_status of Some x \<Rightarrow> x | None \<Rightarrow> (0, 0), (0, 0)), a))
       | Staked m s \<Rightarrow>
           let (meta_status, m') = rewrite_rent_exempt_reserve m r (length (acc_data stake_account));
               (stake_status, d') =
                 rewrite_stake (stake_delegation s) (acc_lamports stake_account) (rent_exempt_reserve m')
           in if meta_status = None \<and> stake_status = None then Err InvalidAccountData
              else
                and_then (account_set_state c stake_account (Staked m' (s\<lparr>stake_delegation := d'\<rparr>))) (\<lambda>a.
                  Ok ((''stake'', case meta_status of Some x \<Rightarrow> x | None \<Rightarrow> (0, 0),
                       case stake_status of Some x \<Rightarrow> x | None \<Rightarrow> (0, 0)), a))
       | _ \<Rightarrow> Err InvalidAccountData)"

text \<open>\<open>expect\<close> panics on an error.\<close>

fun expect :: "('a, 'd) result \<Rightarrow> ('a, 'e) result" where
  "expect (Ok a) = Ok a"
| "expect _ = Panic"

definition create_lockup_stake_account ::
  "stake_state codec \<Rightarrow> authorized \<Rightarrow> lockup \<Rightarrow> rent \<Rightarrow> u64 \<Rightarrow> (account, 'e) result" where
  "create_lockup_stake_account c a l r lamports =
     (let stake_account = shared_new lamports STAKE_STATE_SIZE stake_program_id;
          reserve = minimum_balance r (length (acc_data stake_account))
      in if lamports < reserve then Panic
         else
           expect (account_set_state c stake_account
             (StakeInitialized \<lparr>rent_exempt_reserve = reserve, meta_authorized = a, meta_lockup = l\<rparr>)))"

definition do_create_account ::
  "stake_state codec \<Rightarrow> vote_state_versions codec \<Rightarrow> pubkey \<Rightarrow> pubkey \<Rightarrow> account \<Rightarrow> rent \<Rightarrow> u64 \<Rightarrow> epoch \<Rightarrow>
   (account, 'e) result" where
  "do_create_account c vc a voter vote_account r lamports activation =
     (let stake_account = shared_new lamports STAKE_STATE_SIZE stake_program_id in
      and_then (unwrap (vote_state_from vc vote_account)) (\<lambda>vs.
        let reserve = minimum_balance r (length (acc_data stake_account))
        in expect (account_set_state c stake_account
             (Staked (meta_default\<lparr>meta_authorized := authorized_auto a, rent_exempt_reserve := reserve\<rparr>)
               (new_stake (lamports - reserve) voter vs activation stake_config_default)))))"

definition stake_create_account ::
  "stake_state codec \<Rightarrow> vote_state_versions codec \<Rightarrow> pubkey \<Rightarrow> pubkey \<Rightarrow> account \<Rightarrow> rent \<Rightarrow> u64 \<Rightarrow>
   (account, 'e) result" where
  "stake_create_account c vc a voter vote_account r lamports =
     do_create_account c vc a voter vote_account r lamports (- 1)"

definition create_account_with_activation_epoch ::
  "stake_state codec \<Rightarrow> vote_state_versions codec \<Rightarrow> pubkey \<Rightarrow> pubkey \<Rightarrow> account \<Rightarrow> rent \<Rightarrow> u64 \<Rightarrow> epoch \<Rightarrow>
   (account, 'e) result" where
  "create_account_with_activation_epoch c vc a voter vote_account r lamports activation =
     do_create_account c vc a voter vote_account r lamports activation"

section \<open>The config account\<close>

definition stake_config_from ::
  "config_keys codec \<Rightarrow> stake_config codec \<Rightarrow> account \<Rightarrow> (stake_config option, 'e) result" where
  "stake_config_from kc cc a =
     (case get_config_data kc (acc_data a) of
        Ok data \<Rightarrow> Ok (bincode_deserialize cc data)
      | Err _ \<Rightarrow> Ok None
      | Panic \<Rightarrow> Panic)"

definition stake_config_from_keyed_account ::
  "config_keys codec \<Rightarrow> stake_config codec \<Rightarrow> store \<Rightarrow> keyed_account \<Rightarrow> (stake_config, instruction_error) result" where
  "stake_config_from_keyed_account kc cc st ka =
     (if unsigned_key ka \<noteq> stake_config_id then Err InvalidArgument
      else and_then (stake_config_from kc cc (account_ref st ka)) (\<lambda>config. ok_or config InvalidArgument))"

definition stake_config_create_account ::
  "config_keys codec \<Rightarrow> stake_config codec \<Rightarrow> u64 \<Rightarrow> stake_config \<Rightarrow> account" where
  "stake_config_create_account kc cc lamports config = create_config_account kc cc [] config lamports"

section \<open>Instructions\<close>

record lockup_checked_args =
  lc_unix_timestamp :: "unix_timestamp option"
  lc_epoch :: "epoch option"

record authorize_with_seed_args =
  aws_new_authorized_pubkey :: pubkey
  aws_stake_authorize :: stake_authorize
  aws_authority_seed :: "u8 list"
  aws_authority_owner :: pubkey

record authorize_checked_with_seed_args =
  acs_stake_authorize :: stake_authorize
  acs_authority_seed :: "u8 list"
  acs_authority_owner :: pubkey

datatype stake_instruction =
  SI_Initialize authorized lockup
| SI_Authorize pubkey stake_authorize
| SI_DelegateStake
| SI_Split u64
| SI_Withdraw u64
| SI_Deactivate
| SI_SetLockup lockup_args
| SI_Merge
| SI_AuthorizeWithSeed authorize_with_seed_args
| SI_InitializeChecked
| SI_AuthorizeChecked stake_authorize
| SI_AuthorizeCheckedWithSeed authorize_checked_with_seed_args
| SI_SetLockupChecked lockup_checked_args

record stake_codecs =
  kc_instruction :: "stake_instruction codec"
  kc_state :: "stake_state codec"
  kc_rent :: "rent codec"
  kc_clock :: "clock codec"
  kc_history :: "stake_history codec"
  kc_config :: "stake_config codec"
  kc_config_keys :: "config_keys codec"
  kc_vote_state :: "vote_state_versions codec"
  kc_crypto :: crypto

text \<open>\<open>Result::ok\<close> on a lookup that cannot panic.\<close>

definition account_at :: "keyed_account list \<Rightarrow> nat \<Rightarrow> keyed_account option" where
  "account_at kas i = (case keyed_account_at_index kas i of Ok ka \<Rightarrow> Some ka | _ \<Rightarrow> None)"

text \<open>A sysvar account at a position, and \<open>get_sysvar::<Clock>\<close>.\<close>

definition sysvar_at ::
  "pubkey \<Rightarrow> 't codec \<Rightarrow> invoke_context \<Rightarrow> store \<Rightarrow> nat \<Rightarrow> ('t, instruction_error) result" where
  "sysvar_at sysvar_id c ic st i =
     and_then (keyed_account_at_index (ic_keyed_accounts ic) i) (\<lambda>ka. from_keyed_account sysvar_id c st ka)"

definition get_clock :: "clock codec \<Rightarrow> invoke_context \<Rightarrow> (clock, instruction_error) result" where
  "get_clock c ic =
     and_then (ok_or (ic_sysvar_data ic clock_id) UnsupportedSysvar) (\<lambda>data.
       ok_or (bincode_deserialize c data) UnsupportedSysvar)"

text \<open>The custodian of \<open>SetLockupChecked\<close>: when there is a third account it has to sign.\<close>

definition checked_custodian :: "keyed_account list \<Rightarrow> (pubkey option, instruction_error) result" where
  "checked_custodian kas =
     (case account_at kas 2 of
        Some custodian \<Rightarrow> and_then (ok_or (signer_key custodian) MissingRequiredSignature) (\<lambda>k. Ok (Some k))
      | None \<Rightarrow> Ok None)"

definition stake_dispatch ::
  "stake_codecs \<Rightarrow> invoke_context \<Rightarrow> store \<Rightarrow> keyed_account \<Rightarrow> pubkey set \<Rightarrow> stake_instruction \<Rightarrow>
   (store, instruction_error) result" where
  "stake_dispatch kc ic st me signers i =
     (let kas = ic_keyed_accounts ic;
          c = kc_state kc;
          require_custodian = ic_feature_active ic Feature_require_custodian_for_locked_stake_authorize;
          v4 = ic_feature_active ic Feature_stake_program_v4;
          checked = ic_feature_active ic Feature_vote_stake_checked_instructions
      in case i of
        SI_Initialize a l \<Rightarrow>
          and_then (sysvar_at rent_id (kc_rent kc) ic st 1) (\<lambda>r. stake_initialize c st me a l r)
      | SI_Authorize authorized_pubkey sa \<Rightarrow>
          if require_custodian then
            and_then (sysvar_at clock_id (kc_clock kc) ic st 1) (\<lambda>clk.
            and_then (keyed_account_at_index kas 2) (\<lambda>_.
              stake_authorize_account c st me signers authorized_pubkey sa require_custodian clk
                (map_option ka_key (account_at kas 3))))
          else
            stake_authorize_account c st me signers authorized_pubkey sa require_custodian clock_default None
      | SI_AuthorizeWithSeed args \<Rightarrow>
          and_then (keyed_account_at_index kas 1) (\<lambda>authority_base.
          if require_custodian then
            and_then (sysvar_at clock_id (kc_clock kc) ic st 2) (\<lambda>clk.
              stake_authorize_with_seed (kc_crypto kc) c st me authority_base (aws_authority_seed args)
                (aws_authority_owner args) (aws_new_authorized_pubkey args) (aws_stake_authorize args)
                require_custodian clk (map_option ka_key (account_at kas 3)))
          else
            stake_authorize_with_seed (kc_crypto kc) c st me authority_base (aws_authority_seed args)
              (aws_authority_owner args) (aws_new_authorized_pubkey args) (aws_stake_authorize args)
              require_custodian clock_default None)
      | SI_DelegateStake \<Rightarrow>
          and_then (keyed_account_at_index kas 1) (\<lambda>vote.
          and_then (sysvar_at clock_id (kc_clock kc) ic st 2) (\<lambda>clk.
          and_then (sysvar_at stake_history_id (kc_history kc) ic st 3) (\<lambda>history.
          and_then (keyed_account_at_index kas 4) (\<lambda>config_account.
          and_then (stake_config_from_keyed_account (kc_config_keys kc) (kc_config kc) st config_account) (\<lambda>config.
            stake_delegate c (kc_vote_state kc) st me vote clk history config signers v4)))))
      | SI_Split lamports \<Rightarrow>
          and_then (keyed_account_at_index kas 1) (\<lambda>split_stake.
            split_stake_account c st me lamports split_stake signers)
      | SI_Merge \<Rightarrow>
          and_then (keyed_account_at_index kas 1) (\<lambda>source_stake.
          and_then (sysvar_at clock_id (kc_clock kc) ic st 2) (\<lambda>clk.
          and_then (sysvar_at stake_history_id (kc_history kc) ic st 3) (\<lambda>history.
            merge_stake_accounts c st me source_stake clk history signers v4)))
      | SI_Withdraw lamports \<Rightarrow>
          and_then (keyed_account_at_index kas 1) (\<lambda>to.
          and_then (sysvar_at clock_id (kc_clock kc) ic st 2) (\<lambda>clk.
          and_then (sysvar_at stake_history_id (kc_history kc) ic st 3) (\<lambda>history.
          and_then (keyed_account_at_index kas 4) (\<lambda>withdraw_authority.
            stake_withdraw c st me lamports to clk history withdraw_authority (account_at kas 5) v4))))
      | SI_Deactivate \<Rightarrow>
          and_then (sysvar_at clock_id (kc_clock kc) ic st 1) (\<lambda>clk. stake_deactivate_account c st me clk signers)
      | SI_SetLockup args \<Rightarrow>
          and_then (if v4 then and_then (get_clock (kc_clock kc) ic) (\<lambda>clk. Ok (Some clk)) else Ok None) (\<lambda>clk_opt.
            stake_set_lockup c st me args signers clk_opt)
      | SI_InitializeChecked \<Rightarrow>
          if checked then
            and_then (keyed_account_at_index kas 2) (\<lambda>staker_account.
            and_then (keyed_account_at_index kas 3) (\<lambda>withdrawer_account.
            and_then (ok_or (signer_key withdrawer_account) MissingRequiredSignature) (\<lambda>w.
            and_then (sysvar_at rent_id (kc_rent kc) ic st 1) (\<lambda>r.
              stake_initialize c st me \<lparr>staker = unsigned_key staker_account, withdrawer = w\<rparr> lockup_default r))))
          else Err InvalidInstructionData
      | SI_AuthorizeChecked sa \<Rightarrow>
          if checked then
            and_then (sysvar_at clock_id (kc_clock kc) ic st 1) (\<lambda>clk.
            and_then (keyed_account_at_index kas 2) (\<lambda>_.
            and_then (keyed_account_at_index kas 3) (\<lambda>new_account.
            and_then (ok_or (signer_key new_account) MissingRequiredSignature) (\<lambda>authorized_pubkey.
              stake_authorize_account c st me signers authorized_pubkey sa True clk
                (map_option ka_key (account_at kas 4))))))
          else Err InvalidInstructionData
      | SI_AuthorizeCheckedWithSeed args \<Rightarrow>
          if checked then
            and_then (keyed_account_at_index kas 1) (\<lambda>authority_base.
            and_then (sysvar_at clock_id (kc_clock kc) ic st 2) (\<lambda>clk.
            and_then (keyed_account_at_index kas 3) (\<lambda>new_account.
            and_then (ok_or (signer_key new_account) MissingRequiredSignature) (\<lambda>authorized_pubkey.
              stake_authorize_with_seed (kc_crypto kc) c st me authority_base (acs_authority_seed args)
                (acs_authority_owner args) authorized_pubkey (acs_stake_authorize args) True clk
                (map_option ka_key (account_at kas 4))))))
          else Err InvalidInstructionData
      | SI_SetLockupChecked args \<Rightarrow>
          if checked then
            and_then (checked_custodian kas) (\<lambda>custodian.
            and_then (get_clock (kc_clock kc) ic) (\<lambda>clk.
              stake_set_lockup c st me
                \<lparr>la_unix_timestamp = lc_unix_timestamp args, la_epoch = lc_epoch args, la_custodian = custodian\<rparr>
                signers (Some clk)))
          else Err InvalidInstructionData)"

text \<open>What \<open>process_instruction\<close> does before the match: the stake account and the instruction.\<close>

definition stake_decode ::
  "stake_codecs \<Rightarrow> invoke_context \<Rightarrow> store \<Rightarrow> u8 list \<Rightarrow> (keyed_account \<times> stake_instruction, instruction_error) result" where
  "stake_decode kc ic st data =
     and_then (keyed_account_at_index (ic_keyed_accounts ic) 0) (\<lambda>me.
     if ka_owner st me \<noteq> stake_program_id then
       if ic_feature_active ic Feature_check_program_owner then Err InvalidAccountOwner else Err IncorrectProgramId
     else
       and_then (limited_deserialize (kc_instruction kc) data) (\<lambda>i. Ok (me, i)))"

definition stake_process_instruction ::
  "stake_codecs \<Rightarrow> invoke_context \<Rightarrow> store \<Rightarrow> u8 list \<Rightarrow> (store, instruction_error) result" where
  "stake_process_instruction kc ic st data =
     and_then (stake_decode kc ic st data) (\<lambda>(me, i).
       stake_dispatch kc ic st me (get_signers (ic_keyed_accounts ic)) i)"

text \<open>Whether the instruction comes to ask the context for the clock, which then caches it.\<close>

definition stake_asks_clock :: "stake_codecs \<Rightarrow> invoke_context \<Rightarrow> store \<Rightarrow> u8 list \<Rightarrow> bool" where
  "stake_asks_clock kc ic st data \<longleftrightarrow>
     (case stake_decode kc ic st data of
        Ok (_, SI_SetLockup _) \<Rightarrow> ic_feature_active ic Feature_stake_program_v4
      | Ok (_, SI_SetLockupChecked _) \<Rightarrow>
          ic_feature_active ic Feature_vote_stake_checked_instructions \<and>
          (case checked_custodian (ic_keyed_accounts ic) of Ok _ \<Rightarrow> True | _ \<Rightarrow> False)
      | _ \<Rightarrow> False)"

section \<open>Conservation\<close>

text \<open>\<open>split\<close> credits before it debits.\<close>

lemma conserves_move_back [conserve_intros]:
  assumes "in_store st from" and "in_store st to"
  shows "conserves st (and_then (credit st to l) (\<lambda>st1. debit st1 from l))"
  unfolding conserves_def
proof (intro allI impI)
  fix st' assume "and_then (credit st to l) (\<lambda>st1. debit st1 from l) = Ok st'"
  then obtain st1 where st1: "credit st to l = Ok st1" "debit st1 from l = Ok st'"
    by (auto simp: and_then_Ok_iff)
  then have "in_store st1 from" "length st' = length st" using assms by (auto simp: debit_Ok_iff credit_Ok_iff)
  then show "length st' = length st \<and> total_lamports st' = total_lamports st"
    using credit_total [OF assms(2) st1(1)] debit_total [OF _ st1(2)] by simp
qed

lemma conserves_stake_state_case:
  "(\<And>m s. state = Staked m s \<Longrightarrow> conserves st (f m s)) \<Longrightarrow>
   (\<And>m. state = StakeInitialized m \<Longrightarrow> conserves st (g m)) \<Longrightarrow>
   (state = StakeUninitialized \<Longrightarrow> conserves st h) \<Longrightarrow> (state = RewardsPool \<Longrightarrow> conserves st k) \<Longrightarrow>
   conserves st (case state of Staked m s \<Rightarrow> f m s | StakeInitialized m \<Rightarrow> g m | StakeUninitialized \<Rightarrow> h | RewardsPool \<Rightarrow> k)"
  by (cases state) simp_all

lemma conserves_stake_set [conserve_intros]:
  assumes "in_store st me"
  shows "conserves st (stake_initialize c st me a l r)"
    and "conserves st (stake_authorize_account c st me signers new sa b clk custodian)"
    and "conserves st (stake_authorize_with_seed cr c st me base seed owner new sa b clk custodian)"
    and "conserves st (stake_delegate c vc st me vote clk history config signers v4)"
    and "conserves st (stake_deactivate_account c st me clk signers)"
    and "conserves st (stake_set_lockup c st me args signers clk_opt)"
proof -
  show *: "conserves st (stake_authorize_account c st me signers new sa b clk custodian)" for signers
    unfolding stake_authorize_account_def
    by (intro conserves_and_then conserves_stake_state_case conserves_Err conserves_set_state assms)
  show "conserves st (stake_authorize_with_seed cr c st me base seed owner new sa b clk custodian)"
    unfolding stake_authorize_with_seed_def by (intro conserves_and_then *)
  show "conserves st (stake_initialize c st me a l r)"
    unfolding stake_initialize_def Let_def
    by (intro conserves_if conserves_and_then conserves_stake_state_case conserves_Err conserves_set_state assms)
  show "conserves st (stake_delegate c vc st me vote clk history config signers v4)"
    unfolding stake_delegate_def
    by (intro conserves_if conserves_and_then conserves_stake_state_case conserves_Err conserves_set_state assms)
  show "conserves st (stake_deactivate_account c st me clk signers)"
    unfolding stake_deactivate_account_def
    by (intro conserves_if conserves_and_then conserves_stake_state_case conserves_Err conserves_set_state assms)
  show "conserves st (stake_set_lockup c st me args signers clk_opt)"
    unfolding stake_set_lockup_def
    by (intro conserves_if conserves_and_then conserves_stake_state_case conserves_Err conserves_set_state assms)
qed

lemma conserves_split_states:
  assumes "in_store st me" and "in_store st split"
  shows "conserves st (split_states c st me lamports split signers)"
proof -
  have two: "conserves st (and_then (ka_set_state c st me s1) (\<lambda>st1. ka_set_state c st1 split s2))" for s1 s2
    by (rule conserves_bind) (use assms in \<open>auto intro!: conserves_set_state simp: in_store_def\<close>)
  show ?thesis
    unfolding split_states_def Let_def case_prod_beta
    by (rule assms two conserves_set_state conserves_Err conserves_Ok conserves_if conserves_stake_state_case conserves_and_then)+
qed

lemma conserves_split_stake_account [conserve_intros]:
  assumes "in_store st me" and "in_store st split"
  shows "conserves st (split_stake_account c st me lamports split signers)"
proof -
  have tail: "conserves st1 (and_then (if b then ka_set_state c st1 me s else Ok st1)
      (\<lambda>st2. and_then (credit st2 split lamports) (\<lambda>st3. debit st3 me lamports)))" if "length st1 = length st" for st1 b s
    using that assms
    by (intro conserves_bind conserves_if conserves_Ok conserves_set_state conserves_move_back) (simp_all add: in_store_def)
  show ?thesis
    unfolding split_stake_account_def
    by (rule conserves_bind [OF conserves_split_states [OF assms]] tail conserves_Err conserves_if
        conserves_stake_state_case conserves_and_then | assumption)+
qed

lemma conserves_merge_stake_accounts [conserve_intros]:
  assumes "in_store st me" and "in_store st source"
  shows "conserves st (merge_stake_accounts c st me source clk history signers b)"
proof -
  have set: "conserves st (case merged of Some s \<Rightarrow> ka_set_state c st me s | None \<Rightarrow> Ok st)" for merged
    using assms by (cases merged) (auto intro: conserves_Ok conserves_set_state)
  have tail: "conserves st1 (and_then (ka_set_state c st1 source s) (\<lambda>st2.
      and_then (debit st2 source (l st2)) (\<lambda>st3. credit st3 me (l st2))))" if "length st1 = length st" for st1 s l
    using that assms
    by (intro conserves_bind [OF conserves_set_state] conserves_move) (simp_all add: in_store_def)
  show ?thesis
    unfolding merge_stake_accounts_def Let_def
    by (rule conserves_bind [OF set] tail conserves_Err conserves_if conserves_and_then | assumption)+
qed

lemma conserves_stake_withdraw [conserve_intros]:
  assumes "in_store st me" and "in_store st to"
  shows "conserves st (stake_withdraw c st me lamports to clk history wa custodian b)"
proof -
  have tail: "conserves st (and_then (if p then ka_set_state c st me s else Ok st)
      (\<lambda>st1. and_then (debit st1 me lamports) (\<lambda>st2. credit st2 to lamports)))" for p s
    using assms
    by (intro conserves_bind [OF conserves_if] conserves_Ok conserves_set_state conserves_move) (simp_all add: in_store_def)
  show ?thesis
    unfolding stake_withdraw_def Let_def case_prod_beta
    by (rule tail conserves_Err conserves_Panic conserves_if conserves_and_then)+
qed

lemma conserves_stake_dispatch:
  assumes "accounts_present ic st" and "in_store st me"
  shows "conserves st (stake_dispatch kc ic st me signers i)"
  unfolding stake_dispatch_def Let_def
  using assms
  by (cases i) (auto intro!: conserve_intros intro: keyed_account_present)

lemma conserves_stake_process_instruction:
  "accounts_present ic st \<Longrightarrow> conserves st (stake_process_instruction kc ic st data)"
  unfolding stake_process_instruction_def stake_decode_def case_prod_beta
  by (rule conserves_and_then, rule conserves_stake_dispatch)
     (auto simp: and_then_Ok_iff split: if_splits intro: keyed_account_present)

interpretation stake_program: conserving_machine "stake_process_instruction kc ic" "accounts_present ic" total_lamports
  for kc ic
proof
  fix st data st'
  assume st: "accounts_present ic st" and ok: "stake_process_instruction kc ic st data = Ok st'"
  have "length st' = length st \<and> total_lamports st' = total_lamports st"
    using conserves_stake_process_instruction [OF st] ok by (simp add: conserves_def)
  then show "accounts_present ic st'" and "total_lamports st' = total_lamports st"
    using accounts_present_length [OF st] by auto
qed

text \<open>
  C5: The stake program conserves lamports: any sequence of instructions that all succeed, splits, merges and
  withdrawals included, with any data, accounts (also one account at several positions), signers and features,
  leaves the sum of the lamports of all accounts as it was.
\<close>

theorem stake_program_conserves:
  assumes "accounts_present ic st" and "fold_res (stake_process_instruction kc ic) st datas = Ok st'"
  shows "total_lamports st' = total_lamports st"
  using assms by (rule stake_program.run_total)

section \<open>An example\<close>

text \<open>
  A codec that knows the states of a table, for witnesses. It reads back what it has written.
\<close>

definition table_codec :: "'s list \<Rightarrow> 's codec" where
  "table_codec table =
     \<lparr>bincode_serialize = (\<lambda>s. case position (\<lambda>x. x = s) table of Some i \<Rightarrow> [word_of_nat i] | None \<Rightarrow> [255]),
      bincode_deserialize = (\<lambda>d. case d of [] \<Rightarrow> None | b # _ \<Rightarrow> get_at table (unat b))\<rparr>"

definition demo_meta :: meta where
  "demo_meta = \<lparr>rent_exempt_reserve = 328, meta_authorized = \<lparr>staker = 5, withdrawer = 6\<rparr>, meta_lockup = lockup_default\<rparr>"

definition demo_stake_states :: "stake_state list" where
  "demo_stake_states =
     [StakeUninitialized, Staked demo_meta (demo_stake 600 0), Staked demo_meta (demo_stake 200 0),
      Staked demo_meta (demo_stake 72 0)]"

definition demo_stake_codecs :: stake_codecs where
  "demo_stake_codecs =
     \<lparr>kc_instruction = \<lparr>bincode_serialize = (\<lambda>_. []),
        bincode_deserialize = (\<lambda>d. case d of [k] \<Rightarrow> Some (SI_Split (100 * ucast k)) | [] \<Rightarrow> Some SI_Deactivate | _ \<Rightarrow> None)\<rparr>,
      kc_state = table_codec demo_stake_states,
      kc_rent = table_codec [rent_default],
      kc_clock = table_codec [clock_default],
      kc_history = table_codec [[]],
      kc_config = table_codec [stake_config_default],
      kc_config_keys = table_codec [[]],
      kc_vote_state = table_codec [Current demo_voted],
      kc_crypto = demo_crypto\<rparr>"

definition demo_stake_context :: invoke_context where
  "demo_stake_context =
     \<lparr>ic_feature_active = (\<lambda>_. True),
      ic_keyed_accounts =
        create_keyed_accounts_unified [(False, True, 9, 0), (False, True, 8, 1), (True, False, 5, 2), (True, False, 6, 2)],
      ic_sysvar_data = (\<lambda>_. None)\<rparr>"

definition demo_stake_store :: store where
  "demo_stake_store =
     [(shared_new 1000 STAKE_STATE_SIZE stake_program_id)\<lparr>acc_data := 1 # replicate 199 0\<rparr>,
      shared_new 0 STAKE_STATE_SIZE stake_program_id, shared_new 7 0 0]"

lemma demo_accounts_present: "accounts_present demo_stake_context demo_stake_store"
  by (simp add: accounts_present_def in_store_def create_keyed_accounts_unified_def demo_stake_store_def
      demo_stake_context_def)

theorem stake_program_conserves_witness:
  "\<exists>st'. fold_res (stake_process_instruction demo_stake_codecs demo_stake_context) demo_stake_store [[4]] = Ok st' \<and>
     map acc_lamports st' = [600, 400, 7] \<and> total_lamports st' = total_lamports demo_stake_store"
proof -
  obtain r where r: "fold_res (stake_process_instruction demo_stake_codecs demo_stake_context) demo_stake_store [[4]] = r"
    by blast
  have "map_ok (map acc_lamports) (stake_process_instruction demo_stake_codecs demo_stake_context demo_stake_store [4]) =
      Ok [600, 400, 7]" by code_simp
  then have "map_ok (map acc_lamports) r = Ok [600, 400, 7]" unfolding r [symmetric]
    by (auto simp: map_ok_Ok_iff)
  then obtain st' where st': "r = Ok st'" "map acc_lamports st' = [600, 400, 7]" by (auto simp: map_ok_Ok_iff)
  from stake_program_conserves [OF demo_accounts_present r [unfolded st'(1)]]
  have "total_lamports st' = total_lamports demo_stake_store" .
  then show ?thesis unfolding r st'(1) by (intro exI [of _ st'] conjI refl st'(2))
qed

end
