(* ===== verification/Stake_Safety.thy ===== *)
theory Stake_Safety
  imports Stake_Program
begin

text \<open>
  What the stake program guarantees to the holders of stakes: who has to sign for what. The variants of authorization
  with a seed turn out not to see the custodian.
\<close>

section \<open>Authority\<close>

lemma authorized_check_Ok [result_simps]:
  "authorized_check a signers sa = Ok u \<longleftrightarrow> (case sa of Staker \<Rightarrow> staker a \<in> signers | StakeWithdrawer \<Rightarrow> withdrawer a \<in> signers)"
  by (auto simp: authorized_check_def split: stake_authorize.splits)

text \<open>
  Who may change an authority of an account: the staker or the withdrawer for the staker, the withdrawer for the
  withdrawer, who needs the custodian too while a lockup that is looked at is in force.
\<close>

definition may_authorize :: "meta \<Rightarrow> pubkey set \<Rightarrow> stake_authorize \<Rightarrow> clock option \<Rightarrow> bool" where
  "may_authorize m signers sa clk_opt \<longleftrightarrow>
     (case sa of
        Staker \<Rightarrow> staker (meta_authorized m) \<in> signers \<or> withdrawer (meta_authorized m) \<in> signers
      | StakeWithdrawer \<Rightarrow>
          withdrawer (meta_authorized m) \<in> signers \<and>
          (case clk_opt of
             Some clk \<Rightarrow> is_in_force (meta_lockup m) clk None \<longrightarrow> lockup_custodian (meta_lockup m) \<in> signers
           | None \<Rightarrow> True))"

lemma in_force_custodian:
  "is_in_force l clk None \<Longrightarrow> \<not> is_in_force l clk (Some k) \<Longrightarrow> k = lockup_custodian l"
  by (auto simp: is_in_force_def split: if_splits)

lemma authorized_authorize_signed:
  assumes "authorized_authorize (meta_authorized m) signers new sa
      (if b then Some (meta_lockup m, clk, custodian) else None) = Ok a"
  shows "may_authorize m signers sa (if b then Some clk else None)"
  using assms
  by (cases sa)
     (auto simp: authorized_authorize_def may_authorize_def result_simps dest: in_force_custodian
       split: if_splits option.splits)

lemma stake_authorize_account_signed:
  assumes "stake_authorize_account c st me signers new sa b clk custodian = Ok st'"
  shows "\<exists>state m. ka_state c st me = Ok state \<and> state_meta state = Some m \<and>
    may_authorize m signers sa (if b then Some clk else None)"
proof -
  obtain state where state: "ka_state c st me = Ok state" using assms
    by (auto simp: stake_authorize_account_def and_then_Ok_iff)
  show ?thesis
    using assms state authorized_authorize_signed [where b = b and clk = clk and sa = sa and signers = signers]
    by (cases state; cases b) (auto simp: stake_authorize_account_def and_then_Ok_iff)
qed

lemma stake_authorize_with_seed_signed:
  assumes "stake_authorize_with_seed cr c st me base seed owner new sa b clk custodian = Ok st'"
  shows "\<exists>state m k. ka_state c st me = Ok state \<and> state_meta state = Some m \<and>
    create_with_seed cr (ka_key base) seed owner = Ok k \<and> ka_is_signer base \<and>
    may_authorize m {k} sa (if b then Some clk else None)"
proof -
  consider "\<not> ka_is_signer base" "stake_authorize_account c st me {} new sa b clk custodian = Ok st'"
    | k where "ka_is_signer base" "create_with_seed cr (ka_key base) seed owner = Ok k"
      "stake_authorize_account c st me {k} new sa b clk custodian = Ok st'"
    using assms by (auto simp: stake_authorize_with_seed_def signer_key_def result_simps split: if_splits)
  then show ?thesis
  proof cases
    case 1
    from stake_authorize_account_signed [OF 1(2)] show ?thesis
      by (cases sa) (auto simp: may_authorize_def)
  next
    case 2
    from stake_authorize_account_signed [OF 2(3)] 2(1,2) show ?thesis by blast
  qed
qed

definition may_set_lockup :: "meta \<Rightarrow> pubkey set \<Rightarrow> clock option \<Rightarrow> bool" where
  "may_set_lockup m signers clk_opt \<longleftrightarrow>
     (case clk_opt of
        Some clk \<Rightarrow>
          if is_in_force (meta_lockup m) clk None then lockup_custodian (meta_lockup m) \<in> signers
          else withdrawer (meta_authorized m) \<in> signers
      | None \<Rightarrow> lockup_custodian (meta_lockup m) \<in> signers)"

lemma stake_set_lockup_signed:
  assumes "stake_set_lockup c st me args signers clk_opt = Ok st'"
  shows "\<exists>state m. ka_state c st me = Ok state \<and> state_meta state = Some m \<and> may_set_lockup m signers clk_opt"
proof -
  have *: "may_set_lockup m signers clk_opt" if "meta_set_lockup m args signers clk_opt = Ok m'" for m m'
    using that by (auto simp: meta_set_lockup_def may_set_lockup_def Let_def split: option.splits if_splits)
  obtain state where state: "ka_state c st me = Ok state" using assms
    by (auto simp: stake_set_lockup_def and_then_Ok_iff)
  show ?thesis using assms state * by (cases state) (auto simp: stake_set_lockup_def and_then_Ok_iff)
qed

definition staker_signed :: "stake_state \<Rightarrow> pubkey set \<Rightarrow> bool" where
  "staker_signed state signers \<longleftrightarrow> (\<exists>m. state_meta state = Some m \<and> staker (meta_authorized m) \<in> signers)"

text \<open>
  Who may withdraw: the withdrawer, or the key of the account while it is not initialized, as \<open>authority\<close>; while the
  lockup is in force, with the signature of the custodian.
\<close>

definition may_withdraw :: "stake_state \<Rightarrow> keyed_account \<Rightarrow> clock \<Rightarrow> keyed_account \<Rightarrow> keyed_account option \<Rightarrow> bool" where
  "may_withdraw state me clk authority custodian \<longleftrightarrow>
     ka_is_signer authority \<and>
     (state = StakeUninitialized \<and> ka_key authority = ka_key me \<or>
      (\<exists>m. state_meta state = Some m \<and> ka_key authority = withdrawer (meta_authorized m) \<and>
         (is_in_force (meta_lockup m) clk None \<longrightarrow>
            (\<exists>k. custodian = Some k \<and> ka_is_signer k \<and> ka_key k = lockup_custodian (meta_lockup m)))))"

lemma withdraw_reserve_cases:
  assumes "withdraw_reserve c st me clk history signers b = Ok (l, reserve, is_staked)"
  obtains (staked) m s where "ka_state c st me = Ok (Staked m s)" "withdrawer (meta_authorized m) \<in> signers" "l = meta_lockup m"
      "unat reserve = unat (if deactivation_epoch (stake_delegation s) \<le> clock_epoch clk
          then delegation_stake (stake_delegation s) (clock_epoch clk) (Some history) True
          else delegated_stake (stake_delegation s)) + unat (rent_exempt_reserve m)"
      "is_staked = ((if deactivation_epoch (stake_delegation s) \<le> clock_epoch clk
          then delegation_stake (stake_delegation s) (clock_epoch clk) (Some history) True
          else delegated_stake (stake_delegation s)) \<noteq> 0)"
    | (initialized) m where "ka_state c st me = Ok (StakeInitialized m)" "withdrawer (meta_authorized m) \<in> signers"
      "l = meta_lockup m" "unat (rent_exempt_reserve m) \<le> unat reserve" "\<not> is_staked"
    | (uninitialized) "ka_state c st me = Ok StakeUninitialized" "ka_key me \<in> signers" "l = lockup_default" "\<not> is_staked"
proof -
  obtain state where state: "ka_state c st me = Ok state" using assms
    by (auto simp: withdraw_reserve_def and_then_Ok_iff)
  show ?thesis
    using assms state that
    by (cases state)
       (auto simp: withdraw_reserve_def Let_def result_simps instruction_checked_add_def split: if_splits)
qed

lemma stake_withdraw_signed:
  assumes "stake_withdraw c st me lamports to clk history authority custodian b = Ok st'"
  shows "\<exists>state. ka_state c st me = Ok state \<and> may_withdraw state me clk authority custodian"
proof -
  obtain l reserve is_staked where auth: "ka_is_signer authority"
    and r: "withdraw_reserve c st me clk history {ka_key authority} b = Ok (l, reserve, is_staked)"
    and free: "\<not> is_in_force l clk (Option.bind custodian signer_key)"
    using assms by (auto simp: stake_withdraw_def Let_def signer_key_def result_simps split: if_splits)
  have cust: "\<exists>k. custodian = Some k \<and> ka_is_signer k \<and> ka_key k = lockup_custodian l" if "is_in_force l clk None"
    using that free in_force_custodian [OF that]
    by (cases custodian) (auto simp: signer_key_def split: if_splits)
  from r show ?thesis
  proof (cases rule: withdraw_reserve_cases)
    case (staked m s)
    then show ?thesis using auth cust by (intro exI [of _ "Staked m s"]) (auto simp: may_withdraw_def)
  next
    case (initialized m)
    then show ?thesis using auth cust by (intro exI [of _ "StakeInitialized m"]) (auto simp: may_withdraw_def)
  next
    case uninitialized
    then show ?thesis using auth by (intro exI [of _ StakeUninitialized]) (auto simp: may_withdraw_def)
  qed
qed

fun stake_authority ::
  "stake_codecs \<Rightarrow> invoke_context \<Rightarrow> store \<Rightarrow> keyed_account \<Rightarrow> pubkey set \<Rightarrow> stake_state \<Rightarrow> stake_instruction \<Rightarrow> bool" where
  "stake_authority kc ic st me signers state (SI_Initialize _ _) \<longleftrightarrow> state = StakeUninitialized"
| "stake_authority kc ic st me signers state SI_InitializeChecked \<longleftrightarrow>
     state = StakeUninitialized \<and> (\<exists>ka. account_at (ic_keyed_accounts ic) 3 = Some ka \<and> ka_is_signer ka)"
| "stake_authority kc ic st me signers state (SI_Authorize _ sa) \<longleftrightarrow>
     (\<exists>m clk_opt. state_meta state = Some m \<and> may_authorize m signers sa clk_opt \<and>
        (ic_feature_active ic Feature_require_custodian_for_locked_stake_authorize \<longrightarrow>
           (\<exists>clk. clk_opt = Some clk \<and> sysvar_at clock_id (kc_clock kc) ic st 1 = Ok clk)))"
| "stake_authority kc ic st me signers state (SI_AuthorizeChecked sa) \<longleftrightarrow>
     (\<exists>m clk. state_meta state = Some m \<and> may_authorize m signers sa (Some clk) \<and>
        sysvar_at clock_id (kc_clock kc) ic st 1 = Ok clk)"
| "stake_authority kc ic st me signers state (SI_AuthorizeWithSeed args) \<longleftrightarrow>
     (\<exists>m base k clk_opt. state_meta state = Some m \<and> account_at (ic_keyed_accounts ic) 1 = Some base \<and> ka_is_signer base \<and>
        create_with_seed (kc_crypto kc) (ka_key base) (aws_authority_seed args) (aws_authority_owner args) = Ok k \<and>
        may_authorize m {k} (aws_stake_authorize args) clk_opt \<and>
        (ic_feature_active ic Feature_require_custodian_for_locked_stake_authorize \<longrightarrow>
           (\<exists>clk. clk_opt = Some clk \<and> sysvar_at clock_id (kc_clock kc) ic st 2 = Ok clk)))"
| "stake_authority kc ic st me signers state (SI_AuthorizeCheckedWithSeed args) \<longleftrightarrow>
     (\<exists>m base k clk. state_meta state = Some m \<and> account_at (ic_keyed_accounts ic) 1 = Some base \<and> ka_is_signer base \<and>
        create_with_seed (kc_crypto kc) (ka_key base) (acs_authority_seed args) (acs_authority_owner args) = Ok k \<and>
        may_authorize m {k} (acs_stake_authorize args) (Some clk) \<and>
        sysvar_at clock_id (kc_clock kc) ic st 2 = Ok clk)"
| "stake_authority kc ic st me signers state SI_DelegateStake \<longleftrightarrow> staker_signed state signers"
| "stake_authority kc ic st me signers state SI_Deactivate \<longleftrightarrow> staker_signed state signers"
| "stake_authority kc ic st me signers state (SI_Split _) \<longleftrightarrow>
     staker_signed state signers \<or> state = StakeUninitialized \<and> ka_key me \<in> signers"
| "stake_authority kc ic st me signers state SI_Merge \<longleftrightarrow>
     staker_signed state signers \<and>
     (\<exists>source source_state. account_at (ic_keyed_accounts ic) 1 = Some source \<and>
        ka_state (kc_state kc) st source = Ok source_state \<and> staker_signed source_state signers)"
| "stake_authority kc ic st me signers state (SI_Withdraw _) \<longleftrightarrow>
     (\<exists>clk authority. sysvar_at clock_id (kc_clock kc) ic st 2 = Ok clk \<and>
        account_at (ic_keyed_accounts ic) 4 = Some authority \<and>
        may_withdraw state me clk authority (account_at (ic_keyed_accounts ic) 5))"
| "stake_authority kc ic st me signers state (SI_SetLockup _) \<longleftrightarrow>
     (\<exists>m clk_opt. state_meta state = Some m \<and> may_set_lockup m signers clk_opt \<and>
        (ic_feature_active ic Feature_stake_program_v4 \<longrightarrow>
           (\<exists>clk. clk_opt = Some clk \<and> get_clock (kc_clock kc) ic = Ok clk)))"
| "stake_authority kc ic st me signers state (SI_SetLockupChecked _) \<longleftrightarrow>
     (\<exists>m clk. state_meta state = Some m \<and> may_set_lockup m signers (Some clk) \<and> get_clock (kc_clock kc) ic = Ok clk)"

lemma account_at_Some: "keyed_account_at_index kas i = Ok ka \<Longrightarrow> account_at kas i = Some ka"
  by (simp add: account_at_def)

text \<open>A computation that reads the state of an account and goes on by cases.\<close>

lemma on_state:
  assumes "and_then (ka_state c st me) f = Ok r"
  obtains (uninitialized) "ka_state c st me = Ok StakeUninitialized" "f StakeUninitialized = Ok r"
    | (initialized) m where "ka_state c st me = Ok (StakeInitialized m)" "f (StakeInitialized m) = Ok r"
    | (staked) m s where "ka_state c st me = Ok (Staked m s)" "f (Staked m s) = Ok r"
    | (pool) "ka_state c st me = Ok RewardsPool" "f RewardsPool = Ok r"
proof -
  obtain state where "ka_state c st me = Ok state" "f state = Ok r" using assms by (auto simp: and_then_Ok_iff)
  then show thesis using that by (cases state) simp_all
qed

lemma stake_initialize_state:
  assumes "stake_initialize c st me a l r = Ok st'"
  shows "ka_state c st me = Ok StakeUninitialized"
  using assms unfolding stake_initialize_def by (simp split: if_split_asm) (erule on_state; simp)

lemma stake_delegate_signed:
  assumes "stake_delegate c vc st me vote clk history config signers v4 = Ok st'"
  shows "\<exists>state. ka_state c st me = Ok state \<and> staker_signed state signers"
  using assms unfolding stake_delegate_def
  by (simp split: if_split_asm) (erule on_state; auto simp: and_then_Ok_iff authorized_check_Ok staker_signed_def)

lemma stake_deactivate_signed:
  assumes "stake_deactivate_account c st me clk signers = Ok st'"
  shows "\<exists>state. ka_state c st me = Ok state \<and> staker_signed state signers"
  using assms unfolding stake_deactivate_account_def
  by (rule on_state) (auto simp: and_then_Ok_iff authorized_check_Ok staker_signed_def)

lemma split_states_signed:
  assumes "split_states c st me lamports split signers = Ok st1"
  shows "\<exists>state. ka_state c st me = Ok state \<and>
    (staker_signed state signers \<or> state = StakeUninitialized \<and> ka_key me \<in> signers)"
  using assms unfolding split_states_def
  by (rule on_state) (auto simp: Let_def and_then_Ok_iff authorized_check_Ok staker_signed_def split: if_splits)

text \<open>The steps of a split that succeeds.\<close>

lemma split_stake_account_Ok:
  assumes "split_stake_account c st me lamports split signers = Ok st'"
  obtains st1 st2 st3 where "ka_owner st split = stake_program_id" "ka_data_len st split = STAKE_STATE_SIZE"
    "ka_state c st split = Ok StakeUninitialized" "lamports \<le> ka_lamports st me"
    "split_states c st me lamports split signers = Ok st1"
    "(if lamports = ka_lamports st1 me then ka_set_state c st1 me StakeUninitialized else Ok st1) = Ok st2"
    "credit st2 split lamports = Ok st3" "debit st3 me lamports = Ok st'"
proof -
  let ?rest = "\<lambda>split_state. case split_state of
      StakeUninitialized \<Rightarrow>
        if ka_lamports st me < lamports then Err InsufficientFunds
        else
          and_then (split_states c st me lamports split signers) (\<lambda>st1.
          and_then (if lamports = ka_lamports st1 me then ka_set_state c st1 me StakeUninitialized else Ok st1)
            (\<lambda>st2. and_then (credit st2 split lamports) (\<lambda>st3. debit st3 me lamports)))
    | _ \<Rightarrow> Err InvalidAccountData"
  have *: "ka_owner st split = stake_program_id" "ka_data_len st split = STAKE_STATE_SIZE"
    and run: "and_then (ka_state c st split) ?rest = Ok st'"
    using assms unfolding split_stake_account_def by (simp_all split: if_split_asm)
  from run have u: "ka_state c st split = Ok StakeUninitialized \<and> ?rest StakeUninitialized = Ok st'"
    by (rule on_state) simp_all
  then have le: "\<not> ka_lamports st me < lamports" by auto
  obtain st1 st2 st3 where "split_states c st me lamports split signers = Ok st1"
    "(if lamports = ka_lamports st1 me then ka_set_state c st1 me StakeUninitialized else Ok st1) = Ok st2"
    "credit st2 split lamports = Ok st3" "debit st3 me lamports = Ok st'"
    using u le unfolding stake_state.case if_not_P [OF le] and_then_Ok_iff by blast
  then show thesis using that [OF * conjunct1 [OF u]] le by (simp only: not_less)
qed

lemma split_stake_account_signed:
  assumes "split_stake_account c st me lamports split signers = Ok st'"
  shows "\<exists>state. ka_state c st me = Ok state \<and>
    (staker_signed state signers \<or> state = StakeUninitialized \<and> ka_key me \<in> signers)"
  using split_stake_account_Ok [OF assms] split_states_signed by metis

lemma get_if_mergeable_meta:
  assumes "get_if_mergeable c st ka clk history = Ok k"
  shows "\<exists>state. ka_state c st ka = Ok state \<and> state_meta state = Some (mk_meta k)"
  using assms unfolding get_if_mergeable_def
  by (rule on_state) (auto simp: Let_def case_prod_beta split: if_split_asm)

lemma merge_stake_accounts_signed:
  assumes "merge_stake_accounts c st me source clk history signers b = Ok st'"
  shows "\<exists>state source_state. ka_state c st me = Ok state \<and> ka_state c st source = Ok source_state \<and>
    staker_signed state signers \<and> staker_signed source_state signers"
proof -
  obtain k k' merged where k: "get_if_mergeable c st me clk history = Ok k" "get_if_mergeable c st source clk history = Ok k'"
    and signed: "staker (meta_authorized (mk_meta k)) \<in> signers"
    and merged: "mk_merge k k' (if b then Some clk else None) = Ok merged"
    using assms by (auto simp: merge_stake_accounts_def and_then_Ok_iff authorized_check_Ok split: if_splits)
  have "meta_authorized (mk_meta k) = meta_authorized (mk_meta k')"
    using merged by (auto simp: mk_merge_def and_then_Ok_iff metas_can_merge_def Let_def split: if_splits)
  with signed get_if_mergeable_meta [OF k(1)] get_if_mergeable_meta [OF k(2)] show ?thesis
    by (auto simp: staker_signed_def)
qed



text \<open>
  The variants with a seed only see the derived key as a signer. While a lockup is in force they cannot change the
  withdrawer even when the custodian signs, unless the custodian is the withdrawer.
\<close>

lemma authorize_with_seed_ignores_custodian:
  assumes "stake_authorize_with_seed cr c st me base seed owner new StakeWithdrawer True clk custodian = Ok st'"
    and "ka_state c st me = Ok state" and "state_meta state = Some m" and "is_in_force (meta_lockup m) clk None"
  shows "lockup_custodian (meta_lockup m) = withdrawer (meta_authorized m)"
  using stake_authorize_with_seed_signed [OF assms(1)] assms(2-4) by (auto simp: may_authorize_def)

end
