(* ===== verification/Stake_Backing.thy ===== *)
theory Stake_Backing
  imports Stake_Safety
begin

text \<open>
  The lamports behind stakes: no instruction of the stake program leaves an active delegation that the balance of its
  account does not cover, with the one exception that rescinding a deactivation makes. The frame lemmas say which
  accounts each operation can change.
\<close>

section \<open>Backing\<close>

text \<open>What the codec of states has to do: a buffer that a state was written to is read as this state or not at all.\<close>

definition reads_back :: "'t codec \<Rightarrow> bool" where
  "reads_back c \<longleftrightarrow> (\<forall>s rest s'. bincode_deserialize c (bincode_serialize c s @ rest) = Some s' \<longrightarrow> s' = s)"

lemma reads_backD: "reads_back c \<Longrightarrow> bincode_deserialize c (bincode_serialize c s @ rest) = Some s' \<Longrightarrow> s' = s"
  by (simp add: reads_back_def)

text \<open>
  A balance backs a state: the reserve is there, and a delegation that is not deactivated is covered by the lamports
  beyond the reserve. An account is backed when its balance backs the state that is read from it and, if that is
  initialized, its data has the length of \<open>StakeState\<close>.
\<close>

fun backs :: "u64 \<Rightarrow> stake_state \<Rightarrow> bool" where
  "backs l (Staked m s) \<longleftrightarrow>
     unat (rent_exempt_reserve m) +
       (if deactivation_epoch (stake_delegation s) = - 1 then unat (delegated_stake (stake_delegation s)) else 0) \<le> unat l"
| "backs l (StakeInitialized m) \<longleftrightarrow> unat (rent_exempt_reserve m) \<le> unat l"
| "backs l StakeUninitialized \<longleftrightarrow> True"
| "backs l RewardsPool \<longleftrightarrow> True"

definition backed :: "stake_state codec \<Rightarrow> account \<Rightarrow> bool" where
  "backed c a \<longleftrightarrow>
     (\<forall>s. account_state c a = Ok s \<longrightarrow> backs (acc_lamports a) s \<and> (state_meta s \<noteq> None \<longrightarrow> length (acc_data a) = STAKE_STATE_SIZE))"

definition backed_store :: "stake_state codec \<Rightarrow> store \<Rightarrow> bool" where
  "backed_store c st \<longleftrightarrow> (\<forall>a\<in>set st. acc_owner a = stake_program_id \<longrightarrow> backed c a)"

lemma backs_mono: "backs l s \<Longrightarrow> l \<le> l' \<Longrightarrow> backs l' s"
  by (cases s) (auto simp: word_le_nat_alt)

lemma account_state_Ok_iff [result_simps]:
  "account_state c a = Ok s \<longleftrightarrow> bincode_deserialize c (acc_data a) = Some s"
  by (auto simp: account_state_def shared_deserialize_data_def result_simps)

lemma ka_state_Ok_iff: "ka_state c st ka = Ok s \<longleftrightarrow> account_state c (account_ref st ka) = Ok s"
  by (simp add: ka_state_def)

lemma backed_store_ref:
  "backed_store c st \<Longrightarrow> in_store st ka \<Longrightarrow> ka_owner st ka = stake_program_id \<Longrightarrow> backed c (account_ref st ka)"
  by (simp add: backed_store_def in_store_def ka_owner_def account_ref_def)

lemma backed_store_set:
  assumes "backed_store c st" and "acc_owner a = stake_program_id \<Longrightarrow> backed c a"
  shows "backed_store c (set_account st ka a)"
  using assms set_update_subset_insert [of st "ka_account ka" a] by (auto simp: backed_store_def set_account_def)

text \<open>Writing a state that the balance backs.\<close>

lemma backed_written:
  assumes "reads_back c" and "backs (acc_lamports a) s" and "length (acc_data a) = STAKE_STATE_SIZE \<or> state_meta s = None"
    and "length (bincode_serialize c s) \<le> length (acc_data a)"
  shows "backed c (a\<lparr>acc_data := bincode_serialize c s @ drop (length (bincode_serialize c s)) (acc_data a)\<rparr>)"
  using assms by (auto simp: backed_def account_state_Ok_iff dest!: reads_backD)

section \<open>Frame\<close>

lemma touches_only_stake_state_case [touch_intros]:
  "(\<And>m s. state = Staked m s \<Longrightarrow> touches_only K st (f m s)) \<Longrightarrow>
   (\<And>m. state = StakeInitialized m \<Longrightarrow> touches_only K st (g m)) \<Longrightarrow>
   (state = StakeUninitialized \<Longrightarrow> touches_only K st h) \<Longrightarrow> (state = RewardsPool \<Longrightarrow> touches_only K st k) \<Longrightarrow>
   touches_only K st (case state of Staked m s \<Rightarrow> f m s | StakeInitialized m \<Rightarrow> g m | StakeUninitialized \<Rightarrow> h | RewardsPool \<Rightarrow> k)"
  by (cases state) simp_all

lemma touches_only_debit [touch_intros]: "ka_account ka \<in> K \<Longrightarrow> touches_only K st (debit st ka l)"
  unfolding debit_def by (intro touch_intros)

lemma touches_only_credit [touch_intros]: "ka_account ka \<in> K \<Longrightarrow> touches_only K st (credit st ka l)"
  unfolding credit_def by (intro touch_intros)

lemma touches_only_stake_set [touch_intros]:
  assumes "ka_account me \<in> K"
  shows "touches_only K st (stake_initialize c st me a l r)"
    and "touches_only K st (stake_authorize_account c st me signers new sa b clk custodian)"
    and "touches_only K st (stake_authorize_with_seed cr c st me base seed owner new sa b clk custodian)"
    and "touches_only K st (stake_delegate c vc st me vote clk history config signers v4)"
    and "touches_only K st (stake_deactivate_account c st me clk signers)"
    and "touches_only K st (stake_set_lockup c st me args signers clk_opt)"
  unfolding stake_initialize_def stake_authorize_account_def stake_authorize_with_seed_def stake_delegate_def
    stake_deactivate_account_def stake_set_lockup_def Let_def
  by (intro touch_intros assms)+

lemma touches_only_split_states:
  assumes "ka_account me \<in> K" and "ka_account split \<in> K"
  shows "touches_only K st (split_states c st me lamports split signers)"
proof -
  have two: "touches_only K st (and_then (ka_set_state c st me s1) (\<lambda>st1. ka_set_state c st1 split s2))" for s1 s2
    by (rule touches_only_bind) (use assms in \<open>auto intro!: touch_intros\<close>)
  show ?thesis
    unfolding split_states_def Let_def case_prod_beta
    by (rule assms two touches_only_set_state touches_only_simps touches_only_if touches_only_stake_state_case
        touches_only_and_then)+
qed

lemma touches_only_split_stake_account [touch_intros]:
  assumes "ka_account me \<in> K" and "ka_account split \<in> K"
  shows "touches_only K st (split_stake_account c st me lamports split signers)"
proof -
  have tail: "touches_only K st1 (and_then (if b then ka_set_state c st1 me s else Ok st1)
      (\<lambda>st2. and_then (credit st2 split lamports) (\<lambda>st3. debit st3 me lamports)))" for st1 b s
    by (rule touches_only_bind touch_intros assms)+
  show ?thesis
    unfolding split_stake_account_def
    by (rule touches_only_bind [OF touches_only_split_states [OF assms]] tail touches_only_simps touches_only_if
        touches_only_stake_state_case touches_only_and_then)+
qed

lemma touches_only_merge_stake_accounts [touch_intros]:
  assumes "ka_account me \<in> K" and "ka_account source \<in> K"
  shows "touches_only K st (merge_stake_accounts c st me source clk history signers b)"
proof -
  have set: "touches_only K st (case merged of Some s \<Rightarrow> ka_set_state c st me s | None \<Rightarrow> Ok st)" for merged
    using assms by (cases merged) (auto intro: touch_intros)
  have tail: "touches_only K st1 (and_then (ka_set_state c st1 source s) (\<lambda>st2.
      and_then (debit st2 source (l st2)) (\<lambda>st3. credit st3 me (l st2))))" for st1 s l
    by (rule touches_only_bind touch_intros assms)+
  show ?thesis
    unfolding merge_stake_accounts_def Let_def
    by (rule touches_only_bind [OF set] tail touches_only_simps touches_only_if touches_only_and_then)+
qed

lemma touches_only_stake_withdraw [touch_intros]:
  assumes "ka_account me \<in> K" and "ka_account to \<in> K"
  shows "touches_only K st (stake_withdraw c st me lamports to clk history wa custodian b)"
proof -
  have tail: "touches_only K st1 (and_then (if p then ka_set_state c st1 me s else Ok st1)
      (\<lambda>st2. and_then (debit st2 me lamports) (\<lambda>st3. credit st3 to lamports)))" for st1 p s
    by (rule touches_only_bind touch_intros assms)+
  show ?thesis
    unfolding stake_withdraw_def Let_def case_prod_beta
    by (rule tail touches_only_simps touches_only_if touches_only_and_then)+
qed

section \<open>Every operation keeps stakes backed\<close>

lemma backed_frame:
  assumes "backed_store c st" and "touches_only K st (Ok st' :: (store, instruction_error) result)"
    and "\<And>i. i \<in> K \<Longrightarrow> i < length st' \<Longrightarrow> acc_owner (st' ! i) = stake_program_id \<Longrightarrow> backed c (st' ! i)"
  shows "backed_store c st'"
  unfolding backed_store_def
proof (intro ballI impI)
  fix a assume "a \<in> set st'" and own: "acc_owner a = stake_program_id"
  then obtain i where i: "i < length st'" "st' ! i = a" by (auto simp: in_set_conv_nth)
  show "backed c a"
  proof (cases "i \<in> K")
    case True
    then show ?thesis using assms(3) i own by auto
  next
    case False
    then have "st ! i = a" "i < length st" using assms(2) i by (auto simp: touches_only_def)
    then show ?thesis using assms(1) own by (auto simp: backed_store_def)
  qed
qed

lemma backed_set_state:
  assumes "reads_back c" and "backed_store c st" and "in_store st ka"
    and "ka_set_state c st ka s = Ok st'" and "backs (ka_lamports st ka) s"
    and "ka_data_len st ka = STAKE_STATE_SIZE \<or> state_meta s = None"
  shows "backed_store c st'"
  using assms backed_store_set [OF assms(2)] backed_written [OF assms(1), of "account_ref st ka" s]
  by (auto simp: ka_set_state_Ok_iff ka_lamports_def ka_data_len_def)

text \<open>What is known of the account that an instruction works on.\<close>

definition backed_at :: "stake_state codec \<Rightarrow> store \<Rightarrow> keyed_account \<Rightarrow> bool" where
  "backed_at c st me \<longleftrightarrow>
     reads_back c \<and> backed_store c st \<and> in_store st me \<and> ka_owner st me = stake_program_id"

lemma state_backed:
  "ka_state c st me = Ok s \<Longrightarrow> backed_at c st me \<Longrightarrow> backs (ka_lamports st me) s \<and> (state_meta s \<noteq> None \<longrightarrow> ka_data_len st me = STAKE_STATE_SIZE)"
  using backed_store_ref [of c st me]
  by (auto simp: backed_at_def backed_def ka_state_def ka_lamports_def ka_data_len_def)

lemma set_backed:
  "backed_at c st me \<Longrightarrow> ka_set_state c st me s = Ok st' \<Longrightarrow> backs (ka_lamports st me) s \<Longrightarrow> ka_data_len st me = STAKE_STATE_SIZE \<Longrightarrow> backed_store c st'"
  using backed_set_state unfolding backed_at_def by blast

lemma initialize_backed:
  assumes at: "backed_at c st me" and "stake_initialize c st me a l r = Ok st'"
  shows "backed_store c st'"
proof -
  have len: "ka_data_len st me = STAKE_STATE_SIZE"
    using assms(2) unfolding stake_initialize_def by (simp split: if_split_asm)
  obtain m where "ka_set_state c st me (StakeInitialized m) = Ok st'" "rent_exempt_reserve m < ka_lamports st me"
    using assms(2) stake_initialize_state [OF assms(2)] len
    by (auto simp: stake_initialize_def Let_def split: if_split_asm)
  then show ?thesis using set_backed [OF at] len by (auto simp: word_less_nat_alt)
qed

lemma authorize_backed:
  assumes at: "backed_at c st me" and "stake_authorize_account c st me signers new sa b clk custodian = Ok st'"
  shows "backed_store c st'"
  using assms(2) unfolding stake_authorize_account_def
  by (rule on_state) (auto simp: and_then_Ok_iff dest!: state_backed [OF _ at] intro: set_backed [OF at])

lemma authorize_with_seed_backed:
  assumes at: "backed_at c st me" and "stake_authorize_with_seed cr c st me base seed owner new sa b clk custodian = Ok st'"
  shows "backed_store c st'"
  using assms(2) authorize_backed [OF at] unfolding stake_authorize_with_seed_def by (auto simp: and_then_Ok_iff)

lemma set_lockup_backed:
  assumes at: "backed_at c st me" and "stake_set_lockup c st me args signers clk_opt = Ok st'"
  shows "backed_store c st'"
proof -
  have *: "rent_exempt_reserve m' = rent_exempt_reserve m" if "meta_set_lockup m args signers clk_opt = Ok m'" for m m'
    using that by (auto simp: meta_set_lockup_def Let_def split: option.splits if_splits)
  show ?thesis
    using assms(2) unfolding stake_set_lockup_def
    by (rule on_state) (auto simp: and_then_Ok_iff * dest!: state_backed [OF _ at] intro: set_backed [OF at])
qed

lemma deactivate_backed:
  assumes at: "backed_at c st me" and "stake_deactivate_account c st me clk signers = Ok st'" and "clock_epoch clk \<noteq> - 1"
  shows "backed_store c st'"
  using assms(2) unfolding stake_deactivate_account_def
  by (rule on_state)
     (auto simp: and_then_Ok_iff map_err_Ok_iff stake_deactivate_def assms(3) dest!: state_backed [OF _ at] intro: set_backed [OF at] split: if_split_asm)

lemma stake_of_balance:
  "unat r \<le> unat l \<Longrightarrow> unat r + unat (saturating_sub l r) \<le> unat (l :: u64)"
  by (simp add: saturating_sub_def word_le_nat_alt unat_sub_le)

text \<open>
  A delegation to the same voter can rescind a deactivation. It keeps the delegated amount, which then has to be covered
  again: the code does not look.
\<close>

definition covered :: "u64 \<Rightarrow> stake_state \<Rightarrow> bool" where
  "covered l state \<longleftrightarrow>
     (case state of
        Staked m s \<Rightarrow> unat (rent_exempt_reserve m) + unat (delegated_stake (stake_delegation s)) \<le> unat l
      | _ \<Rightarrow> True)"

lemma redelegate_backs:
  assumes "redelegate s (saturating_sub l (rent_exempt_reserve m)) voter vs clk history config v4 = Ok s'"
    and "backs l (Staked m s)" and "v4 \<Longrightarrow> covered l (Staked m s)"
  shows "backs l (Staked m s')"
  using assms stake_of_balance [of "rent_exempt_reserve m" l]
  by (auto simp: redelegate_def Let_def covered_def split: if_split_asm)

lemma delegate_backed:
  assumes at: "backed_at c st me" and "stake_delegate c vc st me vote clk history config signers v4 = Ok st'"
    and cov: "\<And>s. v4 \<Longrightarrow> ka_state c st me = Ok s \<Longrightarrow> covered (ka_lamports st me) s"
  shows "backed_store c st'"
proof -
  have new: "backs l (Staked m (new_stake (saturating_sub l (rent_exempt_reserve m)) k vs e config))"
    if "unat (rent_exempt_reserve m) \<le> unat l" for l m k vs e
    using stake_of_balance [OF that] by (simp add: new_stake_def delegation_new_def delegation_default_def)
  have run: "and_then (ka_state c st me) (\<lambda>state. case state of
       StakeInitialized m \<Rightarrow>
         and_then (authorized_check (meta_authorized m) signers Staker) (\<lambda>_.
         and_then (ka_state vc st vote) (\<lambda>versioned.
           ka_set_state c st me (Staked m
             (new_stake (saturating_sub (ka_lamports st me) (rent_exempt_reserve m)) (unsigned_key vote)
                (convert_to_current versioned) (clock_epoch clk) config))))
     | Staked m s \<Rightarrow>
         and_then (authorized_check (meta_authorized m) signers Staker) (\<lambda>_.
         and_then (ka_state vc st vote) (\<lambda>versioned.
         and_then (map_err of_stake_error
           (redelegate s (saturating_sub (ka_lamports st me) (rent_exempt_reserve m)) (unsigned_key vote)
              (convert_to_current versioned) clk history config v4)) (\<lambda>s'.
           ka_set_state c st me (Staked m s'))))
     | _ \<Rightarrow> Err InvalidAccountData) = Ok st'"
    using assms(2) unfolding stake_delegate_def by (simp split: if_split_asm)
  then show ?thesis
  proof (cases rule: on_state)
    case (initialized m)
    then show ?thesis using state_backed [OF initialized(1) at]
      by (auto simp: and_then_Ok_iff intro!: set_backed [OF at] new simp del: backs.simps(1))
  next
    case (staked m s)
    then show ?thesis using state_backed [OF staked(1) at] cov [OF _ staked(1)]
      by (auto simp: and_then_Ok_iff map_err_Ok_iff intro!: set_backed [OF at] redelegate_backs simp del: backs.simps(1))
  qed simp_all
qed

subsection \<open>Withdrawals\<close>

lemma backed_debit:
  assumes "backed_store c st" and "in_store st ka" and "debit st ka l = Ok st'"
    and "\<And>s. ka_state c st ka = Ok s \<Longrightarrow> backs (ka_lamports st ka - l) s"
  shows "backed_store c st'"
proof -
  let ?a = "account_ref st ka"
  have st': "st' = set_account st ka (?a\<lparr>acc_lamports := ka_lamports st ka - l\<rparr>)"
    using assms(3) by (auto simp: debit_Ok_iff)
  show ?thesis unfolding st'
  proof (rule backed_store_set [OF assms(1)])
    assume "acc_owner (?a\<lparr>acc_lamports := ka_lamports st ka - l\<rparr>) = stake_program_id"
    then have "backed c ?a" using backed_store_ref [OF assms(1,2)] by (simp add: ka_owner_def)
    then show "backed c (?a\<lparr>acc_lamports := ka_lamports st ka - l\<rparr>)"
      using assms(4) by (auto simp: backed_def ka_state_def account_state_Ok_iff)
  qed
qed

lemma backed_credit:
  assumes "backed_store c st" and "in_store st ka" and "credit st ka l = Ok st'"
  shows "backed_store c st'"
proof -
  let ?a = "account_ref st ka"
  have st': "st' = set_account st ka (?a\<lparr>acc_lamports := ka_lamports st ka + l\<rparr>)"
    and le: "ka_lamports st ka \<le> ka_lamports st ka + l"
    using assms(3) by (auto simp: credit_Ok_iff word_le_nat_alt unat_add_less)
  show ?thesis unfolding st'
  proof (rule backed_store_set [OF assms(1)])
    assume "acc_owner (?a\<lparr>acc_lamports := ka_lamports st ka + l\<rparr>) = stake_program_id"
    then have "backed c ?a" using backed_store_ref [OF assms(1,2)] by (simp add: ka_owner_def)
    then show "backed c (?a\<lparr>acc_lamports := ka_lamports st ka + l\<rparr>)"
      using backs_mono [OF _ le] by (auto simp: backed_def account_state_Ok_iff ka_lamports_def)
  qed
qed

text \<open>The state that was written last is the one that is read.\<close>

lemma ka_state_written:
  assumes "reads_back c" and "in_store st ka" and "ka_set_state c st ka s = Ok st'" and "ka_state c st' ka = Ok s'"
  shows "s' = s"
  using assms
  by (auto simp: ka_set_state_Ok_iff ka_state_def account_ref_set_account account_state_Ok_iff dest: reads_backD)

lemma instruction_checked_add_Ok [result_simps]:
  "instruction_checked_add a b = Ok r \<longleftrightarrow> r = a + b \<and> unat r = unat a + unat b"
  by (simp add: instruction_checked_add_def result_simps)

text \<open>The steps of a withdrawal that succeeds.\<close>

lemma stake_withdraw_Ok:
  assumes "stake_withdraw c st me lamports to clk history authority custodian b = Ok st'"
  obtains l reserve is_staked st1 st2 where "ka_is_signer authority"
    "withdraw_reserve c st me clk history {ka_key authority} b = Ok (l, reserve, is_staked)"
    "\<not> is_in_force l clk (Option.bind custodian signer_key)"
    "is_staked \<or> lamports \<noteq> ka_lamports st me \<Longrightarrow> unat lamports + unat reserve \<le> unat (ka_lamports st me)"
    "(if lamports = ka_lamports st me then ka_set_state c st me StakeUninitialized else Ok st) = Ok st1"
    "debit st1 me lamports = Ok st2" "credit st2 to lamports = Ok st'"
proof -
  obtain l reserve is_staked where auth: "ka_is_signer authority"
    and r: "withdraw_reserve c st me clk history {ka_key authority} b = Ok (l, reserve, is_staked)"
    and free: "\<not> is_in_force l clk (Option.bind custodian signer_key)"
    and rest: "and_then (instruction_checked_add lamports reserve) (\<lambda>lamports_and_reserve.
       if is_staked \<and> ka_lamports st me < lamports_and_reserve then Err InsufficientFunds
       else if lamports \<noteq> ka_lamports st me \<and> ka_lamports st me < lamports_and_reserve
       then if is_staked then Panic else Err InsufficientFunds
       else
         and_then (if lamports = ka_lamports st me then ka_set_state c st me StakeUninitialized else Ok st) (\<lambda>st1.
         and_then (debit st1 me lamports) (\<lambda>st2. credit st2 to lamports))) = Ok st'"
    using assms by (auto simp: stake_withdraw_def Let_def signer_key_def and_then_Ok_iff ok_or_Ok_iff split: if_split_asm)
  from rest obtain lr where lr: "instruction_checked_add lamports reserve = Ok lr"
    and body: "(if is_staked \<and> ka_lamports st me < lr then Err InsufficientFunds
       else if lamports \<noteq> ka_lamports st me \<and> ka_lamports st me < lr
       then if is_staked then Panic else Err InsufficientFunds
       else
         and_then (if lamports = ka_lamports st me then ka_set_state c st me StakeUninitialized else Ok st) (\<lambda>st1.
         and_then (debit st1 me lamports) (\<lambda>st2. credit st2 to lamports))) = Ok st'"
    unfolding and_then_Ok_iff [of "instruction_checked_add _ _"] by blast
  have ok: "\<not> (is_staked \<and> ka_lamports st me < lr)" "\<not> (lamports \<noteq> ka_lamports st me \<and> ka_lamports st me < lr)"
    using body by (auto split: if_split_asm)
  note fin = body [unfolded if_not_P [OF ok(1)] if_not_P [OF ok(2)]]
  have "is_staked \<or> lamports \<noteq> ka_lamports st me \<Longrightarrow> unat lamports + unat reserve \<le> unat (ka_lamports st me)"
    using ok lr by (auto simp: word_le_nat_alt not_less instruction_checked_add_Ok)
  with fin that [OF auth r free] show thesis unfolding and_then_Ok_iff by blast
qed

lemma withdraw_backed:
  assumes at: "backed_at c st me" and "in_store st to" and "clock_epoch clk \<noteq> - 1"
    and run: "stake_withdraw c st me lamports to clk history authority custodian b = Ok st'"
  shows "backed_store c st'"
proof -
  obtain l reserve is_staked st1 st2 where
    r: "withdraw_reserve c st me clk history {ka_key authority} b = Ok (l, reserve, is_staked)"
    and le: "is_staked \<or> lamports \<noteq> ka_lamports st me \<Longrightarrow> unat lamports + unat reserve \<le> unat (ka_lamports st me)"
    and st1: "(if lamports = ka_lamports st me then ka_set_state c st me StakeUninitialized else Ok st) = Ok st1"
    and st2: "debit st1 me lamports = Ok st2" "credit st2 to lamports = Ok st'"
    using stake_withdraw_Ok [OF run] by metis
  have me: "reads_back c" "backed_store c st" "in_store st me" using at by (simp_all add: backed_at_def)
  have len: "length st1 = length st" "length st2 = length st1"
    using st1 st2(1) by (auto simp: ka_set_state_Ok_iff debit_Ok_iff split: if_split_asm)
  then have in1: "in_store st1 me" "in_store st2 to" using me(3) assms(2) by (simp_all add: in_store_def)
  have b1: "backed_store c st1"
    using st1 me backed_set_state [OF me, of StakeUninitialized] by (auto split: if_split_asm)
  have "backs (ka_lamports st1 me - lamports) s" if s: "ka_state c st1 me = Ok s" for s
  proof (cases "lamports = ka_lamports st me")
    case True
    then have "s = StakeUninitialized" using ka_state_written [OF me(1,3) _ s] st1 by simp
    then show ?thesis by simp
  next
    case False
    then have eq: "st1 = st" using st1 by simp
    have sum: "unat lamports + unat reserve \<le> unat (ka_lamports st me)" using le False by blast
    then have sub: "unat (ka_lamports st me - lamports) = unat (ka_lamports st me) - unat lamports"
      by (simp add: unat_sub_le word_le_nat_alt)
    have nd: "deactivation_epoch d = - 1 \<Longrightarrow> \<not> deactivation_epoch d \<le> clock_epoch clk" for d
      using assms(3) by (auto simp: word_order.extremum_unique)
    from r show ?thesis
    proof (cases rule: withdraw_reserve_cases)
      case (staked m s')
      then have "s = Staked m s'" using s eq by simp
      moreover have "unat (rent_exempt_reserve m) +
          (if deactivation_epoch (stake_delegation s') = - 1 then unat (delegated_stake (stake_delegation s')) else 0) \<le> unat reserve"
        using staked(4) nd [of "stake_delegation s'"] by (simp split: if_split_asm)
      ultimately show ?thesis using sum sub eq by simp
    next
      case (initialized m)
      then have "s = StakeInitialized m" using s eq by simp
      then show ?thesis using initialized(4) sum sub eq by simp
    next
      case uninitialized
      then have "s = StakeUninitialized" using s eq by simp
      then show ?thesis by simp
    qed
  qed
  from backed_debit [OF b1 in1(1) st2(1) this] show ?thesis using backed_credit in1(2) st2(2) by blast
qed

subsection \<open>Splits and merges\<close>

text \<open>
  A split and a merge write states before they move lamports, so that the accounts in between need not be backed. An
  account is followed instead: its state, if it can be read, and its balance.
\<close>

definition follows :: "stake_state codec \<Rightarrow> store \<Rightarrow> keyed_account \<Rightarrow> nat \<Rightarrow> stake_state \<Rightarrow> u64 \<Rightarrow> bool" where
  "follows c st ka n s l \<longleftrightarrow>
     in_store st ka \<and> ka_lamports st ka = l \<and> ka_data_len st ka = n \<and>
     (\<forall>s'. ka_state c st ka = Ok s' \<longrightarrow> s' = s)"

abbreviation holds :: "stake_state codec \<Rightarrow> store \<Rightarrow> keyed_account \<Rightarrow> stake_state \<Rightarrow> u64 \<Rightarrow> bool" where
  "holds c st ka \<equiv> follows c st ka STAKE_STATE_SIZE"

lemma holdsD: "follows c st ka n s l \<Longrightarrow> in_store st ka" "follows c st ka n s l \<Longrightarrow> ka_lamports st ka = l"
  by (simp_all add: follows_def)

lemma follows_state:
  "ka_state c st ka = Ok s \<Longrightarrow> in_store st ka \<Longrightarrow> ka_data_len st ka = n \<Longrightarrow> follows c st ka n s (ka_lamports st ka)"
  by (simp add: follows_def)

lemma holds_set:
  assumes "ka_set_state c st ka s' = Ok st'" and "follows c st kb n s l" and "in_store st ka" and "reads_back c"
  shows "follows c st' kb n (if ka_account kb = ka_account ka then s' else s) l"
  using assms
  by (auto simp: follows_def ka_set_state_Ok_iff in_store_set_account ka_state_def ka_lamports_def ka_data_len_def
      account_ref_set_account account_state_Ok_iff dest: reads_backD)
     (simp_all add: account_ref_def)

lemma holds_debit:
  assumes "debit st ka x = Ok st'" and "follows c st kb n s l" and "in_store st ka"
  shows "follows c st' kb n s (if ka_account kb = ka_account ka then l - x else l)"
  using assms
  by (auto simp: follows_def debit_Ok_iff in_store_set_account ka_state_def ka_lamports_def ka_data_len_def
      account_ref_set_account account_state_Ok_iff)
     (simp_all add: account_ref_def)

lemma holds_credit:
  assumes "credit st ka x = Ok st'" and "follows c st kb n s l" and "in_store st ka"
  shows "follows c st' kb n s (if ka_account kb = ka_account ka then l + x else l)"
  using assms
  by (auto simp: follows_def credit_Ok_iff in_store_set_account ka_state_def ka_lamports_def ka_data_len_def
      account_ref_set_account account_state_Ok_iff)
     (simp_all add: account_ref_def)

lemma holds_backed: "holds c st ka s l \<Longrightarrow> backs l s \<Longrightarrow> backed c (account_ref st ka)"
  by (auto simp: follows_def backed_def ka_state_def ka_lamports_def ka_data_len_def)

lemma two_backed:
  assumes "backed_store c st" and "touches_only {ka_account a, ka_account b} st (Ok st' :: (store, instruction_error) result)"
    and "holds c st' a s l" "backs l s" and "holds c st' b s' l'" "backs l' s'"
  shows "backed_store c st'"
  using backed_frame [OF assms(1,2)] holds_backed [OF assms(3,4)] holds_backed [OF assms(5,6)]
  by (auto simp: account_ref_def)

lemma in_store_steps:
  "ka_set_state c st ka s = Ok st' \<Longrightarrow> in_store st' kb = in_store st kb"
  "debit st ka x = Ok st' \<Longrightarrow> in_store st' kb = in_store st kb"
  "credit st ka x = Ok st' \<Longrightarrow> in_store st' kb = in_store st kb"
  by (auto simp: ka_set_state_Ok_iff debit_Ok_iff credit_Ok_iff in_store_set_account)

lemma split_reserve_le:
  "calculate_split_rent_exempt_reserve r (word_of_nat STAKE_STATE_SIZE) (word_of_nat STAKE_STATE_SIZE) \<le> r"
proof -
  have le: "unat (r div 328) * unat (328 :: u64) \<le> unat r" by (simp add: unat_div)
  then have "unat (r div 328 * 328) \<le> unat r"
    using unat_mul_less [of "r div 328" 328] unat_u64_bound [of r] by simp
  then show ?thesis
    by (simp add: calculate_split_rent_exempt_reserve_def STAKE_STATE_SIZE_def ACCOUNT_STORAGE_OVERHEAD_def word_le_nat_alt)
qed

lemma split_funds:
  assumes "split_funds_ok st me split lamports m split_reserve = Ok ()"
  shows "unat split_reserve - unat (ka_lamports st split) < unat lamports"
    and "lamports \<noteq> ka_lamports st me \<Longrightarrow> unat lamports + unat (rent_exempt_reserve m) < unat (ka_lamports st me)"
  using assms
  by (auto simp: split_funds_ok_def and_then_Ok_iff instruction_checked_add_Ok word_less_nat_alt not_le unat_saturating_sub
      split: if_split_asm)

lemma split_backs:
  assumes funds: "split_funds_ok st me split lamports m r = Ok ()" and r: "r \<le> rent_exempt_reserve m"
    and le: "lamports \<le> ka_lamports st me" and b: "backs (ka_lamports st me) (Staked m s)"
    and run: "(stake_split s delta amount :: (_, stake_error) result) = Ok (s', split_s)"
    and amounts: "(delta, amount) =
      (if lamports = ka_lamports st me
       then (saturating_sub lamports (rent_exempt_reserve m), saturating_sub lamports (rent_exempt_reserve m))
       else (lamports, lamports - saturating_sub r (ka_lamports st split)))"
  shows "lamports \<noteq> ka_lamports st me \<Longrightarrow> backs (ka_lamports st me - lamports) (Staked m s')"
    and "unat (ka_lamports st split) + unat lamports < 2 ^ 64 \<Longrightarrow>
      backs (ka_lamports st split + lamports) (Staked (m\<lparr>rent_exempt_reserve := r\<rparr>) split_s)"
proof -
  let ?d = "stake_delegation s"
  have d: "delta \<le> delegated_stake ?d"
    and s': "stake_delegation s' = ?d\<lparr>delegated_stake := delegated_stake ?d - delta\<rparr>"
    and split_s: "stake_delegation split_s = ?d\<lparr>delegated_stake := amount\<rparr>"
    using run by (auto simp: stake_split_def Let_def split: if_split_asm)
  have sub: "unat (ka_lamports st me - lamports) = unat (ka_lamports st me) - unat lamports"
    "unat (delegated_stake ?d - delta) = unat (delegated_stake ?d) - unat delta"
    using le d by (simp_all add: unat_sub_le)
  note f = split_funds [OF funds]
  show "backs (ka_lamports st me - lamports) (Staked m s')" if ne: "lamports \<noteq> ka_lamports st me"
  proof -
    have "delta = lamports" using amounts ne by simp
    then show ?thesis using f(2) [OF ne] b sub d by (auto simp: s' word_le_nat_alt split: if_split_asm)
  qed
  have "unat amount \<le> unat lamports - (unat r - unat (ka_lamports st split)) \<or> unat amount \<le> unat lamports - unat r"
  proof (cases "lamports = ka_lamports st me")
    case True
    then have "amount = saturating_sub lamports (rent_exempt_reserve m)" using amounts by simp
    then show ?thesis using r by (simp add: unat_saturating_sub word_le_nat_alt diff_le_mono2)
  next
    case False
    then have "amount = lamports - saturating_sub r (ka_lamports st split)" using amounts by simp
    then show ?thesis using f(1) by (simp add: unat_sub_le unat_saturating_sub word_le_nat_alt)
  qed
  then show "backs (ka_lamports st split + lamports) (Staked (m\<lparr>rent_exempt_reserve := r\<rparr>) split_s)"
    if "unat (ka_lamports st split) + unat lamports < 2 ^ 64"
    using f(1) unat_add_less [of "ka_lamports st split" lamports] that by (auto simp: split_s)
qed

text \<open>The match of \<open>split\<close> for a delegation, and the rest of \<open>split\<close> for two accounts.\<close>

lemma split_states_staked:
  assumes "ka_state c st me = Ok (Staked m s)" and "split_states c st me lamports split signers = Ok st1"
    and "r = calculate_split_rent_exempt_reserve (rent_exempt_reserve m) (word_of_nat (ka_data_len st me))
      (word_of_nat (ka_data_len st split))"
  obtains delta amount s' split_s st0 where
    "(delta, amount) =
      (if lamports = ka_lamports st me
       then (saturating_sub lamports (rent_exempt_reserve m), saturating_sub lamports (rent_exempt_reserve m))
       else (lamports, lamports - saturating_sub r (ka_lamports st split)))"
    "split_funds_ok st me split lamports m r = Ok ()" "stake_split s delta amount = Ok (s', split_s)"
    "ka_set_state c st me (Staked m s') = Ok st0"
    "ka_set_state c st0 split (Staked (m\<lparr>rent_exempt_reserve := r\<rparr>) split_s) = Ok st1"
  using assms by (auto simp: split_states_def Let_def and_then_Ok_iff map_err_Ok_iff split: if_split_asm)

lemma split_writes:
  assumes "reads_back c" and ne: "ka_account me \<noteq> ka_account split"
    and "ka_set_state c st split x = Ok st'" and f: "follows c st split n y l" "follows c st me n' s l'"
  shows "follows c st' split n x l" "follows c st' me n' s l'"
  using holds_set [OF assms(3) f(1) holdsD(1) [OF f(1)] assms(1)] holds_set [OF assms(3) f(2) holdsD(1) [OF f(1)] assms(1)] ne
  by simp_all

lemma split_tail:
  assumes c: "reads_back c" and ne: "ka_account me \<noteq> ka_account split"
    and h1: "follows c st1 me n s l" "follows c st1 split n' s' l'"
    and st2: "(if lamports = ka_lamports st1 me then ka_set_state c st1 me StakeUninitialized else Ok st1) = Ok st2"
    and st3: "credit st2 split lamports = Ok st3" and st': "debit st3 me lamports = Ok st'"
  shows "follows c st' me n (if lamports = l then StakeUninitialized else s) (l - lamports)"
    and "follows c st' split n' s' (l' + lamports)" and "unat l' + unat lamports < 2 ^ 64"
proof -
  let ?s = "if lamports = l then StakeUninitialized else s"
  have h2: "follows c st2 me n ?s l" "follows c st2 split n' s' l'"
    using st2 h1 ne ne [symmetric] unfolding holdsD(2) [OF h1(1)]
    by (cases "lamports = l";
        simp add: holds_set [OF _ h1(1) holdsD(1) [OF h1(1)] c, simplified]
          holds_set [OF _ h1(2) holdsD(1) [OF h1(1)] c, simplified ne [symmetric] if_False])+
  have h3: "follows c st3 me n ?s l" "follows c st3 split n' s' (l' + lamports)"
    using holds_credit [OF st3 h2(1) holdsD(1) [OF h2(2)]] holds_credit [OF st3 h2(2) holdsD(1) [OF h2(2)]] ne by simp_all
  show "follows c st' me n ?s (l - lamports)" "follows c st' split n' s' (l' + lamports)"
    using holds_debit [OF st' h3(1) holdsD(1) [OF h3(1)]] holds_debit [OF st' h3(2) holdsD(1) [OF h3(1)]] ne [symmetric] by simp_all
  show "unat l' + unat lamports < 2 ^ 64" using st3 h2(2) by (simp add: credit_Ok_iff follows_def)
qed

text \<open>The states after the match of \<open>split\<close>, with what they need once the lamports have moved.\<close>

lemma split_states_holds:
  assumes at: "backed_at c st me" and split: "in_store st split" "ka_state c st split = Ok StakeUninitialized"
    "ka_data_len st split = STAKE_STATE_SIZE"
    and le: "lamports \<le> ka_lamports st me"
    and run: "split_states c st me lamports split signers = Ok st1"
  shows "st1 = st \<and> ka_state c st me = Ok StakeUninitialized \<or>
    ka_account me \<noteq> ka_account split \<and>
    (\<exists>s s'. holds c st1 me s (ka_lamports st me) \<and> holds c st1 split s' (ka_lamports st split) \<and>
      (lamports \<noteq> ka_lamports st me \<longrightarrow> backs (ka_lamports st me - lamports) s) \<and>
      (unat (ka_lamports st split) + unat lamports < 2 ^ 64 \<longrightarrow> backs (ka_lamports st split + lamports) s'))"
proof -
  have me: "reads_back c" "in_store st me" using at by (simp_all add: backed_at_def)
  have other: "ka_account me \<noteq> ka_account split" if "ka_state c st me = Ok s" "s \<noteq> StakeUninitialized" for s
    using that split(2) by (auto simp: ka_state_def account_ref_def)
  have h: "holds c st split StakeUninitialized (ka_lamports st split)" by (rule follows_state [OF split(2,1,3)])
  note put = split_writes [OF me(1)]
  from run [unfolded split_states_def] show ?thesis
  proof (cases rule: on_state)
    case (staked m s)
    have len: "ka_data_len st me = STAKE_STATE_SIZE" and b: "backs (ka_lamports st me) (Staked m s)"
      using state_backed [OF staked(1) at] by simp_all
    let ?r = "calculate_split_rent_exempt_reserve (rent_exempt_reserve m) (word_of_nat STAKE_STATE_SIZE) (word_of_nat STAKE_STATE_SIZE)"
    obtain delta amount s' split_s st0 where
      amounts: "(delta, amount) =
        (if lamports = ka_lamports st me
         then (saturating_sub lamports (rent_exempt_reserve m), saturating_sub lamports (rent_exempt_reserve m))
         else (lamports, lamports - saturating_sub ?r (ka_lamports st split)))"
      and funds: "split_funds_ok st me split lamports m ?r = Ok ()"
      and s': "stake_split s delta amount = Ok (s', split_s)"
      and st0: "ka_set_state c st me (Staked m s') = Ok st0"
        "ka_set_state c st0 split (Staked (m\<lparr>rent_exempt_reserve := ?r\<rparr>) split_s) = Ok st1"
      using split_states_staked [OF staked(1) run] unfolding len split(3) by blast
    note ne = other [OF staked(1)]
    have h0: "holds c st0 me (Staked m s') (ka_lamports st me)" "holds c st0 split StakeUninitialized (ka_lamports st split)"
      using holds_set [OF st0(1) follows_state [OF staked(1) me(2) len] me(2,1)] holds_set [OF st0(1) h me(2,1)] ne
      by simp_all
    from put [OF _ st0(2) h0(2,1)] split_backs [OF funds split_reserve_le le b s' amounts] ne
    show ?thesis by blast
  next
    case (initialized m)
    have len: "ka_data_len st me = STAKE_STATE_SIZE" and b: "unat (rent_exempt_reserve m) \<le> unat (ka_lamports st me)"
      using state_backed [OF initialized(1) at] by simp_all
    obtain r where funds: "split_funds_ok st me split lamports m r = Ok ()"
      and st0: "ka_set_state c st split (StakeInitialized (m\<lparr>rent_exempt_reserve := r\<rparr>)) = Ok st1"
      using initialized(2) by (auto simp: Let_def and_then_Ok_iff)
    have "lamports \<noteq> ka_lamports st me \<Longrightarrow> backs (ka_lamports st me - lamports) (StakeInitialized m)"
      "unat (ka_lamports st split) + unat lamports < 2 ^ 64 \<Longrightarrow>
       backs (ka_lamports st split + lamports) (StakeInitialized (m\<lparr>rent_exempt_reserve := r\<rparr>))"
      using split_funds [OF funds] unat_add_less [of "ka_lamports st split" lamports] le
      by (auto simp: unat_sub_le)
    with put [OF _ st0 h follows_state [OF initialized(1) me(2) len]] other [OF initialized(1)]
    show ?thesis by blast
  qed (auto split: if_split_asm)
qed

lemma credit_then_debit_backed:
  assumes "backed_store c st" and "in_store st me" and "in_store st split"
    and "credit st split lamports = Ok st1" and "debit st1 me lamports = Ok st'"
    and "\<And>s. ka_state c st me = Ok s \<Longrightarrow> s = StakeUninitialized"
  shows "backed_store c st'"
proof (rule backed_debit [OF backed_credit [OF assms(1,3,4)] _ assms(5)])
  show "in_store st1 me" using in_store_steps(3) [OF assms(4)] assms(2) by simp
  fix s assume "ka_state c st1 me = Ok s"
  then have "ka_state c st me = Ok s"
    using assms(3,4)
    by (auto simp: credit_Ok_iff ka_state_def account_ref_set_account account_state_Ok_iff split: if_split_asm)
       (simp add: account_ref_def)
  from assms(6) [OF this] show "backs (ka_lamports st1 me - lamports) s" by simp
qed

lemma split_backed:
  assumes at: "backed_at c st me" and split: "in_store st split"
    and run: "split_stake_account c st me lamports split signers = Ok st'"
  shows "backed_store c st'"
proof -
  obtain st1 st2 st3 where len: "ka_data_len st split = STAKE_STATE_SIZE"
    and state: "ka_state c st split = Ok StakeUninitialized" and le: "lamports \<le> ka_lamports st me"
    and st1: "split_states c st me lamports split signers = Ok st1"
    and st2: "(if lamports = ka_lamports st1 me then ka_set_state c st1 me StakeUninitialized else Ok st1) = Ok st2"
    and st3: "credit st2 split lamports = Ok st3" and st': "debit st3 me lamports = Ok st'"
    using split_stake_account_Ok [OF run] by metis
  have me: "reads_back c" "backed_store c st" "in_store st me" using at by (simp_all add: backed_at_def)
  have tch: "touches_only {ka_account me, ka_account split} st (Ok st' :: (store, instruction_error) result)"
    using touches_only_split_stake_account [of me "{ka_account me, ka_account split}" split st c lamports signers] run by simp
  from split_states_holds [OF at split state len le st1] show ?thesis
  proof (elim disjE conjE exE)
    assume u: "st1 = st" "ka_state c st me = Ok StakeUninitialized"
    show ?thesis
    proof (rule credit_then_debit_backed [OF _ _ _ st3 st'])
      show "backed_store c st2" using st2 u me backed_set_state [OF me, of StakeUninitialized] by (auto split: if_split_asm)
      show "in_store st2 me" "in_store st2 split" using st2 u me(3) split
        by (auto simp: ka_set_state_Ok_iff in_store_set_account split: if_split_asm)
      show "s = StakeUninitialized" if "ka_state c st2 me = Ok s" for s
        using st2 u that ka_state_written [OF me(1,3)] by (auto split: if_split_asm)
    qed
  next
    fix s s' assume ne: "ka_account me \<noteq> ka_account split"
      and h1: "holds c st1 me s (ka_lamports st me)" "holds c st1 split s' (ka_lamports st split)"
      and b: "lamports \<noteq> ka_lamports st me \<longrightarrow> backs (ka_lamports st me - lamports) s"
        "unat (ka_lamports st split) + unat lamports < 2 ^ 64 \<longrightarrow> backs (ka_lamports st split + lamports) s'"
    from split_tail [OF me(1) ne h1 st2 st3 st'] two_backed [OF me(2) tch] b show ?thesis by simp
  qed
qed

text \<open>
  C21: A split divides a stake and makes none. When the split of a delegated account succeeds, some of the delegated
  amount is taken from it and at most as much is given to the new account: they differ by what the new account lacks for
  its reserve, which is the one of the old account in proportion to the sizes of the data. Both parts keep the voter, the epochs, the rate and the credits observed, and the new account has the
  authorities and the lockup of the old one. An account that is split off completely is uninitialized, and gives all that
  is taken. The lamports move in the same step, and the amount does not wrap around. (What is read of the two accounts
  afterwards, with an encoding that is read back as it was written.)
\<close>

theorem split_divides_stake:
  assumes "reads_back c" and "in_store st me" and "in_store st split"
    and "ka_state c st me = Ok (Staked m s)" and "split_stake_account c st me lamports split signers = Ok st'"
  shows "\<exists>r taken given.
    r = calculate_split_rent_exempt_reserve (rent_exempt_reserve m) (word_of_nat (ka_data_len st me))
      (word_of_nat (ka_data_len st split)) \<and>
    given \<le> taken \<and> taken \<le> delegated_stake (stake_delegation s) \<and>
    (if lamports = ka_lamports st me then given = taken \<and> unat taken = unat lamports - unat (rent_exempt_reserve m)
     else taken = lamports \<and> unat given = unat lamports - (unat r - unat (ka_lamports st split))) \<and>
    (\<forall>x. ka_state c st' me = Ok x \<longrightarrow> x =
       (if lamports = ka_lamports st me then StakeUninitialized
        else Staked m (s\<lparr>stake_delegation := (stake_delegation s)\<lparr>delegated_stake :=
          delegated_stake (stake_delegation s) - taken\<rparr>\<rparr>))) \<and>
    (\<forall>x. ka_state c st' split = Ok x \<longrightarrow> x =
       Staked (m\<lparr>rent_exempt_reserve := r\<rparr>)
         (s\<lparr>stake_delegation := (stake_delegation s)\<lparr>delegated_stake := given\<rparr>\<rparr>)) \<and>
    unat (ka_lamports st' me) = unat (ka_lamports st me) - unat lamports \<and>
    unat (ka_lamports st' split) = unat (ka_lamports st split) + unat lamports"
proof -
  define r where "r = calculate_split_rent_exempt_reserve (rent_exempt_reserve m) (word_of_nat (ka_data_len st me))
      (word_of_nat (ka_data_len st split))"
  obtain st1 st2 st3 where state: "ka_state c st split = Ok StakeUninitialized" and le: "lamports \<le> ka_lamports st me"
    and st1: "split_states c st me lamports split signers = Ok st1"
    and st2: "(if lamports = ka_lamports st1 me then ka_set_state c st1 me StakeUninitialized else Ok st1) = Ok st2"
    and st3: "credit st2 split lamports = Ok st3" and st': "debit st3 me lamports = Ok st'"
    using split_stake_account_Ok [OF assms(5)] by metis
  have ne: "ka_account me \<noteq> ka_account split" using assms(4) state by (auto simp: ka_state_def account_ref_def)
  obtain delta amount s' split_s st0 where
    amounts: "(delta, amount) =
      (if lamports = ka_lamports st me
       then (saturating_sub lamports (rent_exempt_reserve m), saturating_sub lamports (rent_exempt_reserve m))
       else (lamports, lamports - saturating_sub r (ka_lamports st split)))"
    and funds: "split_funds_ok st me split lamports m r = Ok ()" and run: "stake_split s delta amount = Ok (s', split_s)"
    and st0: "ka_set_state c st me (Staked m s') = Ok st0"
      "ka_set_state c st0 split (Staked (m\<lparr>rent_exempt_reserve := r\<rparr>) split_s) = Ok st1"
    by (rule split_states_staked [OF assms(4) st1 r_def])
  have d: "delta \<le> delegated_stake (stake_delegation s)"
    and s': "s' = s\<lparr>stake_delegation := (stake_delegation s)\<lparr>delegated_stake := delegated_stake (stake_delegation s) - delta\<rparr>\<rparr>"
      "split_s = s\<lparr>stake_delegation := (stake_delegation s)\<lparr>delegated_stake := amount\<rparr>\<rparr>"
    using run by (auto simp: stake_split_def Let_def split: if_split_asm)
  have split: "follows c st split (ka_data_len st split) StakeUninitialized (ka_lamports st split)"
    "follows c st me (ka_data_len st me) (Staked m s) (ka_lamports st me)"
    using follows_state state assms(2-4) by blast+
  have h0: "follows c st0 split (ka_data_len st split) StakeUninitialized (ka_lamports st split)"
    "follows c st0 me (ka_data_len st me) (Staked m s') (ka_lamports st me)"
    using holds_set [OF st0(1) split(1) assms(2,1)] holds_set [OF st0(1) split(2) assms(2,1)] ne [symmetric] by simp_all
  note h1 = split_writes [OF assms(1) ne st0(2) h0]
  note fin = split_tail [OF assms(1) ne h1(2,1) st2 st3 st']
  have sat: "saturating_sub r (ka_lamports st split) \<le> lamports"
    using split_funds(1) [OF funds] by (simp add: word_le_nat_alt unat_saturating_sub)
  have lam: "unat (ka_lamports st me - lamports) = unat (ka_lamports st me) - unat lamports"
    "unat (ka_lamports st split + lamports) = unat (ka_lamports st split) + unat lamports"
    using le fin(3) unat_add_less [of "ka_lamports st split" lamports] by (simp_all add: unat_sub_le)
  have "amount \<le> delta \<and>
    (if lamports = ka_lamports st me then amount = delta \<and> unat delta = unat lamports - unat (rent_exempt_reserve m)
     else delta = lamports \<and> unat amount = unat lamports - (unat r - unat (ka_lamports st split)))"
    using amounts sat by (auto simp: word_le_nat_alt unat_sub_le unat_saturating_sub split: if_split_asm)
  then show ?thesis
    using d fin lam r_def unfolding follows_def s' by (intro exI [of _ r] exI [of _ delta] exI [of _ amount]) auto
qed

lemma get_if_mergeable_state:
  assumes "get_if_mergeable c st ka clk history = Ok k"
  shows "case k of Inactive _ l \<Rightarrow> l = ka_lamports st ka | ActivationEpoch m s \<Rightarrow> ka_state c st ka = Ok (Staked m s)
    | FullyActive m s \<Rightarrow> ka_state c st ka = Ok (Staked m s)"
  using assms unfolding get_if_mergeable_def
  by (rule on_state) (auto simp: Let_def case_prod_beta split: if_split_asm)

lemma add_delegated_backs:
  assumes "add_delegated s x = Ok s'" and "backs l (Staked m s)" and "unat x \<le> unat y" and "unat l + unat y < 2 ^ 64"
  shows "backs (l + y) (Staked m s')"
proof -
  have "unat (l + y) = unat l + unat y" using unat_add_less [of l y] assms(4) by simp
  then show ?thesis
    using assms(1-3) by (auto simp: add_delegated_def and_then_Ok_iff instruction_checked_add_Ok split: if_split_asm)
qed

lemma mk_merge_backs:
  assumes k: "get_if_mergeable c st me clk history = Ok k" "get_if_mergeable c st source clk history = Ok k'"
    and b: "\<And>s. ka_state c st me = Ok s \<Longrightarrow> backs (ka_lamports st me) s"
      "\<And>s. ka_state c st source = Ok s \<Longrightarrow> backs (ka_lamports st source) s"
    and room: "unat (ka_lamports st me) + unat (ka_lamports st source) < 2 ^ 64"
    and run: "mk_merge k k' clk_opt = Ok (Some state)"
  shows "backs (ka_lamports st me + ka_lamports st source) state"
proof -
  note k = get_if_mergeable_state [OF k(1)] get_if_mergeable_state [OF k(2)]
  note unf = mk_merge_def and_then_Ok_iff active_stakes_can_merge_def active_delegations_can_merge_def
  consider m s m' l s' where "k = ActivationEpoch m s" "k' = Inactive m' l" "add_delegated s l = Ok s'" "state = Staked m s'"
    | m s m' t x s' where "k = ActivationEpoch m s" "k' = ActivationEpoch m' t" "deactivation_epoch (stake_delegation t) = - 1"
        "unat x = unat (rent_exempt_reserve m') + unat (delegated_stake (stake_delegation t))"
        "add_delegated s x = Ok s'" "state = Staked m s'"
    | m s m' t s' where "k = FullyActive m s" "k' = FullyActive m' t" "deactivation_epoch (stake_delegation t) = - 1"
        "add_delegated s (delegated_stake (stake_delegation t)) = Ok s'" "state = Staked m s'"
    using run by (cases k; cases k') (auto simp: unf instruction_checked_add_Ok split: if_split_asm)
  then show ?thesis
  proof cases
    case 1
    with k add_delegated_backs [OF 1(3) b(1) _ room, of m] show ?thesis by simp
  next
    case 2
    with k b(2) [of "Staked m' t"] add_delegated_backs [OF 2(5) b(1) _ room, of m] show ?thesis by simp
  next
    case 3
    with k b(2) [of "Staked m' t"] add_delegated_backs [OF 3(4) b(1) _ room, of m] show ?thesis by simp
  qed
qed

text \<open>The end of a merge: the source is cleared and its balance moves.\<close>

lemma merge_tail_holds:
  assumes c: "reads_back c" and h: "holds c st me s l" "holds c st source s0 l0"
    and st2: "ka_set_state c st source StakeUninitialized = Ok st2"
    and st3: "debit st2 source (ka_lamports st2 source) = Ok st3" and st': "credit st3 me (ka_lamports st2 source) = Ok st'"
  shows "ka_account me = ka_account source \<Longrightarrow> \<exists>x y. holds c st' me StakeUninitialized x \<and> holds c st' source StakeUninitialized y"
    and "ka_account me \<noteq> ka_account source \<Longrightarrow>
      holds c st' me s (l + l0) \<and> holds c st' source StakeUninitialized 0 \<and> unat l + unat l0 < 2 ^ 64"
proof -
  note h2 = holds_set [OF st2 h(1) holdsD(1) [OF h(2)] c] holds_set [OF st2 h(2) holdsD(1) [OF h(2)] c]
  note l0 = holdsD(2) [OF h2(2)]
  note h3 = holds_debit [OF st3 h2(1) holdsD(1) [OF h2(2)]] holds_debit [OF st3 h2(2) holdsD(1) [OF h2(2)]]
  note h' = holds_credit [OF st' h3(1) holdsD(1) [OF h3(1)]] holds_credit [OF st' h3(2) holdsD(1) [OF h3(1)]]
  show "\<exists>x y. holds c st' me StakeUninitialized x \<and> holds c st' source StakeUninitialized y"
    if "ka_account me = ka_account source"
    using h' that by auto
  show "holds c st' me s (l + l0) \<and> holds c st' source StakeUninitialized 0 \<and> unat l + unat l0 < 2 ^ 64"
    if ne: "ka_account me \<noteq> ka_account source"
    using h' ne ne [symmetric] st' holdsD(2) [OF h3(1)] unfolding l0 by (simp add: credit_Ok_iff)
qed

lemma merge_backed:
  assumes at: "backed_at c st me" "backed_at c st source"
    and run: "merge_stake_accounts c st me source clk history signers b = Ok st'"
  shows "backed_store c st'"
proof -
  obtain k k' merged st1 st2 st3 where
    k: "get_if_mergeable c st me clk history = Ok k" "get_if_mergeable c st source clk history = Ok k'"
    and merged: "mk_merge k k' (if b then Some clk else None) = Ok merged"
    and st1: "(case merged of Some merged_state \<Rightarrow> ka_set_state c st me merged_state | None \<Rightarrow> Ok st) = Ok st1"
    and st2: "ka_set_state c st1 source StakeUninitialized = Ok st2"
    and st3: "debit st2 source (ka_lamports st2 source) = Ok st3" and st': "credit st3 me (ka_lamports st2 source) = Ok st'"
    using run by (auto simp: merge_stake_accounts_def Let_def and_then_Ok_iff split: if_split_asm)
  have c: "reads_back c" "backed_store c st" "in_store st me" "in_store st source"
    using at by (simp_all add: backed_at_def)
  obtain s s0 where s: "ka_state c st me = Ok s" "state_meta s \<noteq> None"
    and s0: "ka_state c st source = Ok s0" "state_meta s0 \<noteq> None"
    using get_if_mergeable_meta [OF k(1)] get_if_mergeable_meta [OF k(2)] by auto
  have h: "holds c st me s (ka_lamports st me)" "holds c st source s0 (ka_lamports st source)"
    using state_backed [OF s(1) at(1)] state_backed [OF s0(1) at(2)] s s0 c(3,4) follows_state by blast+
  have tch: "touches_only {ka_account me, ka_account source} st (Ok st' :: (store, instruction_error) result)"
    using touches_only_merge_stake_accounts [of me "{ka_account me, ka_account source}" source st c clk history signers b] run
    by simp
  let ?s = "case merged of Some merged_state \<Rightarrow> merged_state | None \<Rightarrow> s"
  have h1: "holds c st1 me ?s (ka_lamports st me)" "\<exists>s1. holds c st1 source s1 (ka_lamports st source)"
    using st1 h holds_set [OF _ h(1) c(3,1)] holds_set [OF _ h(2) c(3,1)] by (cases merged; fastforce)+
  then obtain s1 where s1: "holds c st1 source s1 (ka_lamports st source)" by blast
  note tail = merge_tail_holds [OF c(1) h1(1) s1 st2 st3 st']
  show ?thesis
  proof (cases "ka_account me = ka_account source")
    case True
    with tail(1) two_backed [OF c(2) tch] show ?thesis by fastforce
  next
    case False
    note t = tail(2) [OF False]
    have "backs (ka_lamports st me + ka_lamports st source) ?s"
    proof (cases merged)
      case None
      have "ka_lamports st me \<le> ka_lamports st me + ka_lamports st source"
        using t unat_add_less [of "ka_lamports st me" "ka_lamports st source"] by (simp add: word_le_nat_alt)
      with None state_backed [OF s(1) at(1)] show ?thesis by (auto intro: backs_mono)
    next
      case (Some state)
      then show ?thesis
        using mk_merge_backs [OF k _ _ _ merged [unfolded Some]] state_backed [OF _ at(1)] state_backed [OF _ at(2)] t by simp
    qed
    with t two_backed [OF c(2) tch] show ?thesis by fastforce
  qed
qed

section \<open>The program keeps stakes backed\<close>

text \<open>
  C6: Stake is backed by lamports. Let every stake account that is initialized have its reserve and, unless it is
  deactivated, the delegated amount on top of it, and let its data have the length of \<open>StakeState\<close>, as \<open>Initialize\<close>
  demands. Then this is so after every successful instruction of the stake program: initializing, delegating, splitting,
  merging and withdrawing with any amounts and accounts (one account at two positions included) never leave an active
  delegation that is larger than the balance beside the reserve. The encoding of states has to be read back as it was
  written, and no clock account shows the last epoch of \<open>u64\<close>, which stands for no deactivation. With
  \<open>stake_program_v4\<close>, \<open>DelegateStake\<close> needs that the amount delegated before is covered, because it may rescind a
  deactivation. (The length matters: the reserve of a split is computed from it.)
\<close>

theorem stake_program_backed:
  assumes codec: "reads_back (kc_state kc)" and here: "accounts_present ic st"
    and backed: "backed_store (kc_state kc) st"
    and clock: "\<And>i clk. sysvar_at clock_id (kc_clock kc) ic st i = Ok clk \<Longrightarrow> clock_epoch clk \<noteq> - 1"
    and rescind: "\<And>me s. stake_decode kc ic st data = Ok (me, SI_DelegateStake) \<Longrightarrow>
      ic_feature_active ic Feature_stake_program_v4 \<Longrightarrow> ka_state (kc_state kc) st me = Ok s \<Longrightarrow> covered (ka_lamports st me) s"
    and run: "stake_process_instruction kc ic st data = Ok st'"
  shows "backed_store (kc_state kc) st'"
proof -
  obtain me i where dec: "stake_decode kc ic st data = Ok (me, i)"
    and go: "stake_dispatch kc ic st me (get_signers (ic_keyed_accounts ic)) i = Ok st'"
    using run by (auto simp: stake_process_instruction_def and_then_Ok_iff)
  note present = keyed_account_present [OF here]
  have at: "backed_at (kc_state kc) st ka"
    if "keyed_account_at_index (ic_keyed_accounts ic) n = Ok ka" "ka_owner st ka = stake_program_id" for n ka
    using that present codec backed by (auto simp: backed_at_def)
  have me: "backed_at (kc_state kc) st me"
    using dec at by (auto simp: stake_decode_def and_then_Ok_iff split: if_split_asm)
  note unf = stake_dispatch_def Let_def and_then_Ok_iff
  show ?thesis
  proof (cases i)
    case SI_DelegateStake
    then show ?thesis using go rescind dec by (auto simp: unf intro: delegate_backed [OF me])
  next
    case (SI_Split l)
    then show ?thesis using go present by (auto simp: unf intro: split_backed [OF me])
  next
    case (SI_Withdraw l)
    then show ?thesis using go by (auto simp: unf intro: withdraw_backed [OF me present clock])
  next
    case SI_Merge
    then obtain source clk history where source: "keyed_account_at_index (ic_keyed_accounts ic) 1 = Ok source"
      and merge: "merge_stake_accounts (kc_state kc) st me source clk history (get_signers (ic_keyed_accounts ic))
        (ic_feature_active ic Feature_stake_program_v4) = Ok st'"
      using go by (auto simp: unf)
    then have "ka_owner st source = stake_program_id" by (simp add: merge_stake_accounts_def split: if_split_asm)
    from merge_backed [OF me at [OF source this] merge] show ?thesis .
  next
    case SI_Deactivate
    then show ?thesis using go clock by (auto simp: unf intro: deactivate_backed [OF me])
  qed (use go in \<open>auto simp: unf split: if_split_asm
      intro: initialize_backed [OF me] authorize_backed [OF me] authorize_with_seed_backed [OF me] set_lockup_backed [OF me]\<close>)
qed

lemma table_codec_reads_back:
  assumes "length table \<le> 255"
  shows "reads_back (table_codec table)"
  unfolding reads_back_def
proof (intro allI impI)
  fix s rest s' assume read: "bincode_deserialize (table_codec table) (bincode_serialize (table_codec table) s @ rest) = Some s'"
  show "s' = s"
  proof (cases "position (\<lambda>x. x = s) table")
    case None
    with read assms show ?thesis by (simp add: table_codec_def get_at_def split: if_split_asm)
  next
    case (Some i)
    note i = position_Some [OF Some]
    then have "unat (word_of_nat i :: u8) = i" using assms by (simp add: unat_of_nat)
    with read i Some show ?thesis by (simp add: table_codec_def get_at_def)
  qed
qed

lemma table_codec_read:
  "bincode_deserialize (table_codec table) [] = None"
  "bincode_deserialize (table_codec table) (b # bs) = get_at table (unat b)"
  "bincode_deserialize (table_codec table) (replicate n b) = (if n = 0 then None else get_at table (unat b))"
  by (simp_all add: table_codec_def split: nat.split) (cases n; simp)

lemma demo_store_backed: "backed_store (kc_state demo_stake_codecs) demo_stake_store"
  by (auto simp: backed_store_def demo_stake_store_def backed_def account_state_Ok_iff demo_stake_codecs_def
      table_codec_read get_at_def demo_stake_states_def demo_meta_def demo_stake_def delegation_new_def delegation_default_def
      shared_new_def STAKE_STATE_SIZE_def)

theorem stake_program_backed_witness:
  "\<exists>st'. stake_process_instruction demo_stake_codecs demo_stake_context demo_stake_store [4] = Ok st' \<and>
     map acc_lamports st' = [600, 400, 7] \<and> backed_store (kc_state demo_stake_codecs) demo_stake_store \<and>
     backed_store (kc_state demo_stake_codecs) st'"
proof -
  obtain r where r: "stake_process_instruction demo_stake_codecs demo_stake_context demo_stake_store [4] = r" by blast
  have "map_ok (map acc_lamports) (stake_process_instruction demo_stake_codecs demo_stake_context demo_stake_store [4]) =
      Ok [600, 400, 7]" by code_simp
  then obtain st' where st': "r = Ok st'" "map acc_lamports st' = [600, 400, 7]"
    unfolding r by (auto simp: map_ok_Ok_iff)
  have codec: "reads_back (kc_state demo_stake_codecs)"
    by (simp add: demo_stake_codecs_def table_codec_reads_back demo_stake_states_def)
  have "map_ok snd (stake_decode demo_stake_codecs demo_stake_context demo_stake_store [4]) = Ok (SI_Split 400)" by code_simp
  then have split: "stake_decode demo_stake_codecs demo_stake_context demo_stake_store [4] \<noteq> Ok (me, SI_DelegateStake)" for me
    by (auto simp: map_ok_Ok_iff)
  have clock: "clock_epoch clk \<noteq> - 1"
    if "sysvar_at clock_id (kc_clock demo_stake_codecs) demo_stake_context demo_stake_store i = Ok clk" for i clk
  proof -
    have "clk = clock_default"
      using that by (auto simp: sysvar_at_def from_keyed_account_def and_then_Ok_iff ok_or_Ok_iff demo_stake_codecs_def
          table_codec_def get_at_def split: if_split_asm list.splits)
    then show ?thesis by (simp add: clock_default_def)
  qed
  note b = demo_store_backed
  have "backed_store (kc_state demo_stake_codecs) st'"
    by (rule stake_program_backed [OF codec demo_accounts_present b _ _ r [unfolded st'(1)]]) (use clock split in blast)+
  with b show ?thesis unfolding r st'(1) by (intro exI [of _ st'] conjI refl st'(2))
qed

theorem split_divides_stake_witness:
  "\<exists>st' r taken given.
     split_stake_account (kc_state demo_stake_codecs) demo_stake_store (ic_keyed_accounts demo_stake_context ! 0) 400
       (ic_keyed_accounts demo_stake_context ! 1) {5} = Ok st' \<and>
     map acc_lamports st' = [600, 400, 7] \<and> given \<le> taken \<and> taken \<le> 600 \<and>
     (\<forall>x. ka_state (kc_state demo_stake_codecs) st' (ic_keyed_accounts demo_stake_context ! 1) = Ok x \<longrightarrow> x =
       Staked (demo_meta\<lparr>rent_exempt_reserve := r\<rparr>) ((demo_stake 600 0)\<lparr>stake_delegation :=
         (stake_delegation (demo_stake 600 0))\<lparr>delegated_stake := given\<rparr>\<rparr>))"
proof -
  let ?c = "kc_state demo_stake_codecs" and ?me = "ic_keyed_accounts demo_stake_context ! 0"
    and ?split = "ic_keyed_accounts demo_stake_context ! 1"
  obtain res where res: "split_stake_account ?c demo_stake_store ?me 400 ?split {5} = res" by blast
  have "map_ok (map acc_lamports) (split_stake_account ?c demo_stake_store ?me 400 ?split {5}) = Ok [600, 400, 7]"
    by code_simp
  then obtain st' where st': "res = Ok st'" "map acc_lamports st' = [600, 400, 7]"
    unfolding res by (auto simp: map_ok_Ok_iff)
  have codec: "reads_back ?c"
    by (simp add: demo_stake_codecs_def table_codec_reads_back demo_stake_states_def)
  have here: "in_store demo_stake_store ?me" "in_store demo_stake_store ?split"
    by (simp_all add: in_store_def demo_stake_store_def demo_stake_context_def create_keyed_accounts_unified_def)
  have state: "ka_state ?c demo_stake_store ?me = Ok (Staked demo_meta (demo_stake 600 0))" by code_simp
  have d: "delegated_stake (stake_delegation (demo_stake 600 0)) = 600" by code_simp
  from split_divides_stake [OF codec here state res [unfolded st'(1)], unfolded d]
  obtain r taken given where "given \<le> taken" "taken \<le> 600"
    "\<forall>x. ka_state ?c st' ?split = Ok x \<longrightarrow> x = Staked (demo_meta\<lparr>rent_exempt_reserve := r\<rparr>)
       ((demo_stake 600 0)\<lparr>stake_delegation := (stake_delegation (demo_stake 600 0))\<lparr>delegated_stake := given\<rparr>\<rparr>)"
    by (elim exE conjE)
  then show ?thesis
    unfolding res st'(1) by (intro exI [of _ st'] exI [of _ r] exI [of _ taken] exI [of _ given] conjI refl st'(2))
qed

section \<open>Rescinding a deactivation\<close>

text \<open>
  A stake account of 428 lamports, 328 of them the reserve, whose delegation of 100 lamports was made in epoch 5 and of
  which 25 are effective in epoch 6. The three states it goes through, and the store with its byte and two balances.
\<close>

definition rescind_states :: "stake_state list" where
  "rescind_states =
     [StakeUninitialized,
      Staked demo_meta \<lparr>stake_delegation = demo_delegation\<lparr>deactivation_epoch := - 1\<rparr>, credits_observed = 0\<rparr>,
      Staked demo_meta \<lparr>stake_delegation = demo_delegation, credits_observed = 0\<rparr>]"

definition rescind_store :: "u8 \<Rightarrow> u64 \<Rightarrow> u64 \<Rightarrow> store" where
  "rescind_store b l l' =
     [(shared_new l STAKE_STATE_SIZE stake_program_id)\<lparr>acc_data := b # replicate 199 0\<rparr>,
      shared_new l' 0 0, shared_new 0 1 vote_program_id]"

definition rescind_account :: "nat \<Rightarrow> pubkey \<Rightarrow> keyed_account" where
  "rescind_account i k = \<lparr>ka_is_signer = True, ka_is_writable = True, ka_key = k, ka_account = i\<rparr>"

lemmas rescind_defs = rescind_store_def rescind_account_def shared_new_def ka_lamports_def ka_owner_def account_ref_def
  set_account_def

lemma rescind_store_sel:
  "ka_lamports (rescind_store b l l') (rescind_account 0 k) = l"
  "ka_owner (rescind_store b l l') (rescind_account 2 k) = vote_program_id"
  "ka_state (table_codec rescind_states) (rescind_store b l l') (rescind_account 0 k) = Ok s \<longleftrightarrow>
     get_at rescind_states (unat b) = Some s"
  by (simp_all add: rescind_defs ka_state_def account_state_Ok_iff table_codec_read)

lemma rescind_store_debit: "x \<le> l \<Longrightarrow> debit (rescind_store b l l') (rescind_account 0 k) x = Ok (rescind_store b (l - x) l')"
  by (simp add: debit_Ok_iff) (simp add: rescind_defs)

lemma rescind_store_credit:
  "unat l' + unat x < 2 ^ 64 \<Longrightarrow> credit (rescind_store b l l') (rescind_account 1 k) x = Ok (rescind_store b l (l' + x))"
  by (simp add: credit_Ok_iff) (simp add: rescind_defs)

lemma rescind_store_write:
  assumes "position (\<lambda>x. x = s) rescind_states = Some i"
  shows "ka_set_state (table_codec rescind_states) (rescind_store b l l') (rescind_account 0 k) s =
    Ok (rescind_store (word_of_nat i) l l')"
  using assms by (simp add: ka_set_state_Ok_iff ka_data_len_def table_codec_def) (simp add: rescind_defs)

lemma rescind_states_at:
  "get_at rescind_states 0 = Some StakeUninitialized"
  "get_at rescind_states (unat (1 :: u8)) = Some (Staked demo_meta
     \<lparr>stake_delegation = demo_delegation\<lparr>deactivation_epoch := - 1\<rparr>, credits_observed = 0\<rparr>)"
  "get_at rescind_states (unat (2 :: u8)) = Some (Staked demo_meta \<lparr>stake_delegation = demo_delegation, credits_observed = 0\<rparr>)"
  "position (\<lambda>x. x = Staked demo_meta
     \<lparr>stake_delegation = demo_delegation\<lparr>deactivation_epoch := - 1\<rparr>, credits_observed = 0\<rparr>) rescind_states = Some 1"
  "position (\<lambda>x. x = Staked demo_meta \<lparr>stake_delegation = demo_delegation, credits_observed = 0\<rparr>) rescind_states = Some 2"
  by (simp_all add: rescind_states_def get_at_def demo_delegation_def delegation_new_def delegation_default_def)

definition rescind_clock :: clock where
  "rescind_clock = clock_default\<lparr>clock_epoch := 6\<rparr>"

lemma rescind_deactivate:
  "stake_deactivate_account (table_codec rescind_states) (rescind_store 1 l l') (rescind_account 0 9) rescind_clock {5} =
     Ok (rescind_store 2 l l')"
proof -
  have "stake_deactivate \<lparr>stake_delegation = demo_delegation\<lparr>deactivation_epoch := - 1\<rparr>, credits_observed = 0\<rparr> 6 =
    (Ok \<lparr>stake_delegation = demo_delegation, credits_observed = 0\<rparr> :: (stake, stake_error) result)"
    by (simp add: stake_deactivate_def demo_delegation_def)
  then show ?thesis
    using rescind_states_at rescind_store_write [OF rescind_states_at(5)]
    by (simp add: stake_deactivate_account_def and_then_Ok_iff rescind_store_sel authorized_check_def demo_meta_def
      rescind_clock_def)
qed

lemma rescind_withdraw:
  "stake_withdraw (table_codec rescind_states) (rescind_store 2 428 7) (rescind_account 0 9) 75 (rescind_account 1 8)
     rescind_clock demo_history (rescind_account 1 6) None True = Ok (rescind_store 2 353 82)"
proof -
  have add: "instruction_checked_add 25 328 = Ok 353" "instruction_checked_add 75 353 = Ok 428"
    by (simp_all add: instruction_checked_add_Ok)
  have "withdraw_reserve (table_codec rescind_states) (rescind_store 2 428 7) (rescind_account 0 9) rescind_clock demo_history {6}
    True = Ok (lockup_default, 353, True)"
    using rescind_states_at(3) demo_delegation_stake(1)
    by (simp add: withdraw_reserve_def and_then_Ok_iff rescind_store_sel authorized_check_def demo_meta_def rescind_clock_def add)
  then show ?thesis
    using rescind_store_debit [of 75 428 2 7 9] rescind_store_credit [of 7 75 2 353 8]
    by (simp add: stake_withdraw_def signer_key_def rescind_account_def add rescind_store_sel [unfolded rescind_account_def]
      is_in_force_def lockup_default_def rescind_clock_def clock_default_def)
qed

lemma rescind_delegate:
  "stake_delegate (table_codec rescind_states) (table_codec [Current demo_voted]) (rescind_store 2 l l') (rescind_account 0 9)
     (rescind_account 2 3) rescind_clock demo_history stake_config_default {5} True = Ok (rescind_store 1 l l')"
proof -
  have r: "redelegate \<lparr>stake_delegation = demo_delegation, credits_observed = 0\<rparr> x 3 vs rescind_clock demo_history config True =
    Ok \<lparr>stake_delegation = demo_delegation\<lparr>deactivation_epoch := - 1\<rparr>, credits_observed = 0\<rparr>" for x vs config
    using demo_delegation_stake(1)
    by (simp add: redelegate_def stake_stake_def rescind_clock_def) (simp add: demo_delegation_def delegation_new_def)
  have vote: "ka_state (table_codec [Current demo_voted]) (rescind_store 2 l l') (rescind_account 2 3) = Ok (Current demo_voted)"
    by (simp add: rescind_defs ka_state_def account_state_Ok_iff table_codec_def get_at_def)
  show ?thesis
    using rescind_states_at(3) rescind_store_write [OF rescind_states_at(4)] r
    by (simp add: stake_delegate_def and_then_Ok_iff map_err_Ok_iff rescind_store_sel authorized_check_def demo_meta_def vote)
       (simp add: rescind_account_def)
qed

lemma rescind_backed:
  "backed_store (table_codec rescind_states) (rescind_store 1 428 7)"
  "\<not> backed_store (table_codec rescind_states) (rescind_store 1 353 82)"
  using rescind_states_at(1,2)
  by (auto simp: backed_store_def rescind_store_def shared_new_def backed_def account_state_Ok_iff table_codec_read
      demo_meta_def STAKE_STATE_SIZE_def)


text \<open>
  A delegation can outlive its lamports. An account holds 100 delegated lamports of which 25 are effective, and
  backs them. In one epoch its owner deactivates the stake, withdraws the 75 lamports that are not effective, and
  delegates to the same voter again: with \<open>stake_program_v4\<close> this rescinds the deactivation, and the delegation is again
  of 100 lamports, in an account with 25 beside its reserve.
\<close>

lemma rescinded_stake_unbacked:
  "stake_deactivate_account (table_codec rescind_states) (rescind_store 1 428 7) (rescind_account 0 9) rescind_clock {5} =
     Ok (rescind_store 2 428 7) \<and>
   stake_withdraw (table_codec rescind_states) (rescind_store 2 428 7) (rescind_account 0 9) 75 (rescind_account 1 8)
     rescind_clock demo_history (rescind_account 1 6) None True = Ok (rescind_store 2 353 82) \<and>
   stake_delegate (table_codec rescind_states) (table_codec [Current demo_voted]) (rescind_store 2 353 82)
     (rescind_account 0 9) (rescind_account 2 3) rescind_clock demo_history stake_config_default {5} True =
     Ok (rescind_store 1 353 82) \<and>
   backed_store (table_codec rescind_states) (rescind_store 1 428 7) \<and>
   \<not> backed_store (table_codec rescind_states) (rescind_store 1 353 82)"
  using rescind_deactivate rescind_withdraw rescind_delegate rescind_backed by simp

end
