(* ===== verification/Builtin_Programs.thy ===== *)
theory Builtin_Programs
  imports Message_Processor System_Program Vote_Program Config_Program Stake_Backing
begin

text \<open>
  The builtin programs in the message processor (\<open>runtime/src/builtins.rs\<close>,
  \<open>programs/secp256k1/src/lib.rs\<close>, \<open>programs/compute-budget/src/lib.rs\<close>): the models of the system, vote,
  stake and config programs run on the keyed accounts of the context. The native loader is a
  parameter. The theorem composes the programs with the message processor: what a
  processed message can have done to an account.
\<close>

section \<open>The builtins\<close>

text \<open>
  A program that works on its keyed accounts only. When it fails the store is as before: an
  instruction that fails fails the message, and a caller of a failed program does not get the copies
  back.
\<close>

definition program_context :: "invoke_env \<Rightarrow> keyed_account list \<Rightarrow> invoke_state \<Rightarrow> invoke_context" where
  "program_context env kas s =
     \<lparr>ic_feature_active = ie_feature_active env, ic_keyed_accounts = kas,
      ic_sysvar_data = (\<lambda>key. fst (get_sysvar_data env key s))\<rparr>"

definition builtin_processor ::
  "(invoke_context \<Rightarrow> store \<Rightarrow> u8 list \<Rightarrow> (store, instruction_error) result) \<Rightarrow> processor" where
  "builtin_processor f env program_id data s =
     (case get_keyed_accounts s of
        Ok kas \<Rightarrow>
          (case f (program_context env kas s) (is_store s) data of
             Ok st \<Rightarrow> (Ok (), s\<lparr>is_store := st\<rparr>)
           | Err e \<Rightarrow> (Err e, s)
           | Panic \<Rightarrow> (Panic, s))
      | Err e \<Rightarrow> (Err e, s)
      | Panic \<Rightarrow> (Panic, s))"

definition secp256k1_process_instruction :: processor where
  "secp256k1_process_instruction env program_id data s = (Ok (), s)"

definition compute_budget_process_instruction :: processor where
  "compute_budget_process_instruction env program_id data s = (Ok (), s)"

text \<open>The stake program may ask for the clock sysvar, which the context then remembers.\<close>

definition stake_processor :: "stake_codecs \<Rightarrow> processor" where
  "stake_processor kc env program_id data s =
     (let (r, s') = builtin_processor (stake_process_instruction kc) env program_id data s;
          asks =
            (case get_keyed_accounts s of
               Ok kas \<Rightarrow> stake_asks_clock kc (program_context env kas s) (is_store s) data
             | _ \<Rightarrow> False)
      in (r, if asks then snd (get_sysvar_data env clock_id s') else s'))"

definition genesis_builtins ::
  "system_codecs \<Rightarrow> vote_codecs \<Rightarrow> stake_codecs \<Rightarrow> config_keys codec \<Rightarrow> programs" where
  "genesis_builtins sc vc kc cc =
     [(system_program_id, builtin_processor (system_process_instruction sc)),
      (vote_program_id, builtin_processor (vote_process_instruction vc)),
      (stake_program_id, stake_processor kc),
      (config_program_id, builtin_processor (config_process_instruction cc)),
      (secp256k1_program_id, secp256k1_process_instruction)]"

definition feature_builtins :: "programs" where
  "feature_builtins = [(compute_budget_id, compute_budget_process_instruction)]"

section \<open>The programs touch only their accounts\<close>

lemma program_context_simps [simp]:
  "ic_feature_active (program_context env kas s) = ie_feature_active env"
  "ic_keyed_accounts (program_context env kas s) = kas"
  by (simp_all add: program_context_def)

lemma touches_only_nonce [touch_intros]:
  "ka_account me \<in> K \<Longrightarrow> touches_only K st (advance_nonce_account c st me rbs signers)"
  "ka_account me \<in> K \<Longrightarrow> touches_only K st (initialize_nonce_account c st me pk rbs rent)"
  "ka_account me \<in> K \<Longrightarrow> touches_only K st (authorize_nonce_account c st me pk signers)"
  unfolding advance_nonce_account_def initialize_nonce_account_def authorize_nonce_account_def
  by (auto intro!: touch_intros split: nonce_state.splits nonce_versions.splits simp: Let_def)

lemma touches_only_transfer_verified [touch_intros]:
  "ka_account from \<in> K \<Longrightarrow> ka_account to \<in> K \<Longrightarrow> touches_only K st (transfer_verified st from to lamports)"
  unfolding transfer_verified_def by (simp add: touches_only_simps touches_only_move)

lemma touches_only_transfer [touch_intros]:
  "ka_account from \<in> K \<Longrightarrow> ka_account to \<in> K \<Longrightarrow> touches_only K st (transfer st from to lamports ic)"
  "ka_account from \<in> K \<Longrightarrow> ka_account to \<in> K \<Longrightarrow>
   touches_only K st (transfer_with_seed cr st from base seed owner to lamports ic)"
  unfolding transfer_def transfer_with_seed_def by (auto intro!: touch_intros)

lemma touches_only_create_account [touch_intros]:
  assumes "ka_account from \<in> K" and "ka_account to \<in> K"
  shows "touches_only K st (create_account st from to addr lamports space owner signers ic)"
  unfolding create_account_def
proof (intro touches_only_if touches_only_simps touches_only_and_then)
  fix a
  show "touches_only K st (transfer (set_account st to a) from to lamports ic)"
    by (rule touches_only_trans [OF touches_only_set_account touches_only_transfer(1)]) (fact assms)+
qed

lemma touches_only_vote [touch_intros]:
  "ka_account me \<in> K \<Longrightarrow> touches_only K st (vote_authorize_account c st me pk va signers clk)"
  "ka_account me \<in> K \<Longrightarrow> touches_only K st (update_validator_identity c st me node signers)"
  "ka_account me \<in> K \<Longrightarrow> touches_only K st (update_commission c st me comm signers)"
  "ka_account me \<in> K \<Longrightarrow> touches_only K st (initialize_account c nr st me vi signers clk b)"
  "ka_account me \<in> K \<Longrightarrow> touches_only K st (process_vote_account c st me shs clk v signers)"
  unfolding vote_authorize_account_def update_validator_identity_def update_commission_def initialize_account_def
    process_vote_account_def Let_def case_prod_beta by (intro touch_intros; assumption)+

lemma touches_only_vote_withdraw [touch_intros]:
  "ka_account me \<in> K \<Longrightarrow> ka_account to \<in> K \<Longrightarrow> touches_only K st (vote_withdraw c st me lamports to signers)"
  unfolding vote_withdraw_def Let_def
  by (rule touches_only_and_then, rule touches_only_and_then, rule touches_only_bind)
     (simp_all add: touches_only_simps touches_only_set_state touches_only_move)

lemma touches_only_set_lamports: "ka_account ka \<in> K \<Longrightarrow> touches_only K st (Ok (set_lamports st ka l))"
  unfolding set_lamports_def by (rule touches_only_set_account)

lemma touches_only_withdraw_nonce [touch_intros]:
  assumes "ka_account me \<in> K" and "ka_account to \<in> K"
  shows "touches_only K st (withdraw_nonce_account c st me lamports to rbs rent signers)"
  unfolding touches_only_def
proof (intro allI impI)
  fix st' assume "withdraw_nonce_account c st me lamports to rbs rent signers = Ok st'"
  then obtain s st1 l l' where st1: "withdraw_checked c st me lamports rbs rent signers s st1"
    and st': "st' = set_lamports (set_lamports st1 me l) to l'"
    by (rule withdraw_nonce_account_Ok)
  have "touches_only K st (Ok st1 :: (store, instruction_error) result)"
    using st1 touches_only_set_state [OF assms(1), of st c "NonceCurrent Uninitialized"]
    by (cases s) (auto simp: touches_only_simps split: if_splits)
  from touches_only_trans [OF this touches_only_trans [OF touches_only_set_lamports [OF assms(1)] touches_only_set_lamports [OF assms(2)]], of l l']
  show "length st' = length st \<and> (\<forall>i<length st. i \<notin> K \<longrightarrow> st' ! i = st ! i)"
    unfolding st' touches_only_def by simp
qed

text \<open>The positions of the keyed accounts of a context.\<close>

definition visible :: "keyed_account list \<Rightarrow> nat set" where
  "visible kas = ka_account ` set kas"

lemma visible_at_index: "keyed_account_at_index kas i = Ok ka \<Longrightarrow> ka_account ka \<in> visible kas"
  by (auto simp: visible_def result_simps)

lemma touches_only_system:
  "touches_only (visible (ic_keyed_accounts ic)) st (system_process_instruction sc ic st data)"
  unfolding system_process_instruction_def
proof (rule touches_only_and_then)
  fix i
  show "touches_only (visible (ic_keyed_accounts ic)) st (system_dispatch sc ic st (get_signers (ic_keyed_accounts ic)) i)"
    unfolding system_dispatch_def Let_def by (cases i) (auto intro!: touch_intros intro: visible_at_index)
qed

lemma touches_only_vote_program:
  "touches_only (visible (ic_keyed_accounts ic)) st (vote_process_instruction vc ic st data)"
  unfolding vote_process_instruction_def Let_def
proof (intro touches_only_and_then touches_only_if touches_only_simps)
  fix me i assume "keyed_account_at_index (ic_keyed_accounts ic) 0 = Ok me"
  then show "touches_only (visible (ic_keyed_accounts ic)) st (vote_dispatch vc ic st me (get_signers (ic_keyed_accounts ic)) i)"
    unfolding vote_dispatch_def Let_def by (cases i) (auto intro!: touch_intros intro: visible_at_index)
qed

lemma touches_only_config:
  "touches_only (visible (ic_keyed_accounts ic)) st (config_process_instruction cc ic st data)"
  unfolding config_process_instruction_def Let_def
  by (auto intro!: touch_intros intro: visible_at_index)

lemma touches_only_stake_program:
  "touches_only (visible (ic_keyed_accounts ic)) st (stake_process_instruction kc ic st data)"
  unfolding stake_process_instruction_def case_prod_beta
proof (rule touches_only_and_then)
  fix p assume "stake_decode kc ic st data = Ok p"
  then have "keyed_account_at_index (ic_keyed_accounts ic) 0 = Ok (fst p)"
    by (auto simp: stake_decode_def and_then_Ok_iff split: if_splits)
  then have "ka_account (fst p) \<in> visible (ic_keyed_accounts ic)" by (rule visible_at_index)
  then show "touches_only (visible (ic_keyed_accounts ic)) st
      (stake_dispatch kc ic st (fst p) (get_signers (ic_keyed_accounts ic)) (snd p))"
    unfolding stake_dispatch_def Let_def by (cases "snd p") (auto intro!: touch_intros intro: visible_at_index)
qed

section \<open>Programs that make no calls\<close>

text \<open>
  A program that leaves what the runtime remembers of the accounts, and touches only the accounts
  of its frame.
\<close>

definition leaf :: "processor \<Rightarrow> bool" where
  "leaf p \<longleftrightarrow>
     (\<forall>env program_id data s kas. get_keyed_accounts s = Ok kas \<longrightarrow>
        (let s' = snd (p env program_id data s) in
         is_pre_accounts s' = is_pre_accounts s \<and> touches_only (visible kas) (is_store s) (Ok (is_store s') :: (store, unit) result)))"

definition leaves :: "programs \<Rightarrow> bool" where
  "leaves ps \<longleftrightarrow> (\<forall>(key, p)\<in>set ps. leaf p)"

lemma leaf_builtin:
  assumes "\<And>ic st data. touches_only (visible (ic_keyed_accounts ic)) st (f ic st data)"
  shows "leaf (builtin_processor f)"
  unfolding leaf_def Let_def
proof (intro allI impI)
  fix env :: invoke_env and program_id data s kas assume kas: "get_keyed_accounts s = Ok kas"
  let ?ic = "program_context env kas s"
  show "is_pre_accounts (snd (builtin_processor f env program_id data s)) = is_pre_accounts s \<and>
    touches_only (visible kas) (is_store s) (Ok (is_store (snd (builtin_processor f env program_id data s))) :: (store, unit) result)"
    using assms [of ?ic "is_store s" data] kas
    by (cases "f ?ic (is_store s) data") (simp_all add: builtin_processor_def touches_only_def)
qed

lemma leaf_skip: "leaf secp256k1_process_instruction" "leaf compute_budget_process_instruction"
  by (simp_all add: leaf_def secp256k1_process_instruction_def compute_budget_process_instruction_def touches_only_simps)

lemma get_sysvar_data_keeps [simp]:
  "is_pre_accounts (snd (get_sysvar_data env key s)) = is_pre_accounts s"
  "is_store (snd (get_sysvar_data env key s)) = is_store s"
  by (auto simp: get_sysvar_data_def Let_def split: option.splits)

lemma stake_processor_run:
  "\<exists>b. snd (stake_processor kc env program_id data s) =
     (let s' = snd (builtin_processor (stake_process_instruction kc) env program_id data s)
      in if b then snd (get_sysvar_data env clock_id s') else s')"
  by (auto simp: stake_processor_def Let_def case_prod_beta)

lemma leaf_stake: "leaf (stake_processor kc)"
  unfolding leaf_def Let_def
proof (intro allI impI)
  fix env :: invoke_env and program_id data s kas assume kas: "get_keyed_accounts s = Ok kas"
  let ?s = "snd (builtin_processor (stake_process_instruction kc) env program_id data s)"
  have "leaf (builtin_processor (stake_process_instruction kc))"
    by (rule leaf_builtin) (rule touches_only_stake_program)
  then have l: "is_pre_accounts ?s = is_pre_accounts s \<and>
      touches_only (visible kas) (is_store s) (Ok (is_store ?s) :: (store, unit) result)"
    using kas unfolding leaf_def Let_def by blast
  obtain b where b: "snd (stake_processor kc env program_id data s) = (if b then snd (get_sysvar_data env clock_id ?s) else ?s)"
    using stake_processor_run [of kc env program_id data s] unfolding Let_def by blast
  show "is_pre_accounts (snd (stake_processor kc env program_id data s)) = is_pre_accounts s \<and>
    touches_only (visible kas) (is_store s) (Ok (is_store (snd (stake_processor kc env program_id data s))) :: (store, unit) result)"
    unfolding b using l by (cases b) simp_all
qed

lemma genesis_builtins_leaf: "leaves (genesis_builtins sc vc kc cc @ feature_builtins)"
  using leaf_stake leaf_skip leaf_builtin [OF touches_only_system] leaf_builtin [OF touches_only_vote_program]
    leaf_builtin [OF touches_only_config]
  by (auto simp: genesis_builtins_def feature_builtins_def leaves_def)

lemma get_keyed_accounts_removed:
  assumes "get_keyed_accounts s = Ok (ka # kas)" and "sf_range_start (last (is_invoke_stack s)) = 0"
  shows "\<exists>s'. remove_first_keyed_account s = (Ok (), s') \<and> get_keyed_accounts s' = Ok kas \<and>
    is_store s' = is_store s \<and> is_pre_accounts s' = is_pre_accounts s"
proof -
  obtain frames frame where st: "is_invoke_stack s = frames @ [frame]"
    using assms(1) by (cases "is_invoke_stack s" rule: rev_cases) (auto simp: get_keyed_accounts_def)
  from assms(1) have *: "sf_range_start frame \<le> sf_range_end frame" "sf_range_end frame \<le> length (sf_keyed_accounts frame)"
    "drop (sf_range_start frame) (take (sf_range_end frame) (sf_keyed_accounts frame)) = ka # kas"
    by (auto simp: get_keyed_accounts_def st split: if_splits)
  have "sf_range_end frame - sf_range_start frame = Suc (length kas)"
    using arg_cong [OF *(3), of length] *(2) by simp
  then have "sf_range_start frame < sf_range_end frame" "sf_range_start frame = 0" using assms(2) st by auto
  moreover have "drop (Suc (sf_range_start frame)) (take (sf_range_end frame) (sf_keyed_accounts frame)) = kas"
    using *(3) by (metis drop_Suc drop_drop list.sel(3) plus_1_eq_Suc tl_drop)
  ultimately show ?thesis using * by (simp add: remove_first_keyed_account_def get_keyed_accounts_def st)
qed

text \<open>The dispatch to a program that makes no calls.\<close>

lemma visible_mono: "touches_only (visible kas) st r \<Longrightarrow> touches_only (visible (ka # kas)) st r"
  by (auto simp: touches_only_def visible_def)

lemma find_program_mem: "find_program ps key = Some p \<Longrightarrow> (key, p) \<in> set ps"
  by (auto simp: find_program_def dest!: find_SomeD)

lemma process_instruction_leaf:
  assumes "leaves ps" and "leaf native_loader"
    and kas: "get_keyed_accounts s = Ok kas" and "sf_range_start (last (is_invoke_stack s)) = 0"
    and s': "s' = snd (process_instruction ps native_loader env program_id data s)"
  shows "is_pre_accounts s' = is_pre_accounts s \<and>
    touches_only (visible kas) (is_store s) (Ok (is_store s') :: (store, unit) result)"
proof (cases kas)
  case Nil
  then show ?thesis using kas s' by (simp add: process_instruction_def touches_only_simps)
next
  case (Cons root rest)
  obtain s1 where s1: "remove_first_keyed_account s = (Ok (), s1)" "get_keyed_accounts s1 = Ok rest"
    "is_store s1 = is_store s" "is_pre_accounts s1 = is_pre_accounts s"
    using get_keyed_accounts_removed [OF kas [unfolded Cons] assms(4)] by blast
  have run: "is_pre_accounts (snd (p env pid d t)) = is_pre_accounts t \<and>
      touches_only (visible ks) (is_store t) (Ok (is_store (snd (p env pid d t))) :: (store, unit) result)"
    if "leaf p" "get_keyed_accounts t = Ok ks" for p pid d t ks
    using that unfolding leaf_def Let_def by blast
  have found: "leaf p" if "find_program ps key = Some p" for key p
    using find_program_mem [OF that] assms(1) by (auto simp: leaves_def)
  show ?thesis
  proof (cases "ka_owner (is_store s) root = native_loader_id")
    case native: True
    show ?thesis
    proof (cases "find_program ps (ka_key root)")
      case None
      then show ?thesis using native run [OF assms(2) kas, of native_loader_id data] kas
        by (simp add: s' Cons process_instruction_def)
    next
      case (Some p)
      note r = run [OF found [OF Some] s1(2), of program_id data]
      show ?thesis using native Some kas s1 r visible_mono [OF conjunct2 [OF r], of root]
        by (simp add: s' Cons process_instruction_def)
    qed
  next
    case False
    then show ?thesis
      using run [OF found kas, of _ _ program_id data] kas
      by (cases "find_program ps (ka_owner (is_store s) root)") (simp_all add: s' Cons process_instruction_def touches_only_simps)
  qed
qed

lemma instruction_context_frame:
  assumes "instruction_context me msg ci executable_accounts accounts k ms = Ok (program_id, env, s)"
  obtains kas where "get_keyed_accounts s = Ok kas" "sf_range_start (last (is_invoke_stack s)) = 0"
    "visible kas = instruction_refs ci executable_accounts accounts"
proof -
  obtain keyed where keyed: "create_keyed_accounts msg ci executable_accounts accounts = (Ok keyed :: (_, instruction_error) result)"
    and stack: "is_invoke_stack s = [stack_frame_new program_id (create_keyed_accounts_unified keyed)]"
    using assms by (auto simp: instruction_context_def invoke_context_new_def and_then_Ok_iff Let_def)
  obtain ks where ks: "list_all2 (\<lambda>x y. \<exists>a. msg_is_writable msg (unat x) = (Ok a :: (bool, instruction_error) result) \<and>
      unat x < length accounts \<and> (msg_is_signer msg (unat x), a, accounts ! unat x) = y) (ci_accounts ci) ks"
    "keyed = map (\<lambda>p. (False, False, p)) executable_accounts @ ks"
    using keyed by (auto simp: create_keyed_accounts_def result_simps case_prod_unfold)
  have "map (\<lambda>x. snd (snd (snd x))) ks = map (\<lambda>a. snd (accounts ! unat a)) (ci_accounts ci)"
    using ks(1) by (induction rule: list_all2_induct) auto
  then have "(\<lambda>x. snd (snd (snd x))) ` set ks = (\<lambda>a. snd (accounts ! unat a)) ` set (ci_accounts ci)"
    by (metis list.set_map)
  then have "(\<lambda>x. snd (snd (snd x))) ` set keyed = instruction_refs ci executable_accounts accounts"
    by (simp add: ks(2) instruction_refs_def image_Un image_image)
  then have "visible (create_keyed_accounts_unified keyed) = instruction_refs ci executable_accounts accounts"
    by (simp add: visible_def create_keyed_accounts_unified_def image_image case_prod_unfold)
  then show ?thesis using that [of "create_keyed_accounts_unified keyed"] stack
    by (simp add: get_keyed_accounts_def stack_frame_new_def)
qed

text \<open>One instruction of such a program, account by account.\<close>

lemma execute_instruction_policy:
  assumes leaf: "leaves (me_programs me)" "leaf (me_native_loader me)"
    and loaded: "accounts_loaded msg loaders accounts (ms_store ms)" and exes: "executable_accounts \<in> set loaders"
    and ci: "ci \<in> set (msg_instructions msg)"
    and exec: "execute_instruction me msg ci executable_accounts accounts k ms = Ok ms'"
    and fix1: "fixup_instructions_sysvar me msg accounts k (ms_store ms) = Ok st1"
  shows "account_sum accounts (ms_store ms') = account_sum accounts (ms_store ms)"
    and "length (ms_store ms) \<le> length (ms_store ms')"
    and "n < length accounts \<Longrightarrow> n \<notin> unat ` set (ci_accounts ci) \<Longrightarrow> ms_store ms' ! snd (accounts ! n) = st1 ! snd (accounts ! n)"
    and "a \<in> set (ci_accounts ci) \<Longrightarrow>
      change_allowed (msg_account_keys msg ! unat (ci_program_id_index ci)) (write_granted msg (unat a)) (me_rent me)
        (me_feature_active me Feature_updated_verify_policy) (st1 ! snd (accounts ! unat a)) (ms_store ms' ! snd (accounts ! unat a))"
proof -
  obtain program_id env s s' t where ctx: "instruction_context me msg ci executable_accounts accounts k ms = Ok (program_id, env, s)"
    and run: "process_instruction (me_programs me) (me_native_loader me) env program_id (ci_data ci) s = (Ok (), s')"
    and v: "mp_verify msg ci (is_pre_accounts s') (deref (is_store s') accounts) (me_rent me) (ms_timings ms)
       (me_feature_active me Feature_updated_verify_policy) = Ok t"
    and ms': "ms_store ms' = is_store s'"
    using execute_instruction_runs [OF exec] by blast
  note c = instruction_context_facts [OF ctx]
  have st1: "is_store s = st1" using c(1) fix1 by simp
  obtain kas where kas: "get_keyed_accounts s = Ok kas" "sf_range_start (last (is_invoke_stack s)) = 0"
    "visible kas = instruction_refs ci executable_accounts accounts"
    using instruction_context_frame [OF ctx] by blast
  have s': "s' = snd (process_instruction (me_programs me) (me_native_loader me) env program_id (ci_data ci) s)" using run by simp
  note l = process_instruction_leaf [OF leaf kas(1,2) s', unfolded kas(3)]
  then have keeps: "run_keeps (length (is_store s)) (instruction_refs ci executable_accounts accounts) s s'"
    by (simp add: run_keeps_def touches_only_def)
  note one = execute_instruction_conserves [OF loaded exes ci ctx keeps v]
  show "account_sum accounts (ms_store ms') = account_sum accounts (ms_store ms)"
    and "length (ms_store ms) \<le> length (ms_store ms')" using one(1,2) by (simp_all add: ms')
  show "ms_store ms' ! snd (accounts ! n) = st1 ! snd (accounts ! n)" if "n < length accounts" "n \<notin> unat ` set (ci_accounts ci)"
    using one(3) [OF that] by (simp add: ms' st1)
  let ?us = "unique (ci_accounts ci)"
  have range: "indices_in_range msg ci (deref (is_store s) accounts)"
    using loaded_in_range [of msg loaders accounts "is_store s", OF _ ci c(4)] loaded fixup_keeps(1) [OF c(1)]
    by (auto simp: accounts_loaded_def)
  have pres: "is_pre_accounts s' = create_pre_accounts msg ci (deref (is_store s) accounts)" using l c(2) by simp
  show "change_allowed (msg_account_keys msg ! unat (ci_program_id_index ci)) (write_granted msg (unat a)) (me_rent me)
      (me_feature_active me Feature_updated_verify_policy) (st1 ! snd (accounts ! unat a)) (ms_store ms' ! snd (accounts ! unat a))"
    if mem: "a \<in> set (ci_accounts ci)"
  proof -
    obtain j where j: "j < length ?us" "?us ! j = a" using mem by (metis in_set_conv_nth set_unique)
    have a: "unat a < length accounts" using mem ci loaded by (auto simp: accounts_loaded_def)
    show ?thesis
      using mp_verify_policy(1) [OF v, of j] pre_accounts_of(1,3) [OF range, folded pres] j
      by (simp add: deref_nth [OF a] ms' st1)
  qed
qed

lemma change_allowed_trans:
  assumes "change_allowed program_id w rent policy a b" and "program_id \<in> owners"
    and "P \<and> R \<and> (\<not> w \<or> acc_executable pre \<longrightarrow> a = pre) \<and>
      (acc_owner pre \<notin> owners \<longrightarrow> acc_lamports pre \<le> acc_lamports a \<and> a = pre\<lparr>acc_lamports := acc_lamports a\<rparr>)"
  shows "(\<not> w \<or> acc_executable pre \<longrightarrow> b = pre) \<and>
    (acc_owner pre \<notin> owners \<longrightarrow> acc_lamports pre \<le> acc_lamports b \<and> b = pre\<lparr>acc_lamports := acc_lamports b\<rparr>)"
proof (intro conjI impI)
  show "b = pre" if "\<not> w \<or> acc_executable pre"
    using that assms(1,3) by (auto simp: change_allowed_def)
next
  assume *: "acc_owner pre \<notin> owners"
  then have a: "acc_lamports pre \<le> acc_lamports a" "a = pre\<lparr>acc_lamports := acc_lamports a\<rparr>" using assms(3) by auto
  have owner: "acc_owner a = acc_owner pre" by (subst a(2)) simp
  then have "acc_lamports a \<le> acc_lamports b \<and> b = a\<lparr>acc_lamports := acc_lamports b\<rparr>"
    using assms(1,2) * by (auto simp: change_allowed_def split: if_splits)
  then show "acc_lamports pre \<le> acc_lamports b" and "b = pre\<lparr>acc_lamports := acc_lamports b\<rparr>"
    using a by (auto simp: account_eq_iff)
qed

text \<open>
  C8: What a processed message can do to an account. With the builtin programs, and a native
  loader that touches only its accounts and makes no calls, let a message be processed. An account that the message does not make writable, or that is executable, is
  unchanged. An account whose owner is not among the programs of the message has at most gained
  lamports. And the lamports of all accounts add up to what they were. The instructions sysvar is
  excepted from the first two, since the runtime stores the current index in it.
\<close>

theorem process_message_builtins:
  assumes "me_programs me = genesis_builtins sc vc kc cc @ feature_builtins"
    and "leaf (me_native_loader me)" and "accounts_loaded msg loaders accounts (ms_store ms)"
    and "process_message me elapsed msg loaders accounts ms = Ok ms'"
    and "n < length accounts" and "fst (accounts ! n) \<noteq> instructions_id"
    and "pre = ms_store ms ! snd (accounts ! n)" and "post = ms_store ms' ! snd (accounts ! n)"
  shows "(\<not> write_granted msg n \<or> acc_executable pre \<longrightarrow> post = pre) \<and>
    (acc_owner pre \<notin> (\<lambda>ci. msg_account_keys msg ! unat (ci_program_id_index ci)) ` set (msg_instructions msg) \<longrightarrow>
       acc_lamports pre \<le> acc_lamports post \<and> post = pre\<lparr>acc_lamports := acc_lamports post\<rparr>) \<and>
    account_sum accounts (ms_store ms') = account_sum accounts (ms_store ms)"
proof -
  let ?owners = "(\<lambda>ci. msg_account_keys msg ! unat (ci_program_id_index ci)) ` set (msg_instructions msg)"
  let ?Q = "\<lambda>a. (\<not> write_granted msg n \<or> acc_executable pre \<longrightarrow> a = pre) \<and>
    (acc_owner pre \<notin> ?owners \<longrightarrow> acc_lamports pre \<le> acc_lamports a \<and> a = pre\<lparr>acc_lamports := acc_lamports a\<rparr>)"
  let ?P = "\<lambda>ms1. accounts_loaded msg loaders accounts (ms_store ms1) \<and>
    account_sum accounts (ms_store ms1) = account_sum accounts (ms_store ms) \<and> ?Q (ms_store ms1 ! snd (accounts ! n))"
  have leaf: "leaves (me_programs me)"
    using genesis_builtins_leaf assms(1) by simp
  have "?P ms'"
  proof (rule fold_res_keeps [OF _ _ assms(4) [unfolded process_message_def]])
    fix x ms1 ms2
    assume x: "x \<in> set (List.enumerate 0 (msg_instructions msg))" and P: "?P ms1"
      and step: "process_message_step me elapsed msg loaders accounts ms1 x = Ok ms2"
    obtain k ci where k: "x = (k, ci)" "ci \<in> set (msg_instructions msg)"
      using in_set_enumerate [OF x] nth_mem by blast
    obtain ms3 where exec: "execute_instruction me msg ci (loaders ! k) accounts k ms1 = Ok ms3"
      and ms2: "ms_store ms2 = ms_store ms3" and l: "loaders ! k \<in> set loaders"
      using process_message_step_runs [OF step [unfolded k(1)]] nth_mem by metis
    obtain st1 where fix1: "fixup_instructions_sysvar me msg accounts k (ms_store ms1) = Ok st1"
      using execute_instruction_runs [OF exec] instruction_context_facts(1) by metis
    note one = execute_instruction_policy [OF leaf assms(2) conjunct1 [OF P] l k(2) exec fix1]
    have same: "st1 ! snd (accounts ! n) = ms_store ms1 ! snd (accounts ! n)"
      using P assms(5,6) by (intro fixup_keeps(3) [OF fix1, of "fst (accounts ! n)"]) (simp_all add: accounts_loaded_def)
    have "?Q (ms_store ms3 ! snd (accounts ! n))"
    proof (cases "n \<in> unat ` set (ci_accounts ci)")
      case False
      then show ?thesis using one(3) [OF assms(5)] same P by simp
    next
      case True
      then obtain a where "a \<in> set (ci_accounts ci)" "n = unat a" by blast
      with one(4) [of a] have "change_allowed (msg_account_keys msg ! unat (ci_program_id_index ci)) (write_granted msg n) (me_rent me)
        (me_feature_active me Feature_updated_verify_policy) (ms_store ms1 ! snd (accounts ! n)) (ms_store ms3 ! snd (accounts ! n))"
        using same by simp
      moreover have "msg_account_keys msg ! unat (ci_program_id_index ci) \<in> ?owners" using k(2) by blast
      ultimately show ?thesis using P by (rule change_allowed_trans)
    qed
    moreover have "accounts_loaded msg loaders accounts (ms_store ms2)"
      using P one(2) by (auto simp: accounts_loaded_def ms2 dest!: bspec)
    ultimately show "?P ms2" using P one(1) by (simp add: ms2)
  qed (use assms in simp)
  then show ?thesis using assms(8) by blast
qed

section \<open>The builtins are isolated\<close>

text \<open>
  A program that acts on its context by the context's operations, writes to the accounts of its
  frame, and gives up when a verification fails. The builtins are such programs, and a message that
  runs such programs is isolated.
\<close>

definition well_behaved :: "processor \<Rightarrow> bool" where
  "well_behaved p \<longleftrightarrow>
     (\<forall>env program_id data s kas. get_keyed_accounts s = Ok kas \<longrightarrow>
        fst (p env program_id data s) = Ok () \<longrightarrow>
        verified_run env (length (is_store s)) (visible kas) s (snd (p env program_id data s)))"

lemma verified_run_mono:
  assumes "verified_run env base W s s'" and "W \<subseteq> W'"
  shows "verified_run env base W' s s'"
  using assms(1)
proof (rule mono_rtranclp [rule_format, rotated])
  have mono: "context_step env base W' s t" if "context_step env base W s t" for s t
    using that by cases (use assms(2) in \<open>auto intro: context_step.intros\<close>)
  fix s t assume "verified_step env base W s t"
  then show "verified_step env base W' s t"
    by cases (auto intro: verified_step.intros mono)
qed

text \<open>A change of the store is a sequence of writes.\<close>

lemma store_run:
  assumes "length st = length (is_store s)" and "\<And>i. i < length st \<Longrightarrow> i \<notin> W \<Longrightarrow> st ! i = is_store s ! i"
  shows "verified_run env base W s (s\<lparr>is_store := st\<rparr>)"
proof -
  have "verified_run env base W s (s\<lparr>is_store := take n st @ drop n (is_store s)\<rparr>)" if "n \<le> length st" for n
    using that
  proof (induction n)
    case 0
    then show ?case by simp
  next
    case (Suc n)
    let ?t = "s\<lparr>is_store := take n st @ drop n (is_store s)\<rparr>"
    have n: "n < length st" "n < length (is_store s)" using Suc.prems assms(1) by simp_all
    have next_store: "take (Suc n) st @ drop (Suc n) (is_store s) = (is_store ?t)[n := st ! n]"
      using n by (simp add: take_Suc_conv_app_nth list_update_append Cons_nth_drop_Suc [symmetric])
    show ?case
    proof (cases "n \<in> W")
      case True
      have "verified_step env base W ?t (?t\<lparr>is_store := (is_store ?t)[n := st ! n]\<rparr>)"
        by (rule verified_other, rule step_write) (use n True in simp_all)
      then show ?thesis using Suc next_store by (simp add: rtranclp.rtrancl_into_rtrancl)
    next
      case False
      have "(is_store ?t)[n := st ! n] = is_store ?t"
        using assms(2) [OF n(1) False] n by (intro list_update_same_conv [THEN iffD2]) (simp_all add: nth_append)
      then show ?thesis using Suc next_store by simp
    qed
  qed
  from this [of "length st"] show ?thesis by (simp add: assms(1))
qed

lemma well_behaved_builtin:
  assumes "\<And>ic st data. touches_only (visible (ic_keyed_accounts ic)) st (f ic st data)"
  shows "well_behaved (builtin_processor f)"
  unfolding well_behaved_def
proof (intro allI impI)
  fix env :: invoke_env and program_id data s kas assume kas: "get_keyed_accounts s = Ok kas"
    and "fst (builtin_processor f env program_id data s) = Ok ()"
  let ?ic = "program_context env kas s"
  show "verified_run env (length (is_store s)) (visible kas) s (snd (builtin_processor f env program_id data s))"
    using assms [of ?ic "is_store s" data] kas
    by (cases "f ?ic (is_store s) data") (auto simp: builtin_processor_def touches_only_def intro!: store_run)
qed

lemma well_behaved_stake: "well_behaved (stake_processor kc)"
  unfolding well_behaved_def
proof (intro allI impI)
  fix env :: invoke_env and program_id data s kas assume kas: "get_keyed_accounts s = Ok kas"
    and ok: "fst (stake_processor kc env program_id data s) = Ok ()"
  let ?s = "snd (builtin_processor (stake_process_instruction kc) env program_id data s)"
  have "well_behaved (builtin_processor (stake_process_instruction kc))"
    by (rule well_behaved_builtin) (rule touches_only_stake_program)
  then have run: "verified_run env (length (is_store s)) (visible kas) s ?s"
    using kas ok unfolding well_behaved_def by (simp add: stake_processor_def case_prod_beta)
  obtain b where b: "snd (stake_processor kc env program_id data s) =
     (if b then snd (get_sysvar_data env clock_id ?s) else ?s)"
    using stake_processor_run [of kc env program_id data s] unfolding Let_def by blast
  show "verified_run env (length (is_store s)) (visible kas) s (snd (stake_processor kc env program_id data s))"
    unfolding b using run rtranclp.rtrancl_into_rtrancl [OF run verified_other [OF step_sysvar [of env _ _ ?s clock_id]]] by simp
qed

lemma process_instruction_verified:
  assumes "\<forall>(key, p)\<in>set ps. well_behaved p" and "well_behaved native_loader"
    and kas: "get_keyed_accounts s = Ok kas" and "sf_range_start (last (is_invoke_stack s)) = 0"
    and ok: "fst (process_instruction ps native_loader env program_id data s) = Ok ()"
  shows "verified_run env (length (is_store s)) (visible kas) s (snd (process_instruction ps native_loader env program_id data s))"
proof (cases kas)
  case Nil
  then show ?thesis using kas by (simp add: process_instruction_def)
next
  case (Cons root rest)
  obtain s1 where s1: "remove_first_keyed_account s = (Ok (), s1)" "get_keyed_accounts s1 = Ok rest" "is_store s1 = is_store s"
    using get_keyed_accounts_removed [OF kas [unfolded Cons] assms(4)] by blast
  have found: "well_behaved p" if "find_program ps key = Some p" for key p
    using find_program_mem [OF that] assms(1) by auto
  have wb: "verified_run env (length (is_store t)) (visible ks) t (snd (p env pid data t))"
    if "well_behaved p" "get_keyed_accounts t = Ok ks" "fst (p env pid data t) = Ok ()" for p pid t ks
    using that unfolding well_behaved_def by blast
  have first: "verified_run env (length (is_store s)) (visible kas) s s1"
    using step_remove_first [of env "length (is_store s)" "visible kas" s] state_simps(6) [of s] s1(1)
    by (auto intro!: r_into_rtranclp verified_other)
  have sub: "visible rest \<subseteq> visible kas" by (auto simp: Cons visible_def)
  show ?thesis
  proof (cases "ka_owner (is_store s) root = native_loader_id")
    case native: True
    show ?thesis
    proof (cases "find_program ps (ka_key root)")
      case None
      then show ?thesis using native wb [OF assms(2) kas] kas ok by (simp add: Cons process_instruction_def)
    next
      case (Some p)
      have "verified_run env (length (is_store s)) (visible kas) s1 (snd (p env program_id data s1))"
        using native Some kas s1(1) ok
        by (intro verified_run_mono [OF wb [OF found [OF Some] s1(2), unfolded s1(3)] sub])
           (simp add: Cons process_instruction_def)
      from rtranclp_trans [OF first this] show ?thesis
        using native Some kas s1(1) by (simp add: Cons process_instruction_def)
    qed
  next
    case False
    then show ?thesis
      using wb [OF found kas] kas ok
      by (cases "find_program ps (ka_owner (is_store s) root)") (simp_all add: Cons process_instruction_def)
  qed
qed

lemma well_behaved_isolated:
  assumes "\<forall>(key, p)\<in>set (me_programs me). well_behaved p" and "well_behaved (me_native_loader me)"
  shows "isolated me msg loaders accounts"
  unfolding isolated_def
proof (intro allI impI)
  fix k ci ms program_id env s
  assume ctx: "instruction_context me msg ci (loaders ! k) accounts k ms = Ok (program_id, env, s)"
    and ok: "fst (process_instruction (me_programs me) (me_native_loader me) env program_id (ci_data ci) s) = Ok ()"
  obtain kas where "get_keyed_accounts s = Ok kas" "sf_range_start (last (is_invoke_stack s)) = 0"
    "visible kas = instruction_refs ci (loaders ! k) accounts"
    by (rule instruction_context_frame [OF ctx])
  then show "verified_run env (length (is_store s)) (instruction_refs ci (loaders ! k) accounts) s
      (snd (process_instruction (me_programs me) (me_native_loader me) env program_id (ci_data ci) s))"
    using process_instruction_verified [OF assms _ _ ok] by metis
qed

section \<open>Witnesses\<close>

text \<open>A transfer of 20 lamports from the account 9 to the account 8 in a message with one instruction.\<close>

definition unavailable :: processor where
  "unavailable env program_id data s = (Err InvalidAccountData, s)"

definition demo_message_env :: message_env where
  "demo_message_env =
     \<lparr>me_programs = genesis_builtins demo_system_codecs demo_vote_codecs demo_stake_codecs demo_config_codec @ feature_builtins,
      me_native_loader = unavailable, me_rent = rent_default, me_feature_active = (\<lambda>_. True),
      me_compute_budget = compute_budget_new, me_load_account = (\<lambda>_. None)\<rparr>"

definition demo_transfer :: message where
  "demo_transfer = \<lparr>msg_header = \<lparr>mh_num_required_signatures = 1, mh_num_readonly_signed_accounts = 0,
      mh_num_readonly_unsigned_accounts = 1\<rparr>, msg_account_keys = [9, 8, 0], msg_recent_blockhash = 0,
      msg_instructions = [\<lparr>ci_program_id_index = 2, ci_accounts = [0, 1], ci_data = [1, 20]\<rparr>]\<rparr>"

definition demo_accounts :: account_refs where
  "demo_accounts = [(9, 0), (8, 1), (0, 2)]"

definition demo_loaders :: "account_refs list" where
  "demo_loaders = [[(0, 3)]]"

definition demo_message_state :: message_state where
  "demo_message_state =
     \<lparr>ms_store = [shared_new 100 0 0, shared_new 0 0 0, (shared_new 1 0 native_loader_id)\<lparr>acc_executable := True\<rparr>,
        (shared_new 1 0 native_loader_id)\<lparr>acc_executable := True\<rparr>],
      ms_remaining = 200000, ms_executors = executors_default, ms_recorders = None, ms_timings = execute_timings_default\<rparr>"

lemma demo_transfer_simps:
  "msg_account_keys demo_transfer = [9, 8, 0]"
  "msg_instructions demo_transfer = [\<lparr>ci_program_id_index = 2, ci_accounts = [0, 1], ci_data = [1, 20]\<rparr>]"
  "msg_is_signer demo_transfer i \<longleftrightarrow> i < 1"
  "msg_is_writable demo_transfer 0 = Ok True" "msg_is_writable demo_transfer (Suc 0) = Ok True"
  by (simp_all add: msg_is_signer_def msg_is_writable_def demo_transfer_def writable_range_def index_at_def small_not_reserved)

definition demo_invoke_env :: invoke_env where
  "demo_invoke_env = \<lparr>ie_rent = rent_default, ie_accounts = demo_accounts, ie_compute_budget = compute_budget_new,
     ie_feature_active = (\<lambda>_. True), ie_load_account = (\<lambda>_. None)\<rparr>"

definition demo_invoke_state :: invoke_state where
  "demo_invoke_state = \<lparr>is_invoke_stack = [stack_frame_new 0 (create_keyed_accounts_unified
        [(False, False, 0, 3), (True, True, 9, 0), (False, True, 8, 1)])],
     is_pre_accounts = [pre_account_new 9 (shared_new 100 0 0), pre_account_new 8 (shared_new 0 0 0)],
     is_store = ms_store demo_message_state, is_remaining = 200000, is_executors = executors_default, is_recorder = None,
     is_timings = execute_timings_default, is_sysvars = []\<rparr>"

lemma demo_ids:
  "9 \<noteq> instructions_id" "8 \<noteq> instructions_id" "0 \<noteq> instructions_id" "0 \<noteq> neon_evm_program_id"
  by code_simp+

lemma demo_instruction_context:
  "instruction_context demo_message_env demo_transfer (msg_instructions demo_transfer ! 0) [(0, 3)] demo_accounts 0 demo_message_state =
     Ok (0, demo_invoke_env, demo_invoke_state)"
  using demo_ids
  by (simp add: instruction_context_def fixup_instructions_sysvar_def demo_message_env_def demo_accounts_def
      demo_ids [THEN not_sym] instruction_budget_def invoke_context_new_def create_keyed_accounts_def ci_program_id_def index_at_def
      create_pre_accounts_def visit_each_account_def Let_def demo_invoke_env_def demo_invoke_state_def
      deref_def demo_transfer_simps demo_message_state_def)

definition demo_final_state :: invoke_state where
  "demo_final_state = demo_invoke_state\<lparr>
     is_invoke_stack := [(hd (is_invoke_stack demo_invoke_state))\<lparr>sf_range_start := 1\<rparr>],
     is_store := [shared_new 80 0 0, shared_new 20 0 0] @ drop 2 (ms_store demo_message_state)\<rparr>"

lemma demo_process:
  "process_instruction (me_programs demo_message_env) (me_native_loader demo_message_env) demo_invoke_env 0 [1, 20]
     demo_invoke_state = (Ok (), demo_final_state)"
  by (simp add: process_instruction_def get_keyed_accounts_def demo_invoke_state_def stack_frame_new_def
      create_keyed_accounts_unified_def ka_owner_def account_ref_def demo_message_state_def shared_new_def
      find_program_def demo_message_env_def genesis_builtins_def remove_first_keyed_account_def builtin_processor_def
      demo_invoke_env_def demo_final_state_def system_process_instruction_def limited_deserialize_def demo_system_codecs_def
      system_dispatch_def keyed_account_at_index_def get_at_def Let_def transfer_def transfer_verified_def signer_key_def ka_data_is_empty_def
      ka_lamports_def debit_def credit_def checked_sub_lamports_def checked_add_lamports_def checked_sub_def checked_add_def set_account_def)

lemma demo_verify:
  "\<exists>t. mp_verify demo_transfer (msg_instructions demo_transfer ! 0) (is_pre_accounts demo_final_state)
     (deref (is_store demo_final_state) demo_accounts) rent timings policy = Ok t"
  by (simp add: mp_verify_def ci_program_id_def index_at_def visit_each_account_def demo_transfer_simps demo_final_state_def
      demo_invoke_state_def verify_work_def demo_accounts_def deref_def pre_account_verify_def pre_account_new_def shared_new_def
      pa_lamports_def Let_def)

lemma demo_run:
  obtains ms' where "process_message demo_message_env (\<lambda>_. 0) demo_transfer demo_loaders demo_accounts demo_message_state = Ok ms'"
    and "map acc_lamports (ms_store ms') = [80, 20, 1, 1]"
proof -
  obtain t where t: "mp_verify demo_transfer (msg_instructions demo_transfer ! 0) (is_pre_accounts demo_final_state)
     (deref (is_store demo_final_state) demo_accounts) rent_default execute_timings_default True = Ok t"
    using demo_verify by blast
  have env: "me_rent demo_message_env = rent_default" "me_feature_active demo_message_env = (\<lambda>_. True)"
    "ms_timings demo_message_state = execute_timings_default" "ci_data (msg_instructions demo_transfer ! 0) = [1, 20]"
    by (simp_all add: demo_message_env_def demo_message_state_def demo_transfer_simps)
  obtain ms1 where ms1: "execute_instruction demo_message_env demo_transfer (msg_instructions demo_transfer ! 0) [(0, 3)] demo_accounts 0
      demo_message_state = Ok ms1" "ms_store ms1 = is_store demo_final_state"
    using t by (simp add: execute_instruction_def demo_instruction_context env demo_process)
  have "\<exists>ms'. process_message demo_message_env (\<lambda>_. 0) demo_transfer demo_loaders demo_accounts demo_message_state = Ok ms' \<and>
      ms_store ms' = ms_store ms1"
    using ms1(1) by (simp add: process_message_def process_message_step_def demo_transfer_simps demo_loaders_def index_at_def ci_program_id_def)
  then show ?thesis using that ms1(2) by (auto simp: demo_final_state_def demo_message_state_def shared_new_def)
qed

lemma demo_loaded: "accounts_loaded demo_transfer demo_loaders demo_accounts (ms_store demo_message_state)"
  by (simp add: accounts_loaded_def demo_transfer_def demo_loaders_def demo_accounts_def demo_message_state_def)

lemma unavailable_ok: "leaf unavailable" "well_behaved unavailable"
  by (simp_all add: leaf_def well_behaved_def unavailable_def touches_only_simps)

theorem process_message_conserves_witness:
  "\<exists>ms'. process_message demo_message_env (\<lambda>_. 0) demo_transfer demo_loaders demo_accounts demo_message_state = Ok ms' \<and>
     map acc_lamports (ms_store ms') = [80, 20, 1, 1] \<and>
     account_sum demo_accounts (ms_store ms') = account_sum demo_accounts (ms_store demo_message_state)"
proof -
  obtain ms' where ms': "process_message demo_message_env (\<lambda>_. 0) demo_transfer demo_loaders demo_accounts demo_message_state = Ok ms'"
    "map acc_lamports (ms_store ms') = [80, 20, 1, 1]" by (rule demo_run)
  have "well_behaved secp256k1_process_instruction" "well_behaved compute_budget_process_instruction"
    by (simp_all add: well_behaved_def secp256k1_process_instruction_def compute_budget_process_instruction_def)
  then have "isolated demo_message_env demo_transfer demo_loaders demo_accounts"
    using unavailable_ok(2) well_behaved_stake well_behaved_builtin [OF touches_only_system] well_behaved_builtin [OF touches_only_vote_program]
      well_behaved_builtin [OF touches_only_config]
    by (intro well_behaved_isolated) (auto simp: demo_message_env_def genesis_builtins_def feature_builtins_def)
  from process_message_conserves [OF this demo_loaded ms'(1)] ms' show ?thesis
    by (intro exI [of _ ms'] conjI) simp_all
qed

theorem process_message_builtins_witness:
  "\<exists>ms'. process_message demo_message_env (\<lambda>_. 0) demo_transfer demo_loaders demo_accounts demo_message_state = Ok ms' \<and>
     ms_store ms' ! 2 = ms_store demo_message_state ! 2 \<and>
     account_sum demo_accounts (ms_store ms') = account_sum demo_accounts (ms_store demo_message_state)"
proof -
  obtain ms' where ms': "process_message demo_message_env (\<lambda>_. 0) demo_transfer demo_loaders demo_accounts demo_message_state = Ok ms'"
    by (rule demo_run)
  have p: "me_programs demo_message_env = genesis_builtins demo_system_codecs demo_vote_codecs demo_stake_codecs demo_config_codec @ feature_builtins"
    "leaf (me_native_loader demo_message_env)" using unavailable_ok(1) by (simp_all add: demo_message_env_def)
  have n: "2 < length demo_accounts" "snd (demo_accounts ! 2) = 2" "acc_executable (ms_store demo_message_state ! 2)"
    by (simp_all add: demo_accounts_def demo_message_state_def)
  have "fst (demo_accounts ! 2) \<noteq> instructions_id" by code_simp
  from process_message_builtins [OF p(1) p(2) demo_loaded ms' n(1) this refl refl] ms' n show ?thesis
    by (intro exI [of _ ms'] conjI) simp_all
qed

end
