(* ===== verification/Spec2Isabelle.thy ===== *)
theory Spec2Isabelle
  imports Program_Error Program_Ids Account_Model Rent_Model Epoch_Schedule Slot_History Slot_Hashes
    Authorized_Voters Vote_State Vote_Check Vote_Tower Vote_Credits Program_Context Vote_Program Vote_Authority
    Pubkey_Model Nonce_Model System_Program Message_Model Instruction_Bytes Account_Verify
    Invoke_Context Message_Processor Config_Program
    Stake_State Stake_Rewards Stake_Program Stake_Safety Stake_Backing Builtin_Programs
begin

text \<open>
  \<^bold>\<open>A verification development for the validator and its on-chain programs.\<close>

  The repository is a validator. A transaction carries a message: a list of account keys with
  a header that says which keys sign and which are writable, and instructions that name a
  program and some of the accounts. The runtime loads the accounts, gives the message to the
  message processor, and stores the accounts when every instruction has succeeded. The
  processor runs the program of each instruction on an invoke context, which also serves the
  calls that programs make to each other, and checks afterwards that the program changed only
  what it may change. Some programs are built in: system, vote, stake, config and two
  precompile stubs. The development models the code from the compilation of a message to
  these programs, with the sysvars and helpers they read.

  \<^bold>\<open>Conventions.\<close> Machine integers are words of their width, \<open>usize\<close> is \<open>nat\<close>, keys and hashes
  are words of 256 bits. Arithmetic wraps as in a release build where the source does not
  check it. \<open>result\<close> has \<open>Ok\<close>, \<open>Err\<close> and \<open>Panic\<close>; \<open>and_then\<close> is the operator \<open>?\<close>. Shared
  mutable accounts (\<open>Rc<RefCell<AccountSharedData>>\<close>) are entries of a store; a keyed account
  names its entry by index, so one account at two positions of an instruction is one entry.
  Parameters stand for code that is not in the repository: \<open>bincode\<close> encodings (\<open>codec\<close>),
  SHA-256 and the curve test (\<open>crypto\<close>), the \<open>bv\<close> bit vector (\<open>bit_vec\<close>), and programs that
  are loaded at run time (\<open>processor\<close>).

  \<^bold>\<open>Theories.\<close>
  \<^item> \<open>Rust_Prelude\<close>, \<open>Rust_Collections\<close>, \<open>Rust_F64\<close>: the standard library that the source uses:
    results, checked and saturating arithmetic, binary search and \<open>BTreeMap\<close>, IEEE doubles.
    The lemmas show that binary search finds what it should in partitioned lists and that
    rounding is exact on integers of 53 bits and monotone.
  \<^item> \<open>Program_Error\<close>, \<open>Program_Ids\<close>: \<open>sdk/program/src/program_error.rs\<close>, \<open>instruction.rs\<close> and the
    declared ids; the conversions through return codes agree.
  \<^item> \<open>Account_Model\<close>, \<open>Program_Context\<close>: \<open>sdk/src/account.rs\<close>, \<open>keyed_account.rs\<close>,
    \<open>account_utils.rs\<close>. \<open>Program_Context\<close> also holds the two collections that carry the proofs
    about programs: \<open>conserves\<close> (the sum of lamports is kept) and \<open>touches_only\<close> (only the
    named accounts change), and the locale of programs that conserve.
  \<^item> \<open>Rent_Model\<close>, \<open>Epoch_Schedule\<close>, \<open>Slot_History\<close>, \<open>Slot_Hashes\<close>: the sysvars. Rent is exact
    and monotone through its detour over doubles; slots and epochs correspond one to one;
    slot history refines a set of slots and slot hashes a finite map.
  \<^item> \<open>Vote_State\<close>, \<open>Authorized_Voters\<close>, \<open>Vote_Check\<close>, \<open>Vote_Tower\<close>, \<open>Vote_Credits\<close>,
    \<open>Vote_Authority\<close>, \<open>Vote_Program\<close>: \<open>programs/vote/src\<close>. The tower keeps its invariant, locked
    out votes stay, roots advance and earn credits, authority changes take effect at the
    right epoch; every instruction of the program needs the signature of the authority it
    acts for, and conserves lamports.
  \<^item> \<open>Pubkey_Model\<close>, \<open>Nonce_Model\<close>, \<open>System_Program\<close>: derived addresses, durable nonces and
    \<open>runtime/src/system_instruction_processor.rs\<close>, with conservation, authorization, and the
    exact conditions of account creation.
  \<^item> \<open>Config_Program\<close>: \<open>programs/config/src\<close>; an update needs the stored and the new signers.
  \<^item> \<open>Message_Model\<close>, \<open>Instruction_Bytes\<close>: \<open>sdk/program/src/message.rs\<close> and the instructions
    sysvar. Compilation is inverted by reading the instructions back, keys get exactly the
    privileges that were asked for (under a condition the code needs, with a counterexample
    for the rest), sanitized messages never index out of range.
  \<^item> \<open>Account_Verify\<close>, \<open>Invoke_Context\<close>, \<open>Message_Processor\<close>: \<open>runtime/src/message_processor.rs\<close>.
    The checks after an instruction are equivalent to a declarative policy; any run of the
    operations of a context keeps the stack bounded and free of reentry; a processed message
    conserves lamports whatever its programs do, as long as they give up when a verification
    fails; calls between programs do not escalate privileges where the compiled message keeps
    them. Examples show what happens otherwise: a
    verification that fails has taken over what it saw, and a caller passes on a privilege that it
    does not have.
  \<^item> \<open>Stake_State\<close>, \<open>Stake_Rewards\<close>, \<open>Stake_Program\<close>, \<open>Stake_Safety\<close>,
    \<open>Stake_Backing\<close>: \<open>sdk/program/src/stake\<close>, \<open>stake_history.rs\<close> and
    \<open>programs/stake/src\<close>. The warmup and cooldown loops end, a delegation never counts for more
    than was delegated and falls after its deactivation; a round of rewards stays within its pot and pays no credit twice; every instruction of the program
    conserves lamports, needs the signature of the authority it acts for, and keeps active
    delegations covered by the balance (with a counterexample for the one path that does not);
    a split divides a stake and makes none.
  \<^item> \<open>Builtin_Programs\<close>: \<open>runtime/src/builtins.rs\<close>; messages of builtin programs leave read-only
    and foreign accounts alone.

  \<^bold>\<open>Bounds.\<close> There is no fuel: loops are structural recursion over the data, or recursion with
  a measure (binary search over the width of its interval, the bump search over the bump
  seed, warmup and cooldown of a stake over the epochs that are left). Steps of a context are an inductive relation, so that a program may take any number
  of them.

  \<^bold>\<open>Not modelled.\<close> The BPF virtual machine and the native loader: they run
  code that is not in the repository, and appear as arbitrary processors. The bank, the
  accounts database, the ledger, consensus, gossip and the network services: concurrent code
  over storage, clocks and sockets around the interface \<open>process_message\<close>. Command line, RPC
  and web front ends: input and output only. Inside the modelled files: logging, timing,
  \<open>Debug\<close> and \<open>Display\<close>, the constructors used by tests only.
\<close>

end
